(* ===== verification/Prelude.thy ===== *)
theory Prelude
  imports Main "HOL-Library.Multiset" "HOL-Library.AList"
begin

text \<open>
  The library the component theories share: Go maps as association lists, an
  arbitrary iteration order as a permutation of a list, the stable sort behind
  \<^verbatim>\<open>sort.Slice\<close> and \<^verbatim>\<open>sort.SliceStable\<close> with
  the contract of its comparator as a locale, and a few facts on lists that the
  pagination and deduplication proofs need.
\<close>

named_theorems gomap_simps \<open>lookup, key set and size of updated Go maps\<close>
named_theorems perm_simps \<open>multisets, sets and lengths of shuffled and sorted lists\<close>
named_theorems frame_simps \<open>fields an operation does not touch\<close>


section \<open>Go maps\<close>

text \<open>
  A Go map is an association list with distinct keys. The order of the list carries
  no meaning: an operation that ranges over a map first permutes it (below).
\<close>

type_synonym ('k, 'v) gomap = "('k \<times> 'v) list"

abbreviation mget :: "('k, 'v) gomap \<Rightarrow> 'k \<Rightarrow> 'v option" where
  "mget m k \<equiv> map_of m k"

abbreviation mput :: "'k \<Rightarrow> 'v \<Rightarrow> ('k, 'v) gomap \<Rightarrow> ('k, 'v) gomap" where
  "mput k v m \<equiv> AList.update k v m"

abbreviation mdel :: "'k \<Rightarrow> ('k, 'v) gomap \<Rightarrow> ('k, 'v) gomap" where
  "mdel k m \<equiv> AList.delete k m"

abbreviation mkeys :: "('k, 'v) gomap \<Rightarrow> 'k set" where
  "mkeys m \<equiv> fst ` set m"

definition mwf :: "('k, 'v) gomap \<Rightarrow> bool" where
  "mwf m \<longleftrightarrow> distinct (map fst m)"

lemma mget_mput [gomap_simps, simp]: "mget (mput k v m) k' = (if k' = k then Some v else mget m k')"
  by (simp add: update_conv')

lemma mget_mdel [gomap_simps, simp]: "mget (mdel k m) k' = (if k' = k then None else mget m k')"
  by (simp add: delete_conv')

lemma mkeys_mput [gomap_simps, simp]: "mkeys (mput k v m) = insert k (mkeys m)"
  by (induction m) auto

lemma mkeys_mdel [gomap_simps, simp]: "mkeys (mdel k m) = mkeys m - {k}"
  by (auto simp: AList.delete_eq)

lemma mwf_Nil [simp]: "mwf []"
  by (simp add: mwf_def)

lemma mwf_mput [simp, intro]: "mwf m \<Longrightarrow> mwf (mput k v m)"
  by (simp add: mwf_def distinct_update)

lemma mwf_mdel [simp, intro]: "mwf m \<Longrightarrow> mwf (mdel k m)"
  by (simp add: mwf_def distinct_delete)

lemma length_mput [gomap_simps]:
  "length (mput k v m) = (if k \<in> mkeys m then length m else Suc (length m))"
  by (induction m) auto

lemma length_mdel [gomap_simps]:
  "mwf m \<Longrightarrow> length (mdel k m) = (if k \<in> mkeys m then length m - 1 else length m)"
proof (induction m)
  case Nil
  then show ?case by simp
next
  case (Cons p m)
  obtain k' v where p: "p = (k', v)" by (cases p)
  have wf: "mwf m" using Cons.prems by (simp add: mwf_def)
  show ?case
  proof (cases "k' = k")
    case True
    then have "k \<notin> mkeys m" using Cons.prems p by (auto simp: mwf_def)
    then show ?thesis using True p by (simp add: delete_idem)
  next
    case False
    have "mkeys m \<noteq> {} \<Longrightarrow> length m \<noteq> 0" by auto
    then show ?thesis using False p Cons.IH [OF wf] by (cases m) auto
  qed
qed

lemma mget_Some_in: "mget m k = Some v \<Longrightarrow> (k, v) \<in> set m"
  by (rule map_of_SomeD)

lemma in_mget_Some: "mwf m \<Longrightarrow> (k, v) \<in> set m \<Longrightarrow> mget m k = Some v"
  by (simp add: mwf_def map_of_is_SomeI)

lemma in_set_mput: "mwf m \<Longrightarrow>
    (k', v') \<in> set (mput k v m) \<longleftrightarrow> (if k' = k then v' = v else (k', v') \<in> set m)"
  by (metis (no_types, lifting) in_mget_Some map_of_SomeD mget_mput mwf_mput option.inject)

lemma in_set_mdel: "(k', v') \<in> set (mdel k m) \<longleftrightarrow> k' \<noteq> k \<and> (k', v') \<in> set m"
  by (auto simp: AList.delete_eq)

lemma mget_None_iff: "mget m k = None \<longleftrightarrow> k \<notin> mkeys m"
  by (simp add: map_of_eq_None_iff)

lemma mget_eq_mset:
  assumes "mwf m" and "mwf m'" and "mset m = mset m'"
  shows "mget m = mget m'"
  using assms by (metis map_of_inject_set mset_eq_setD mwf_def)


section \<open>Iteration in an arbitrary order\<close>

text \<open>
  Go leaves the iteration order of a map unspecified and changes it between runs. A
  rank function picks a permutation: every permutation of a list is
  \<open>shuffle r\<close> for some \<open>r\<close>, and \<open>shuffle r\<close> is a permutation for every
  \<open>r\<close>, so a statement about all ranks is a statement about all iteration orders.
\<close>

definition shuffle :: "(nat \<Rightarrow> nat) \<Rightarrow> 'a list \<Rightarrow> 'a list" where
  "shuffle r xs = map ((!) xs) (sort_key r [0..<length xs])"

lemma mset_shuffle [perm_simps, simp]: "mset (shuffle r xs) = mset xs"
proof -
  have "mset (shuffle r xs) = image_mset ((!) xs) (mset [0..<length xs])"
    by (simp add: shuffle_def)
  also have "\<dots> = mset (map ((!) xs) [0..<length xs])"
    by (simp only: mset_map)
  finally show ?thesis by (simp only: map_nth)
qed

lemma set_shuffle [perm_simps, simp]: "set (shuffle r xs) = set xs"
  by (rule mset_eq_setD) simp

lemma length_shuffle [perm_simps, simp]: "length (shuffle r xs) = length xs"
  by (simp add: shuffle_def)

lemma distinct_shuffle [perm_simps, simp]: "distinct (shuffle r xs) = distinct xs"
  by (rule mset_eq_imp_distinct_iff) simp

lemma mwf_shuffle [perm_simps, simp]: "mwf (shuffle r m) = mwf m"
  unfolding mwf_def by (rule mset_eq_imp_distinct_iff) simp

lemma shuffle_Nil [simp]: "shuffle r [] = []"
  by (simp add: shuffle_def)

lemma shuffle_eq_Nil [simp]: "shuffle r xs = [] \<longleftrightarrow> xs = []"
  by (metis length_0_conv length_shuffle)


section \<open>Sorting with a comparator\<close>

text \<open>
  Stable insertion sort by a \<open>lt\<close> function, as \<^verbatim>\<open>sort.SliceStable\<close>
  promises. \<^verbatim>\<open>sort.Slice\<close> promises no stability; its calls in the source
  all sort a slice filled from a map range, so the shuffle before the stable sort
  already yields every tie order it can produce.
\<close>

fun insert_by :: "('a \<Rightarrow> 'a \<Rightarrow> bool) \<Rightarrow> 'a \<Rightarrow> 'a list \<Rightarrow> 'a list" where
  "insert_by lt x [] = [x]"
| "insert_by lt x (y # ys) = (if lt y x then y # insert_by lt x ys else x # y # ys)"

definition sort_by :: "('a \<Rightarrow> 'a \<Rightarrow> bool) \<Rightarrow> 'a list \<Rightarrow> 'a list" where
  "sort_by lt xs = foldr (insert_by lt) xs []"

lemma sort_by_Nil [simp]: "sort_by lt [] = []"
  by (simp add: sort_by_def)

lemma sort_by_Cons [simp]: "sort_by lt (x # xs) = insert_by lt x (sort_by lt xs)"
  by (simp add: sort_by_def)

lemma mset_insert_by [perm_simps, simp]: "mset (insert_by lt x xs) = add_mset x (mset xs)"
  by (induction xs) auto

lemma mset_sort_by [perm_simps, simp]: "mset (sort_by lt xs) = mset xs"
  by (induction xs) auto

lemma set_insert_by [perm_simps, simp]: "set (insert_by lt x xs) = insert x (set xs)"
  by (induction xs) auto

lemma set_sort_by [perm_simps, simp]: "set (sort_by lt xs) = set xs"
  by (rule mset_eq_setD) simp

lemma length_sort_by [perm_simps, simp]: "length (sort_by lt xs) = length xs"
  by (rule mset_eq_length) simp

lemma distinct_sort_by [perm_simps, simp]: "distinct (sort_by lt xs) = distinct xs"
  by (rule mset_eq_imp_distinct_iff) simp

text \<open>
  The contract a comparator owes the sort: a strict weak order on the elements that are
  \<open>ok\<close> (floats that are not NaN, say). Its client, the sort, then returns a list
  in which no later element is less than an earlier one.
\<close>

locale comparator =
  fixes lt :: "'a \<Rightarrow> 'a \<Rightarrow> bool" and ok :: "'a \<Rightarrow> bool"
  assumes asym: "ok a \<Longrightarrow> ok b \<Longrightarrow> lt a b \<Longrightarrow> \<not> lt b a"
    and neg_trans: "ok a \<Longrightarrow> ok b \<Longrightarrow> ok c \<Longrightarrow> lt a c \<Longrightarrow> lt a b \<or> lt b c"
begin

lemma not_less_trans:
  "ok a \<Longrightarrow> ok b \<Longrightarrow> ok c \<Longrightarrow> \<not> lt b a \<Longrightarrow> \<not> lt c b \<Longrightarrow> \<not> lt c a"
  using neg_trans by blast

lemma sorted_insert_by:
  "ok x \<Longrightarrow> \<forall>y \<in> set ys. ok y \<Longrightarrow> sorted_wrt (\<lambda>a b. \<not> lt b a) ys
    \<Longrightarrow> sorted_wrt (\<lambda>a b. \<not> lt b a) (insert_by lt x ys)"
proof (induction ys)
  case Nil
  then show ?case by simp
next
  case (Cons y ys)
  show ?case
  proof (cases "lt y x")
    case True
    then have "\<not> lt x y" using Cons.prems asym by auto
    then show ?thesis using True Cons by auto
  next
    case False
    have "\<not> lt z x" if "z \<in> set ys" for z
      using Cons.prems False that not_less_trans [of x y z] by auto
    then show ?thesis using False Cons.prems by auto
  qed
qed

lemma sorted_sort_by:
  "\<forall>x \<in> set xs. ok x \<Longrightarrow> sorted_wrt (\<lambda>a b. \<not> lt b a) (sort_by lt xs)"
  by (induction xs) (auto intro: sorted_insert_by)

lemma take_sort_by_best:
  assumes "\<forall>x \<in> set xs. ok x" and "a \<in> set (take n (sort_by lt xs))"
    and "b \<in> set (drop n (sort_by lt xs))"
  shows "\<not> lt b a"
proof -
  have "sorted_wrt (\<lambda>a b. \<not> lt b a) (take n (sort_by lt xs) @ drop n (sort_by lt xs))"
    using assms(1) by (simp add: sorted_sort_by)
  then show ?thesis using assms(2,3) by (simp only: sorted_wrt_append) blast
qed

end

text \<open>
  Where elements the comparator cannot tell apart have equal keys, and the keys of the
  list are distinct, the sorted list does not depend on the order of the input: the
  result of ranging over a map and sorting is deterministic.
\<close>

locale keyed_comparator = comparator lt ok
  for lt :: "'a \<Rightarrow> 'a \<Rightarrow> bool" and ok :: "'a \<Rightarrow> bool" +
  fixes key :: "'a \<Rightarrow> 'k"
  assumes tie: "ok a \<Longrightarrow> ok b \<Longrightarrow> \<not> lt a b \<Longrightarrow> \<not> lt b a \<Longrightarrow> key a = key b"
begin

lemma strict_if_weak:
  "sorted_wrt (\<lambda>a b. \<not> lt b a) xs \<Longrightarrow> distinct (map key xs) \<Longrightarrow> \<forall>x \<in> set xs. ok x
    \<Longrightarrow> sorted_wrt lt xs"
proof (induction xs)
  case Nil
  then show ?case by simp
next
  case (Cons x xs)
  have "lt x y" if y: "y \<in> set xs" for y
  proof (rule ccontr)
    assume "\<not> lt x y"
    then have "key x = key y" using tie [of x y] Cons.prems y by auto
    then show False using Cons.prems(2) y by (auto simp: image_iff)
  qed
  then show ?case using Cons by auto
qed

lemma strictly_sorted:
  assumes "\<forall>x \<in> set xs. ok x" and "distinct (map key xs)"
  shows "sorted_wrt lt (sort_by lt xs)"
proof (rule strict_if_weak)
  show "sorted_wrt (\<lambda>a b. \<not> lt b a) (sort_by lt xs)" by (rule sorted_sort_by [OF assms(1)])
  have "mset (map key (sort_by lt xs)) = mset (map key xs)" by simp
  then show "distinct (map key (sort_by lt xs))"
    using assms(2) by (metis mset_eq_imp_distinct_iff)
  show "\<forall>x \<in> set (sort_by lt xs). ok x" using assms(1) by simp
qed

lemma sorted_unique:
  assumes "sorted_wrt lt xs" and "sorted_wrt lt ys" and "mset xs = mset ys"
    and "\<forall>x \<in> set xs. ok x"
  shows "xs = ys"
  using assms
proof (induction xs arbitrary: ys)
  case Nil
  then show ?case by simp
next
  case (Cons x xs)
  then obtain y ys' where ys: "ys = y # ys'" by (cases ys) auto
  have "x = y"
  proof (rule ccontr)
    assume ne: "x \<noteq> y"
    have xin: "x \<in> set ys" and yin: "y \<in> set (x # xs)"
      using Cons.prems(3) ys by (metis list.set_intros(1) mset_eq_setD)+
    have "lt y x" using xin ne ys Cons.prems(2) by auto
    moreover have "lt x y" using yin ne Cons.prems(1) by auto
    ultimately show False using asym Cons.prems(4) yin by auto
  qed
  moreover have "xs = ys'"
    by (rule Cons.IH) (use Cons.prems ys \<open>x = y\<close> in auto)
  ultimately show ?case using ys by simp
qed

lemma sort_by_perm_unique:
  assumes "mset xs = mset ys" and "\<forall>x \<in> set xs. ok x" and "distinct (map key xs)"
  shows "sort_by lt xs = sort_by lt ys"
proof (rule sorted_unique)
  show "sorted_wrt lt (sort_by lt xs)" by (rule strictly_sorted [OF assms(2,3)])
  have "set xs = set ys" by (rule mset_eq_setD [OF assms(1)])
  moreover have "distinct (map key ys)"
    using assms(1,3) by (metis mset_eq_imp_distinct_iff mset_map)
  ultimately show "sorted_wrt lt (sort_by lt ys)"
    using strictly_sorted assms(2) by simp
  show "mset (sort_by lt xs) = mset (sort_by lt ys)" using assms(1) by simp
  show "\<forall>x \<in> set (sort_by lt xs). ok x" using assms(2) by simp
qed

end


section \<open>Lists\<close>

lemma mset_filter_map_snd_shuffle:
  "mset (filter P (map snd (shuffle r m))) = mset (filter P (map snd m))"
  by (simp add: mset_filter)

lemma distinct_map_filter: "distinct (map f xs) \<Longrightarrow> distinct (map f (filter P xs))"
  by (induction xs) auto

lemma dropWhile_sorted_prefix:
  assumes "\<forall>x \<in> set xs. P x" and "\<forall>y \<in> set ys. \<not> P y"
  shows "dropWhile P (xs @ ys) = ys"
  using assms by (cases ys) (auto simp: dropWhile_append3)

end
