(* ===== verification/GoRuntime.thy ===== *)
theory GoRuntime
  imports Complex_Main Prelude "HOL-Library.Char_ord" "HOL-Library.List_Lexorder"
begin

text \<open>
  The part of the Go language and its standard library that the memory package uses:
  \<^verbatim>\<open>float64\<close> with its special values, \<^verbatim>\<open>time.Time\<close> and
  \<^verbatim>\<open>time.Duration\<close>, byte strings with their UTF-8 runes, and the functions of
  \<^verbatim>\<open>strings\<close> and \<^verbatim>\<open>fmt\<close> called by the sources. Nothing here models a
  file of the repository; the other theories do.
\<close>


section \<open>Floating-point numbers\<close>

text \<open>
  A float is a real, an infinity or NaN. Comparisons and the propagation of NaN and of the
  infinities follow IEEE 754; the arithmetic of finite values is exact, that is, rounding,
  overflow to infinity and the sign of zero are left out. \<^verbatim>\<open>float32\<close> components of
  embedding vectors are the same type, since the code widens them before it computes.
\<close>

datatype float64 = Fin real | PInf | NInf | NaN

fun f_add :: "float64 \<Rightarrow> float64 \<Rightarrow> float64" where
  "f_add (Fin a) (Fin b) = Fin (a + b)"
| "f_add NaN _ = NaN"
| "f_add _ NaN = NaN"
| "f_add PInf NInf = NaN"
| "f_add NInf PInf = NaN"
| "f_add PInf _ = PInf"
| "f_add _ PInf = PInf"
| "f_add NInf _ = NInf"
| "f_add _ NInf = NInf"

definition f_inf :: "real \<Rightarrow> float64" where
  "f_inf s = (if s = 0 then NaN else if 0 < s then PInf else NInf)"

fun f_mul :: "float64 \<Rightarrow> float64 \<Rightarrow> float64" where
  "f_mul (Fin a) (Fin b) = Fin (a * b)"
| "f_mul NaN _ = NaN"
| "f_mul _ NaN = NaN"
| "f_mul (Fin a) PInf = f_inf a"
| "f_mul (Fin a) NInf = f_inf (- a)"
| "f_mul PInf (Fin b) = f_inf b"
| "f_mul NInf (Fin b) = f_inf (- b)"
| "f_mul PInf PInf = PInf"
| "f_mul NInf NInf = PInf"
| "f_mul _ _ = NInf"

text \<open>
  Division is only used with a divisor the code has checked not to be zero; the quotient
  by zero is still the IEEE one, up to the sign of the zero.
\<close>

fun f_div :: "float64 \<Rightarrow> float64 \<Rightarrow> float64" where
  "f_div (Fin a) (Fin b) = (if b = 0 then f_inf a else Fin (a / b))"
| "f_div NaN _ = NaN"
| "f_div _ NaN = NaN"
| "f_div (Fin a) _ = Fin 0"
| "f_div PInf (Fin b) = (if b < 0 then NInf else PInf)"
| "f_div NInf (Fin b) = (if b < 0 then PInf else NInf)"
| "f_div _ _ = NaN"

fun f_lt :: "float64 \<Rightarrow> float64 \<Rightarrow> bool" where
  "f_lt (Fin a) (Fin b) = (a < b)"
| "f_lt NaN _ = False"
| "f_lt _ NaN = False"
| "f_lt NInf NInf = False"
| "f_lt NInf _ = True"
| "f_lt _ NInf = False"
| "f_lt PInf _ = False"
| "f_lt _ PInf = True"

fun f_eq :: "float64 \<Rightarrow> float64 \<Rightarrow> bool" where
  "f_eq NaN _ = False"
| "f_eq _ NaN = False"
| "f_eq a b = (a = b)"

abbreviation f_gt :: "float64 \<Rightarrow> float64 \<Rightarrow> bool" where
  "f_gt a b \<equiv> f_lt b a"

definition f_le :: "float64 \<Rightarrow> float64 \<Rightarrow> bool" where
  "f_le a b \<longleftrightarrow> f_lt a b \<or> f_eq a b"

lemma f_lt_irrefl [simp]: "\<not> f_lt a a"
  by (cases a) auto

lemma f_lt_asym: "f_lt a b \<Longrightarrow> \<not> f_lt b a"
  by (cases a; cases b) auto

lemma f_lt_neg_trans: "b \<noteq> NaN \<Longrightarrow> f_lt a c \<Longrightarrow> f_lt a b \<or> f_lt b c"
  by (cases a; cases b; cases c) auto

lemma f_lt_tie: "a \<noteq> NaN \<Longrightarrow> b \<noteq> NaN \<Longrightarrow> \<not> f_lt a b \<Longrightarrow> \<not> f_lt b a \<Longrightarrow> a = b"
  by (cases a; cases b) auto

lemma f_lt_not_NaN: "f_lt a b \<Longrightarrow> a \<noteq> NaN \<and> b \<noteq> NaN"
  by (cases a; cases b) auto

lemma f_eq_iff [simp]: "f_eq a b \<longleftrightarrow> a \<noteq> NaN \<and> a = b"
  by (cases a; cases b) auto

lemma f_add_comm: "f_add a b = f_add b a"
  by (cases a; cases b) auto

lemma f_add_assoc: "f_add (f_add a b) c = f_add a (f_add b c)"
  by (cases a; cases b; cases c) auto

text \<open>The conversion \<^verbatim>\<open>float64(n)\<close> of an integer, and \<^verbatim>\<open>math.Sqrt\<close>, \<^verbatim>\<open>math.Exp\<close>.\<close>

definition f_of_int :: "int \<Rightarrow> float64" where
  "f_of_int n = Fin (of_int n)"

abbreviation f_of_nat :: "nat \<Rightarrow> float64" where
  "f_of_nat n \<equiv> f_of_int (int n)"

fun math_Sqrt :: "float64 \<Rightarrow> float64" where
  "math_Sqrt (Fin a) = (if a < 0 then NaN else Fin (sqrt a))"
| "math_Sqrt PInf = PInf"
| "math_Sqrt _ = NaN"

fun math_Exp :: "float64 \<Rightarrow> float64" where
  "math_Exp (Fin a) = Fin (exp a)"
| "math_Exp PInf = PInf"
| "math_Exp NInf = Fin 0"
| "math_Exp NaN = NaN"

text \<open>
  A conversion to an integer type truncates towards zero. For NaN and for values out of
  range the language leaves the result to the implementation: \<open>oor\<close> stands for it.
\<close>

definition trunc_real :: "real \<Rightarrow> int" where
  "trunc_real a = (if a < 0 then - \<lfloor>- a\<rfloor> else \<lfloor>a\<rfloor>)"

definition f_to_int :: "int \<Rightarrow> float64 \<Rightarrow> int" where
  "f_to_int oor f = (case f of
       Fin a \<Rightarrow> (let n = trunc_real a in if - (2 ^ 63) \<le> n \<and> n < 2 ^ 63 then n else oor)
     | _ \<Rightarrow> oor)"


section \<open>Time\<close>

text \<open>
  An instant is the number of nanoseconds since the zero time of Go (January 1 of year 1,
  UTC), so \<^verbatim>\<open>t.IsZero()\<close> is \<open>t = 0\<close>, \<^verbatim>\<open>Before\<close>, \<^verbatim>\<open>After\<close> and
  \<^verbatim>\<open>Equal\<close> are the order of the integers, and \<^verbatim>\<open>UTC\<close> changes nothing. A
  duration is an \<^verbatim>\<open>int64\<close> of nanoseconds: \<^verbatim>\<open>Sub\<close> saturates,
  \<^verbatim>\<open>UnixNano\<close> wraps around.
\<close>

type_synonym time = int
type_synonym duration = int

definition time_IsZero :: "time \<Rightarrow> bool" where
  "time_IsZero t \<longleftrightarrow> t = 0"

definition minDuration :: duration where "minDuration = - (2 ^ 63)"
definition maxDuration :: duration where "maxDuration = 2 ^ 63 - 1"

definition time_Sub :: "time \<Rightarrow> time \<Rightarrow> duration" where
  "time_Sub t u = max minDuration (min maxDuration (t - u))"

definition hour :: duration where "hour = 3600000000000"

definition unixEpoch :: time where "unixEpoch = 62135596800000000000"

definition wrap64 :: "int \<Rightarrow> int" where
  "wrap64 n = (n + 2 ^ 63) mod 2 ^ 64 - 2 ^ 63"

definition time_UnixNano :: "time \<Rightarrow> int" where
  "time_UnixNano t = wrap64 (t - unixEpoch)"

lemma time_Sub_bounds: "minDuration \<le> time_Sub t u \<and> time_Sub t u \<le> maxDuration"
  by (simp add: time_Sub_def minDuration_def maxDuration_def)

lemma wrap64_small: "0 \<le> n \<Longrightarrow> n < 2 ^ 63 \<Longrightarrow> wrap64 n = n"
  by (simp add: wrap64_def)

lemma wrap64_bounds: "- (2 ^ 63) \<le> wrap64 n \<and> wrap64 n < 2 ^ 63"
proof -
  have "0 \<le> (n + 2 ^ 63) mod 2 ^ 64" and "(n + 2 ^ 63) mod 2 ^ 64 < (2 ^ 64 :: int)"
    by simp_all
  then show ?thesis unfolding wrap64_def by simp
qed


section \<open>Strings\<close>

text \<open>
  A Go string is a sequence of bytes, which is what \<^typ>\<open>string\<close> is: a list of 8-bit
  characters, compared byte by byte.
\<close>

definition isASCII :: "char \<Rightarrow> bool" where
  "isASCII c \<longleftrightarrow> (of_char c :: nat) < 128"

definition isUpper :: "char \<Rightarrow> bool" where
  "isUpper c \<longleftrightarrow> CHR ''A'' \<le> c \<and> c \<le> CHR ''Z''"

definition isLowerAlnum :: "char \<Rightarrow> bool" where
  "isLowerAlnum c \<longleftrightarrow> (CHR ''a'' \<le> c \<and> c \<le> CHR ''z'') \<or> (CHR ''0'' \<le> c \<and> c \<le> CHR ''9'')"

definition lowerASCII :: "char \<Rightarrow> char" where
  "lowerASCII c = (if isUpper c then char_of ((of_char c :: nat) + 32) else c)"

text \<open>
  \<^verbatim>\<open>strings.ToLower\<close> maps ASCII strings byte by byte; for others it consults the
  Unicode tables, which \<open>uni\<close> stands for.
\<close>

definition strings_ToLower :: "(string \<Rightarrow> string) \<Rightarrow> string \<Rightarrow> string" where
  "strings_ToLower uni s = (if list_all isASCII s then map lowerASCII s else uni s)"

text \<open>
  The width of the rune at the head of a string, as \<^verbatim>\<open>range\<close> decodes it: invalid
  UTF-8 advances by one byte.
\<close>

definition inRange :: "nat \<Rightarrow> nat \<Rightarrow> char \<Rightarrow> bool" where
  "inRange lo hi c \<longleftrightarrow> lo \<le> of_char c \<and> of_char c \<le> hi"

abbreviation cont :: "char \<Rightarrow> bool" where
  "cont \<equiv> inRange 128 191"

definition runeWidth :: "string \<Rightarrow> nat" where
  "runeWidth s = (case s of
       [] \<Rightarrow> 0
     | a # r1 \<Rightarrow> (case r1 of
         [] \<Rightarrow> 1
       | b # r2 \<Rightarrow>
           if inRange 194 223 a \<and> cont b then 2
           else (case r2 of
             [] \<Rightarrow> 1
           | c # r3 \<Rightarrow>
               if cont c \<and> (inRange 224 224 a \<and> inRange 160 191 b
                    \<or> inRange 237 237 a \<and> inRange 128 159 b
                    \<or> (inRange 225 236 a \<or> inRange 238 239 a) \<and> cont b) then 3
               else (case r3 of
                 [] \<Rightarrow> 1
               | d # _ \<Rightarrow>
                   if cont c \<and> cont d \<and> (inRange 240 240 a \<and> inRange 144 191 b
                        \<or> inRange 241 243 a \<and> cont b
                        \<or> inRange 244 244 a \<and> inRange 128 143 b) then 4
                   else 1))))"

lemma runeWidth_pos: "s \<noteq> [] \<Longrightarrow> 0 < runeWidth s"
  by (auto simp: runeWidth_def split: list.splits)

lemma runeWidth_le: "runeWidth s \<le> length s"
  by (auto simp: runeWidth_def split: list.splits)

lemma runeWidth_ASCII: "isASCII c \<Longrightarrow> runeWidth (c # s) = 1"
  by (auto simp: runeWidth_def isASCII_def inRange_def split: list.splits)

text \<open>The runes of a string, each as its bytes.\<close>

function runes :: "string \<Rightarrow> string list" where
  "runes s = (if s = [] then [] else take (runeWidth s) s # runes (drop (runeWidth s) s))"
  by pat_completeness auto
termination
  by (relation "measure length") (auto simp: runeWidth_pos)

declare runes.simps [simp del]

lemma runes_Nil [simp]: "runes [] = []"
  by (simp add: runes.simps)

lemma runes_step: "s \<noteq> [] \<Longrightarrow> runes s = take (runeWidth s) s # runes (drop (runeWidth s) s)"
  by (subst runes.simps) simp

lemma runes_ASCII_Cons: "isASCII c \<Longrightarrow> runes (c # s) = [c] # runes s"
  by (simp add: runes_step [of "c # s"] runeWidth_ASCII)

lemma concat_runes: "concat (runes s) = s"
proof (induction s rule: runes.induct)
  case (1 s)
  then show ?case by (cases "s = []") (simp_all add: runes_step)
qed

text \<open>
  \<^verbatim>\<open>strings.TrimSpace\<close>: the white space of Unicode, as the UTF-8 byte sequences of
  \<^verbatim>\<open>unicode.IsSpace\<close>.
\<close>

definition isSpaceRune :: "string \<Rightarrow> bool" where
  "isSpaceRune r \<longleftrightarrow> map (of_char :: char \<Rightarrow> nat) r \<in>
     set ([[9], [10], [11], [12], [13], [32], [194, 133], [194, 160], [225, 154, 128],
           [226, 128, 168], [226, 128, 169], [226, 128, 175], [226, 129, 159], [227, 128, 128]]
          @ map (\<lambda>k. [226, 128, 128 + k]) [0..<11])"

definition leadingSpace :: "string \<Rightarrow> nat" where
  "leadingSpace s = (let n = runeWidth s in if isSpaceRune (take n s) then n else 0)"

definition lastRuneIs :: "nat \<Rightarrow> string \<Rightarrow> bool" where
  "lastRuneIs n s \<longleftrightarrow> n \<le> length s \<and> isSpaceRune (drop (length s - n) s)"

definition trailingSpace :: "string \<Rightarrow> nat" where
  "trailingSpace s = (if lastRuneIs 1 s then 1 else if lastRuneIs 2 s then 2
     else if lastRuneIs 3 s then 3 else 0)"

function trimLeft :: "string \<Rightarrow> string" where
  "trimLeft s = (if leadingSpace s = 0 then s else trimLeft (drop (leadingSpace s) s))"
  by pat_completeness auto
termination
  by (relation "measure length")
    (auto simp: leadingSpace_def Let_def runeWidth_def split: if_splits list.splits)

function trimRight :: "string \<Rightarrow> string" where
  "trimRight s = (if trailingSpace s = 0 then s else trimRight (take (length s - trailingSpace s) s))"
  by pat_completeness auto
termination
  by (relation "measure length")
    (auto simp: trailingSpace_def lastRuneIs_def split: if_splits)

declare trimLeft.simps [simp del] trimRight.simps [simp del]

definition strings_TrimSpace :: "string \<Rightarrow> string" where
  "strings_TrimSpace s = trimRight (trimLeft s)"

fun strings_HasPrefix :: "string \<Rightarrow> string \<Rightarrow> bool" where
  "strings_HasPrefix s [] = True"
| "strings_HasPrefix [] (_ # _) = False"
| "strings_HasPrefix (a # s) (b # t) = (a = b \<and> strings_HasPrefix s t)"

fun strings_Contains :: "string \<Rightarrow> string \<Rightarrow> bool" where
  "strings_Contains [] t = (t = [])"
| "strings_Contains (a # s) t = (strings_HasPrefix (a # s) t \<or> strings_Contains s t)"

fun strings_IndexByte :: "string \<Rightarrow> char \<Rightarrow> nat option" where
  "strings_IndexByte [] c = None"
| "strings_IndexByte (a # s) c = (if a = c then Some 0 else map_option Suc (strings_IndexByte s c))"

text \<open>\<^verbatim>\<open>strings.Split(s, sep)\<close> for a separator of one byte.\<close>

fun strings_Split :: "string \<Rightarrow> char \<Rightarrow> string list" where
  "strings_Split [] c = [[]]"
| "strings_Split (a # s) c =
     (if a = c then [] # strings_Split s c
      else (case strings_Split s c of [] \<Rightarrow> [[a]] | p # ps \<Rightarrow> (a # p) # ps))"

lemma strings_HasPrefix_iff: "strings_HasPrefix s t \<longleftrightarrow> (\<exists>u. s = t @ u)"
  by (induction s t rule: strings_HasPrefix.induct) auto

lemma strings_Contains_iff: "strings_Contains s t \<longleftrightarrow> (\<exists>u v. s = u @ t @ v)"
proof (induction s)
  case Nil
  then show ?case by auto
next
  case (Cons a s)
  have "(\<exists>u v. a # s = u @ t @ v) \<longleftrightarrow> (\<exists>v. a # s = t @ v) \<or> (\<exists>u v. s = u @ t @ v)"
    by (metis append_Cons append_Nil append_eq_Cons_conv)
  then show ?case using Cons by (simp add: strings_HasPrefix_iff)
qed

text \<open>\<^verbatim>\<open>%d\<close> of \<^verbatim>\<open>fmt.Sprintf\<close>.\<close>

definition digitChar :: "nat \<Rightarrow> char" where
  "digitChar d = char_of (48 + d)"

fun showNat :: "nat \<Rightarrow> string" where
  "showNat n = (if n < 10 then [digitChar n] else showNat (n div 10) @ [digitChar (n mod 10)])"

declare showNat.simps [simp del]

definition showInt :: "int \<Rightarrow> string" where
  "showInt n = (if n < 0 then CHR ''-'' # showNat (nat (- n)) else showNat (nat n))"

lemma of_char_digitChar:
  assumes "d < 10"
  shows "(of_char (digitChar d) :: nat) = 48 + d"
proof -
  have "(of_char (digitChar d) :: nat) = (48 + d) mod 256"
    unfolding digitChar_def by (rule of_char_of)
  also have "\<dots> = 48 + d" using assms by (intro mod_less) linarith
  finally show ?thesis .
qed

lemma digitChar_inj: "a < 10 \<Longrightarrow> b < 10 \<Longrightarrow> digitChar a = digitChar b \<Longrightarrow> a = b"
  by (drule arg_cong [where f = "of_char :: char \<Rightarrow> nat"]) (simp only: of_char_digitChar)

lemma showNat_chars: "\<forall>c \<in> set (showNat n). 48 \<le> (of_char c :: nat) \<and> (of_char c :: nat) \<le> 57"
proof (induction n rule: showNat.induct)
  case (1 n)
  show ?case
  proof (cases "n < 10")
    case True
    then show ?thesis by (subst showNat.simps) (simp add: of_char_digitChar)
  next
    case False
    have "n mod 10 < 10" by simp
    then show ?thesis using False 1 by (subst showNat.simps) (auto simp: of_char_digitChar)
  qed
qed

lemma showNat_not_Nil: "showNat n \<noteq> []"
  by (subst showNat.simps) simp

lemma showNat_inj: "showNat m = showNat n \<Longrightarrow> m = n"
proof (induction m arbitrary: n rule: showNat.induct)
  case (1 m)
  have l: "length (showNat k) = 1 \<longleftrightarrow> k < 10" for k
    by (subst showNat.simps) (simp add: showNat_not_Nil)
  show ?case
  proof (cases "m < 10")
    case True
    then have "n < 10" using "1.prems" l by metis
    then show ?thesis using True "1.prems"
      by (auto simp: showNat.simps [of m] showNat.simps [of n] intro: digitChar_inj)
  next
    case False
    then have n: "\<not> n < 10" using "1.prems" l by metis
    have e: "showNat (m div 10) = showNat (n div 10)" "digitChar (m mod 10) = digitChar (n mod 10)"
      using "1.prems" False n by (simp_all add: showNat.simps [of m] showNat.simps [of n])
    have "m div 10 = n div 10" by (rule "1.IH" [OF False e(1)])
    moreover have "m mod 10 = n mod 10" by (rule digitChar_inj [OF _ _ e(2)]) simp_all
    ultimately show ?thesis by (metis div_mult_mod_eq)
  qed
qed

lemma showInt_no_underscore: "CHR ''_'' \<notin> set (showInt n)"
proof
  assume "CHR ''_'' \<in> set (showInt n)"
  then have "CHR ''_'' \<in> set (showNat (nat \<bar>n\<bar>))"
    by (auto simp: showInt_def split: if_splits)
  then have "48 \<le> (of_char CHR ''_'' :: nat) \<and> (of_char CHR ''_'' :: nat) \<le> 57"
    by (rule bspec [OF showNat_chars])
  then show False by simp
qed

lemma showInt_inj: "showInt m = showInt n \<Longrightarrow> m = n"
proof -
  assume e: "showInt m = showInt n"
  have minus: "showNat k \<noteq> CHR ''-'' # s" for k s
  proof
    assume "showNat k = CHR ''-'' # s"
    then have "CHR ''-'' \<in> set (showNat k)" by simp
    then have "48 \<le> (of_char CHR ''-'' :: nat) \<and> (of_char CHR ''-'' :: nat) \<le> 57"
      by (rule bspec [OF showNat_chars])
    then show False by simp
  qed
  show "m = n"
  proof (cases "m < 0")
    case True
    then have "n < 0" using e minus by (metis showInt_def)
    then have "nat (- m) = nat (- n)" using True e by (intro showNat_inj) (simp add: showInt_def)
    then show ?thesis using True \<open>n < 0\<close> by simp
  next
    case False
    then have "\<not> n < 0" using e minus by (metis showInt_def)
    then have "nat m = nat n" using False e by (intro showNat_inj) (simp add: showInt_def)
    then show ?thesis using False \<open>\<not> n < 0\<close> by simp
  qed
qed

text \<open>Two strings that end in the same way after their last underscore agree there.\<close>

lemma last_underscore_eq:
  assumes "p @ CHR ''_'' # a = q @ CHR ''_'' # b"
    and "CHR ''_'' \<notin> set a" and "CHR ''_'' \<notin> set b"
  shows "a = b"
proof -
  have "takeWhile (\<lambda>c. c \<noteq> CHR ''_'') (rev (p @ CHR ''_'' # a)) = rev a"
    using assms(2) by (simp add: takeWhile_append)
  moreover have "takeWhile (\<lambda>c. c \<noteq> CHR ''_'') (rev (q @ CHR ''_'' # b)) = rev b"
    using assms(3) by (simp add: takeWhile_append)
  ultimately show ?thesis using assms(1) by (metis rev_is_rev_conv)
qed

end
