(* ===== verification/Contract.thy ===== *)
theory Contract
  imports GoRuntime
begin

text \<open>
  The data the memory package works on and the outside world it runs in. The data types are
  the ones \<^verbatim>\<open>src/memory/types_alias.go\<close> re-exports from the contract module
  (\<^verbatim>\<open>github.com/costa92/llm-agent-contract/memory\<close>), with the fields the package
  reads and writes. The contract module itself is not part of the repository: its functions
  and constants are fields of the record \<open>env\<close>, an argument of every definition that
  uses them, together with the clock, the map iteration order, the Unicode tables and the
  JSON codec of a cursor.
\<close>


section \<open>Kinds, values and errors\<close>

text \<open>
  The three kinds are distinct constants (they are cases of one switch in
  \<^verbatim>\<open>manager.go\<close>); any other string is a kind the package does not know, the
  empty one included.
\<close>

datatype Kind = KindWorking | KindEpisodic | KindSemantic | KindOther string

definition allKinds :: "Kind list" where
  "allKinds = [KindWorking, KindEpisodic, KindSemantic]"

text \<open>
  A value of type \<^verbatim>\<open>any\<close> in a metadata or attribute map, by its dynamic type.
\<close>

datatype any =
    AString string
  | ABool bool
  | AInt int
  | AInt64 int
  | AFloat float64
  | ATime time
  | AKind Kind
  | AStrMap "(string \<times> string) list"
  | AAnyMap "(string \<times> any) list"
  | AOther nat

type_synonym meta = "string \<rightharpoonup> any"
type_synonym ref = nat

text \<open>
  Errors: the sentinels of the contract, of the package and of \<^verbatim>\<open>os\<close>; errors
  made with \<^verbatim>\<open>errors.New\<close> or without \<^verbatim>\<open>%w\<close> (\<open>ErrText\<close>); errors
  that come from code outside the package (\<open>ErrForeign\<close>); a run-time panic (\<open>ErrPanic\<close>); and wrapped errors, with
  the text before \<^verbatim>\<open>%w\<close> and the kind it names, if any.
\<close>

datatype error =
    ErrNotFound | ErrEmptyQuery | ErrEmbedderRequired | ErrKindDisabled
  | ErrSnapshotVersionMismatch | ErrSnapshotKindMismatch | ErrSnapshotStoreNotConfigured
  | ErrNoTiers | ErrTierDisabled | ErrCapabilityMissing | ErrUnknownKind
  | ErrManagerRequired | ErrScopedManagerRequired | ErrUnifiedManagerRequired
  | ErrParallelManagerRequired | ErrRecallEngineManagerRequired
  | ErrPolicyEnforcingManagerRequired | ErrPolicyRequired
  | ErrRejectedByPolicy | ErrPolicyKindRerouteUnsupported
  | ErrSchemaVersionAhead | ErrSQLiteDSNRequired | ErrNotExist
  | ErrPanic string
  | ErrText string
  | ErrForeign string
  | ErrWrap string error
  | ErrWrapKind string Kind error

text \<open>\<^verbatim>\<open>errors.Unwrap\<close> and \<^verbatim>\<open>errors.Is\<close>: \<open>ErrTierDisabled\<close> wraps \<open>ErrKindDisabled\<close>.\<close>

fun errors_Is :: "error \<Rightarrow> error \<Rightarrow> bool" where
  "errors_Is (ErrWrap t e) target = (ErrWrap t e = target \<or> errors_Is e target)"
| "errors_Is (ErrWrapKind t k e) target = (ErrWrapKind t k e = target \<or> errors_Is e target)"
| "errors_Is ErrTierDisabled target = (target = ErrTierDisabled \<or> target = ErrKindDisabled)"
| "errors_Is e target = (e = target)"

lemma errors_Is_refl [simp]: "errors_Is e e"
  by (cases e) auto


section \<open>Items, results, filters, snapshots\<close>

text \<open>
  An item's \<^verbatim>\<open>Metadata\<close> is a Go map, that is, a reference: \<open>None\<close> is the
  nil map, \<open>Some r\<close> points into the heap of the world below. Copying an item copies
  the reference and shares the map.
\<close>

record MemoryItem =
  ID :: string
  Content :: string
  Tags :: "string list"
  Metadata :: "ref option"
  Importance :: float64
  CreatedAt :: time
  AccessedAt :: time

definition zeroItem :: MemoryItem where
  "zeroItem = \<lparr>ID = '''', Content = '''', Tags = [], Metadata = None, Importance = Fin 0,
     CreatedAt = 0, AccessedAt = 0\<rparr>"

record SearchResult =
  sr_Item :: MemoryItem
  sr_Score :: float64

record Stats =
  st_Count :: nat
  st_Capacity :: int
  st_AvgImportance :: float64
  st_OldestAge :: duration

definition zeroStats :: Stats where
  "zeroStats = \<lparr>st_Count = 0, st_Capacity = 0, st_AvgImportance = Fin 0, st_OldestAge = 0\<rparr>"

record Scope =
  User :: string
  Project :: string
  Session :: string

definition zeroScope :: Scope where
  "zeroScope = \<lparr>User = '''', Project = '''', Session = ''''\<rparr>"

record ListFilter =
  f_IncludeDisabled :: bool
  f_PinnedOnly :: bool
  f_Source :: string
  f_Category :: string
  f_Scope :: Scope
  f_MinImportance :: float64
  f_Tags :: "string list"

definition zeroFilter :: ListFilter where
  "zeroFilter = \<lparr>f_IncludeDisabled = False, f_PinnedOnly = False, f_Source = '''',
     f_Category = '''', f_Scope = zeroScope, f_MinImportance = Fin 0, f_Tags = []\<rparr>"

record ListPage =
  lp_Items :: "MemoryItem list"
  lp_NextCursor :: string

text \<open>
  A slice is \<open>None\<close> when it is nil. Only vectors need the distinction
  (\<^verbatim>\<open>si.Vector != nil\<close> in \<^verbatim>\<open>engine_persistence.go\<close>).
\<close>

type_synonym vector = "float64 list option"

definition slice :: "'a list option \<Rightarrow> 'a list" where
  "slice v = (case v of None \<Rightarrow> [] | Some xs \<Rightarrow> xs)"

lemma slice_simps [simp]: "slice None = []" "slice (Some xs) = xs"
  by (simp_all add: slice_def)

record SnapshotItem =
  si_Item :: MemoryItem
  si_Vector :: vector

record Snapshot =
  sn_Version :: int
  sn_Kind :: Kind
  sn_Items :: "SnapshotItem list"

datatype ImportMode = ImportReplace | ImportMerge | ImportUpsert | ImportOther string

record ImportReport =
  ir_Loaded :: nat
  ir_Replaced :: nat
  ir_Skipped :: nat
  ir_Errors :: "error list"

definition zeroReport :: ImportReport where
  "zeroReport = \<lparr>ir_Loaded = 0, ir_Replaced = 0, ir_Skipped = 0, ir_Errors = []\<rparr>"

datatype ForgetStrategy = ForgetByImportance | ForgetByAge | ForgetByCapacity | ForgetOther string

record ConsolidateOptions =
  co_Threshold :: float64
  co_MinAge :: duration

record ForgetOptions =
  fo_Strategy :: ForgetStrategy
  fo_Threshold :: float64
  fo_MaxAge :: duration
  fo_Keep :: int


section \<open>The environment and the world\<close>

text \<open>
  A context carries the scope installed by \<^verbatim>\<open>WithScope\<close>, if any;
  \<open>ctx_other\<close> stands for the other values and the deadline only foreign code looks at.
\<close>

record ctx =
  ctx_scope :: "Scope option"
  ctx_other :: nat

text \<open>
  The environment's answers may differ from call to call, so the ones that can (the clock,
  the iteration order, the embedder) are functions of a step counter that every
  interaction advances.
\<close>

type_synonym Embedder = "nat \<Rightarrow> ctx \<Rightarrow> string list \<Rightarrow> error + vector list"

type_synonym updater = "MemoryItem \<Rightarrow> meta list \<Rightarrow> MemoryItem \<times> meta list"

record env =
  now_at :: "nat \<Rightarrow> time"
  rank_at :: "nat \<Rightarrow> nat \<Rightarrow> nat"
  unicode_lower :: "string \<Rightarrow> string"
  float_oor :: int
  cursor_Marshal :: "time \<times> string \<Rightarrow> error + string"
  cursor_Unmarshal :: "string \<Rightarrow> error + time \<times> string"
  c_SnapshotVersion :: int
  c_SourceUserSaved :: string
  c_SourceAgentInferred :: string
  c_Scope_IsZero :: "Scope \<Rightarrow> bool"
  c_Scope_Matches :: "Scope \<Rightarrow> Scope \<Rightarrow> bool"
  c_IsPinned :: "meta option \<Rightarrow> bool"
  c_IsDisabled :: "meta option \<Rightarrow> bool"
  c_GetSource :: "meta option \<Rightarrow> string"
  c_GetCategory :: "meta option \<Rightarrow> string"
  c_SetPinned :: "bool \<Rightarrow> updater"
  c_SetDisabled :: "bool \<Rightarrow> updater"
  c_SetSource :: "string \<Rightarrow> updater"
  c_SetCategory :: "string \<Rightarrow> updater"

record Event =
  ev_Name :: string
  ev_Attrs :: "(string \<times> any) list"

text \<open>
  The world: the step counter, the heap of metadata maps (a reference is an index into it)
  and the log of the events delivered to observers. The state of a program that uses the
  package extends this record.
\<close>

record world =
  tick :: nat
  heap :: "meta list"
  events :: "(nat \<times> Event) list"

definition time_Now :: "env \<Rightarrow> 'z world_scheme \<Rightarrow> time \<times> 'z world_scheme" where
  "time_Now E w = (now_at E (tick w), w\<lparr>tick := Suc (tick w)\<rparr>)"

definition go_range :: "env \<Rightarrow> 'a list \<Rightarrow> 'z world_scheme \<Rightarrow> 'a list \<times> 'z world_scheme" where
  "go_range E xs w = (shuffle (rank_at E (tick w)) xs, w\<lparr>tick := Suc (tick w)\<rparr>)"

definition meta_at :: "meta list \<Rightarrow> ref \<Rightarrow> meta" where
  "meta_at h r = (if r < length h then h ! r else Map.empty)"

definition meta_of :: "meta list \<Rightarrow> MemoryItem \<Rightarrow> meta option" where
  "meta_of h it = map_option (meta_at h) (Metadata it)"

text \<open>Storing a key in an item's metadata map; a nil map is allocated first.\<close>

definition meta_put :: "string \<Rightarrow> any \<Rightarrow> MemoryItem \<Rightarrow> meta list \<Rightarrow> MemoryItem \<times> meta list" where
  "meta_put k v it h = (case Metadata it of
       None \<Rightarrow> (it\<lparr>Metadata := Some (length h)\<rparr>, h @ [[k \<mapsto> v]])
     | Some r \<Rightarrow> (it, h[r := (meta_at h r)(k \<mapsto> v)]))"

definition valid_ref :: "meta list \<Rightarrow> MemoryItem \<Rightarrow> bool" where
  "valid_ref h it \<longleftrightarrow> (case Metadata it of None \<Rightarrow> True | Some r \<Rightarrow> r < length h)"

lemma time_Now_world [frame_simps, simp]:
  "heap (snd (time_Now E w)) = heap w" "events (snd (time_Now E w)) = events w"
  by (simp_all add: time_Now_def)

lemma go_range_world [frame_simps, simp]:
  "heap (snd (go_range E xs w)) = heap w" "events (snd (go_range E xs w)) = events w"
  by (simp_all add: go_range_def)

lemma mset_go_range [perm_simps, simp]: "mset (fst (go_range E xs w)) = mset xs"
  by (simp add: go_range_def)

lemma set_go_range [perm_simps, simp]: "set (fst (go_range E xs w)) = set xs"
  by (simp add: go_range_def)

lemma meta_at_append [simp]: "r < length h \<Longrightarrow> meta_at (h @ h') r = meta_at h r"
  by (simp add: meta_at_def nth_append)

lemma meta_at_update [simp]: "r < length h \<Longrightarrow> meta_at (h[r := m]) r' = (if r' = r then m else meta_at h r')"
  by (simp add: meta_at_def)

lemma meta_of_append: "valid_ref h it \<Longrightarrow> meta_of (h @ h') it = meta_of h it"
  by (auto simp: meta_of_def valid_ref_def split: option.splits)

text \<open>What \<^term>\<open>meta_put\<close> does to the item it is given, and to every other item.\<close>

lemma meta_put_self:
  assumes "valid_ref h it" and "meta_put k v it h = (it', h')"
  shows "meta_of h' it' =
    Some ((case meta_of h it of None \<Rightarrow> Map.empty | Some m \<Rightarrow> m)(k \<mapsto> v))"
proof (cases "Metadata it")
  case None
  then have "it' = it\<lparr>Metadata := Some (length h)\<rparr>" and "h' = h @ [[k \<mapsto> v]]"
    using assms(2) by (simp_all add: meta_put_def)
  then show ?thesis using None by (simp add: meta_of_def meta_at_def)
next
  case (Some r)
  then have "it' = it" and "h' = h[r := (meta_at h r)(k \<mapsto> v)]" and "r < length h"
    using assms by (simp_all add: meta_put_def valid_ref_def)
  then show ?thesis using Some by (simp add: meta_of_def)
qed

lemma meta_put_other:
  assumes "valid_ref h jt" and "meta_put k v it h = (it', h')"
    and "Metadata jt = None \<or> Metadata jt \<noteq> Metadata it"
  shows "meta_of h' jt = meta_of h jt"
  using assms
  by (auto simp: meta_put_def meta_of_def valid_ref_def meta_at_def nth_append nth_list_update
      split: option.splits)

lemma meta_put_valid: "valid_ref h jt \<Longrightarrow> meta_put k v it h = (it', h') \<Longrightarrow> valid_ref h' jt"
  by (auto simp: meta_put_def valid_ref_def split: option.splits)


section \<open>Calls into the contract module\<close>

text \<open>
  \<^verbatim>\<open>memory_item_helpers.go\<close> forwards the metadata helpers to the contract. They
  are functions of the item's metadata map.
\<close>

definition IsPinned :: "env \<Rightarrow> meta list \<Rightarrow> MemoryItem \<Rightarrow> bool" where
  "IsPinned E h it = c_IsPinned E (meta_of h it)"

definition IsDisabled :: "env \<Rightarrow> meta list \<Rightarrow> MemoryItem \<Rightarrow> bool" where
  "IsDisabled E h it = c_IsDisabled E (meta_of h it)"

definition GetSource :: "env \<Rightarrow> meta list \<Rightarrow> MemoryItem \<Rightarrow> string" where
  "GetSource E h it = c_GetSource E (meta_of h it)"

definition GetCategory :: "env \<Rightarrow> meta list \<Rightarrow> MemoryItem \<Rightarrow> string" where
  "GetCategory E h it = c_GetCategory E (meta_of h it)"

definition ToLower :: "env \<Rightarrow> string \<Rightarrow> string" where
  "ToLower E s = strings_ToLower (unicode_lower E) s"

end
