(* ===== verification/ItemHelpers.thy ===== *)
theory ItemHelpers
  imports Contract
begin

text \<open>
  \<^verbatim>\<open>memory_item_helpers.go\<close> (the two item constructors), \<^verbatim>\<open>scope_local.go\<close>
  (the scope of a context and the stamp of a scope on an item) and the reading of a stamp
  (\<^verbatim>\<open>readScope\<close>, \<^verbatim>\<open>stringOr\<close> of \<^verbatim>\<open>engine_list.go\<close>).
\<close>


section \<open>Constructors of items\<close>

definition SetPinned :: "env \<Rightarrow> bool \<Rightarrow> updater" where
  "SetPinned E b = c_SetPinned E b"

definition SetDisabled :: "env \<Rightarrow> bool \<Rightarrow> updater" where
  "SetDisabled E b = c_SetDisabled E b"

definition SetSource :: "env \<Rightarrow> string \<Rightarrow> updater" where
  "SetSource E src = c_SetSource E src"

definition SetCategory :: "env \<Rightarrow> string \<Rightarrow> updater" where
  "SetCategory E cat = c_SetCategory E cat"

definition NewSavedMemory :: "env \<Rightarrow> string \<Rightarrow> string \<Rightarrow> meta list \<Rightarrow> MemoryItem \<times> meta list" where
  "NewSavedMemory E content cat h =
     (let it = zeroItem\<lparr>Content := content, Importance := Fin 1\<rparr>;
          (it, h) = SetPinned E True it h;
          (it, h) = SetSource E (c_SourceUserSaved E) it h
      in SetCategory E cat it h)"

text \<open>The clamp to the unit interval: two comparisons, so NaN passes through unchanged.\<close>

definition clampUnit :: "float64 \<Rightarrow> float64" where
  "clampUnit x = (let x = (if f_lt x (Fin 0) then Fin 0 else x)
                  in if f_gt x (Fin 1) then Fin 1 else x)"

definition NewInferredMemory ::
    "env \<Rightarrow> string \<Rightarrow> string \<Rightarrow> float64 \<Rightarrow> meta list \<Rightarrow> MemoryItem \<times> meta list" where
  "NewInferredMemory E content cat confidence h =
     (let confidence = clampUnit confidence;
          it = zeroItem\<lparr>Content := content, Importance := confidence\<rparr>;
          (it, h) = SetPinned E False it h;
          (it, h) = SetSource E (c_SourceAgentInferred E) it h
      in SetCategory E cat it h)"

definition in_unit :: "float64 \<Rightarrow> bool" where
  "in_unit x \<longleftrightarrow> (case x of Fin a \<Rightarrow> 0 \<le> a \<and> a \<le> 1 | _ \<Rightarrow> False)"

lemma clampUnit_in_unit: "x \<noteq> NaN \<Longrightarrow> in_unit (clampUnit x)"
  by (cases x) (auto simp: clampUnit_def in_unit_def)

lemma clampUnit_NaN [simp]: "clampUnit NaN = NaN"
  by (simp add: clampUnit_def)

lemma clampUnit_id: "in_unit x \<Longrightarrow> clampUnit x = x"
  by (cases x) (auto simp: clampUnit_def in_unit_def)

lemma clampUnit_idem [simp]: "clampUnit (clampUnit x) = clampUnit x"
  by (cases "x = NaN") (simp_all add: clampUnit_id clampUnit_in_unit)


section \<open>The scope of a context\<close>

definition WithScope :: "ctx \<Rightarrow> Scope \<Rightarrow> ctx" where
  "WithScope c s = c\<lparr>ctx_scope := Some s\<rparr>"

definition ScopeFrom :: "ctx \<Rightarrow> Scope" where
  "ScopeFrom c = (case ctx_scope c of Some s \<Rightarrow> s | None \<Rightarrow> zeroScope)"

definition metaKeyScope :: string where "metaKeyScope = ''_scope''"

definition scopeValue :: "Scope \<Rightarrow> any" where
  "scopeValue s = AStrMap [(''user'', User s), (''project'', Project s), (''session'', Session s)]"

definition stampScope :: "env \<Rightarrow> Scope \<Rightarrow> updater" where
  "stampScope E s it h =
     (if c_Scope_IsZero E s then (it, h) else meta_put metaKeyScope (scopeValue s) it h)"

definition stringOr :: "any option \<Rightarrow> string" where
  "stringOr v = (case v of Some (AString s) \<Rightarrow> s | _ \<Rightarrow> '''')"

definition strAt :: "(string \<times> string) list \<Rightarrow> string \<Rightarrow> string" where
  "strAt m k = (case map_of m k of Some s \<Rightarrow> s | None \<Rightarrow> '''')"

definition readScope :: "meta list \<Rightarrow> MemoryItem \<Rightarrow> Scope" where
  "readScope h it = (case meta_of h it of
       None \<Rightarrow> zeroScope
     | Some m \<Rightarrow> (case m metaKeyScope of
         None \<Rightarrow> zeroScope
       | Some (AStrMap sm) \<Rightarrow>
           \<lparr>User = strAt sm ''user'', Project = strAt sm ''project'', Session = strAt sm ''session''\<rparr>
       | Some (AAnyMap am) \<Rightarrow>
           \<lparr>User = stringOr (map_of am ''user''), Project = stringOr (map_of am ''project''),
            Session = stringOr (map_of am ''session'')\<rparr>
       | Some _ \<Rightarrow> zeroScope))"

lemma ScopeFrom_WithScope [simp]: "ScopeFrom (WithScope c s) = s"
  by (simp add: ScopeFrom_def WithScope_def)

lemma readScope_cong: "meta_of h it = meta_of h' it' \<Longrightarrow> readScope h it = readScope h' it'"
  by (simp add: readScope_def)

lemma IsPinned_cong: "meta_of h it = meta_of h' it' \<Longrightarrow> IsPinned E h it = IsPinned E h' it'"
  by (simp add: IsPinned_def)

lemma IsDisabled_cong: "meta_of h it = meta_of h' it' \<Longrightarrow> IsDisabled E h it = IsDisabled E h' it'"
  by (simp add: IsDisabled_def)

lemma readScope_meta_put:
  assumes "valid_ref h it" and "meta_put metaKeyScope (scopeValue s) it h = (it', h')"
  shows "readScope h' it' = s"
  by (simp add: readScope_def meta_put_self [OF assms] scopeValue_def strAt_def)

text \<open>
  A stamp writes into the item's own metadata map. When another item holds the same map,
  its scope changes with it; when it does not, its scope is untouched.
\<close>

lemma stampScope_self:
  assumes "valid_ref h it" and "\<not> c_Scope_IsZero E s" and "stampScope E s it h = (it', h')"
  shows "readScope h' it' = s"
  using assms readScope_meta_put by (auto simp: stampScope_def)

lemma stampScope_other:
  assumes "valid_ref h jt" and "stampScope E s it h = (it', h')"
    and "Metadata jt = None \<or> Metadata jt \<noteq> Metadata it"
  shows "meta_of h' jt = meta_of h jt"
  using assms meta_put_other by (auto simp: stampScope_def split: if_splits)

lemma stampScope_fields [simp]:
  "ID (fst (stampScope E s it h)) = ID it" "Content (fst (stampScope E s it h)) = Content it"
  by (auto simp: stampScope_def meta_put_def split: option.splits)

end
