(* ===== verification/Sample.thy ===== *)
theory Sample
  imports ItemHelpers
begin

text \<open>
  A concrete environment, on which the statements of the development are evaluated: a clock
  that advances by one nanosecond per step, maps ranged over in their stored order, a small
  cursor codec, and the scope and metadata rules the contract documents (an empty field of
  a scope is a wildcard, flags live under reserved metadata keys).
\<close>

definition sample_Marshal :: "time \<times> string \<Rightarrow> error + string" where
  "sample_Marshal cur =
     (if fst cur < 0 then Inl (ErrForeign ''json'')
      else Inr (replicate (nat (fst cur)) CHR ''a'' @ CHR ''b'' # snd cur))"

definition sample_Unmarshal :: "string \<Rightarrow> error + time \<times> string" where
  "sample_Unmarshal s =
     (let n = length (takeWhile (\<lambda>c. c = CHR ''a'') s)
      in case drop n s of
           [] \<Rightarrow> Inl (ErrForeign ''json'')
         | c # rest \<Rightarrow> if c = CHR ''b'' then Inr (int n, rest) else Inl (ErrForeign ''json''))"

definition sample_flag :: "string \<Rightarrow> meta option \<Rightarrow> bool" where
  "sample_flag k m = (case m of None \<Rightarrow> False | Some m \<Rightarrow> m k = Some (ABool True))"

definition sample_text :: "string \<Rightarrow> meta option \<Rightarrow> string" where
  "sample_text k m = (case m of None \<Rightarrow> '''' | Some m \<Rightarrow> stringOr (m k))"

definition sample_field :: "string \<Rightarrow> string \<Rightarrow> bool" where
  "sample_field want have \<longleftrightarrow> want = '''' \<or> want = have"

definition sampleEnv :: env where
  "sampleEnv = \<lparr>
     now_at = (\<lambda>n. int n + 1),
     rank_at = (\<lambda>_ i. i),
     unicode_lower = (\<lambda>s. s),
     float_oor = - (2 ^ 63),
     cursor_Marshal = sample_Marshal,
     cursor_Unmarshal = sample_Unmarshal,
     c_SnapshotVersion = 1,
     c_SourceUserSaved = ''user_saved'',
     c_SourceAgentInferred = ''agent_inferred'',
     c_Scope_IsZero = (\<lambda>s. s = zeroScope),
     c_Scope_Matches = (\<lambda>s t. sample_field (User s) (User t) \<and> sample_field (Project s) (Project t)
        \<and> sample_field (Session s) (Session t)),
     c_IsPinned = sample_flag ''_pinned'',
     c_IsDisabled = sample_flag ''_disabled'',
     c_GetSource = sample_text ''_source'',
     c_GetCategory = sample_text ''_category'',
     c_SetPinned = (\<lambda>b. meta_put ''_pinned'' (ABool b)),
     c_SetDisabled = (\<lambda>b. meta_put ''_disabled'' (ABool b)),
     c_SetSource = (\<lambda>s. meta_put ''_source'' (AString s)),
     c_SetCategory = (\<lambda>s. meta_put ''_category'' (AString s))\<rparr>"

lemma sampleEnv_simps [simp]:
  "now_at sampleEnv n = int n + 1" "rank_at sampleEnv n i = i" "unicode_lower sampleEnv s = s"
  "cursor_Marshal sampleEnv = sample_Marshal" "cursor_Unmarshal sampleEnv = sample_Unmarshal"
  "c_SnapshotVersion sampleEnv = 1"
  "c_Scope_IsZero sampleEnv sc = (sc = zeroScope)"
  "c_Scope_Matches sampleEnv sc sc' = (sample_field (User sc) (User sc')
     \<and> sample_field (Project sc) (Project sc') \<and> sample_field (Session sc) (Session sc'))"
  "c_IsPinned sampleEnv = sample_flag ''_pinned''" "c_IsDisabled sampleEnv = sample_flag ''_disabled''"
  "c_GetSource sampleEnv = sample_text ''_source''" "c_GetCategory sampleEnv = sample_text ''_category''"
  by (simp_all add: sampleEnv_def)

lemma shuffle_sample [simp]: "shuffle (rank_at sampleEnv n) [] = []"
  by simp

text \<open>Embedders: one that measures the text, and one that is out of order.\<close>

definition sampleEmbedder :: Embedder where
  "sampleEmbedder n c texts = Inr (map (\<lambda>t. Some [f_of_nat (length t), Fin 1]) texts)"

definition brokenEmbedder :: Embedder where
  "brokenEmbedder n c texts = Inl (ErrForeign ''unavailable'')"

definition sampleCtx :: ctx where
  "sampleCtx = \<lparr>ctx_scope = None, ctx_other = 0\<rparr>"

definition sampleWorld :: world where
  "sampleWorld = \<lparr>tick = 0, heap = [], events = []\<rparr>"

definition sampleItem :: "string \<Rightarrow> string \<Rightarrow> MemoryItem" where
  "sampleItem i content = zeroItem\<lparr>ID := i, Content := content, Importance := Fin (1/2)\<rparr>"

lemma sampleItem_simps [simp]:
  "ID (sampleItem i t) = i" "Content (sampleItem i t) = t" "Tags (sampleItem i t) = []"
  "Metadata (sampleItem i t) = None" "Importance (sampleItem i t) = Fin (1/2)"
  "CreatedAt (sampleItem i t) = 0" "AccessedAt (sampleItem i t) = 0"
  by (simp_all add: sampleItem_def zeroItem_def)

lemma sampleWorld_simps [simp]:
  "tick sampleWorld = 0" "heap sampleWorld = []" "events sampleWorld = []"
  by (simp_all add: sampleWorld_def)

lemma sample_codec: "0 \<le> t \<Longrightarrow> \<exists>b. sample_Marshal (t, i) = Inr b \<and> b \<noteq> [] \<and> sample_Unmarshal b = Inr (t, i)"
proof -
  assume t: "0 \<le> t"
  have "takeWhile (\<lambda>c. c = CHR ''a'') (replicate n CHR ''a'' @ CHR ''b'' # i) = replicate n CHR ''a''" for n
    by (induction n) simp_all
  then show ?thesis using t by (simp add: sample_Marshal_def sample_Unmarshal_def Let_def)
qed

end
