(* ===== verification/ScoredStore.thy ===== *)
theory ScoredStore
  imports Sample
begin

text \<open>
  \<^verbatim>\<open>engine_scored_store.go\<close>: the store behind the three engines. Its mutex
  makes each locked section atomic; \<^verbatim>\<open>get\<close> and \<^verbatim>\<open>update\<close> have two such
  sections, which are definitions of their own, so that their interleavings can be studied
  too. The heap of metadata maps and the clock are part of the world \<open>w\<close>.
\<close>


section \<open>State\<close>

record scoredStore =
  items :: "(string, MemoryItem) gomap"
  vectors :: "(string, vector) gomap"
  embedder :: Embedder
  prefix :: string
  seq :: int

definition newScoredStore :: "string \<Rightarrow> Embedder \<Rightarrow> scoredStore" where
  "newScoredStore p e = \<lparr>items = [], vectors = [], embedder = e, prefix = p, seq = 0\<rparr>"


section \<open>Operations\<close>

text \<open>The embedding of one text: nil when the embedder returns no vector.\<close>

definition queryEmbedding ::
    "Embedder \<Rightarrow> ctx \<Rightarrow> string \<Rightarrow> 'z world_scheme \<Rightarrow> (error + vector) \<times> 'z world_scheme" where
  "queryEmbedding e c query w =
     ((case e (tick w) c [query] of
         Inl err \<Rightarrow> Inl err
       | Inr [] \<Rightarrow> Inr None
       | Inr (v # _) \<Rightarrow> Inr v), w\<lparr>tick := Suc (tick w)\<rparr>)"

definition generatedID :: "string \<Rightarrow> int \<Rightarrow> int \<Rightarrow> string" where
  "generatedID p nano n = p @ ''_'' @ showInt nano @ ''_'' @ showInt n"

definition assignID :: "env \<Rightarrow> MemoryItem \<Rightarrow> 'z world_scheme \<Rightarrow> scoredStore
    \<Rightarrow> MemoryItem \<times> 'z world_scheme \<times> scoredStore" where
  "assignID E item w s =
     (if ID item = '''' then
        let n = wrap64 (seq s + 1); (t, w) = time_Now E w
        in (item\<lparr>ID := generatedID (prefix s) (time_UnixNano t) n\<rparr>, w, s\<lparr>seq := n\<rparr>)
      else (item, w, s))"

definition stampAdded :: "time \<Rightarrow> MemoryItem \<Rightarrow> MemoryItem" where
  "stampAdded now item =
     (let item = (if time_IsZero (CreatedAt item) then item\<lparr>CreatedAt := now\<rparr> else item);
          item = item\<lparr>AccessedAt := now\<rparr>
      in item\<lparr>Importance := clampUnit (Importance item)\<rparr>)"

definition store_add :: "env \<Rightarrow> ctx \<Rightarrow> MemoryItem \<Rightarrow> 'z world_scheme \<Rightarrow> scoredStore
    \<Rightarrow> (error + string) \<times> 'z world_scheme \<times> scoredStore" where
  "store_add E c item w s =
     (let (item, w, s) = assignID E item w s;
          (now, w) = time_Now E w;
          item = stampAdded now item;
          (r, w) = queryEmbedding (embedder s) c (Content item) w
      in case r of
           Inl err \<Rightarrow> (Inl (ErrWrap ''memory: embed'' err), w, s)
         | Inr vec \<Rightarrow> (Inr (ID item), w,
             s\<lparr>items := mput (ID item) item (items s), vectors := mput (ID item) vec (vectors s)\<rparr>))"

text \<open>The read-locked section of \<^verbatim>\<open>get\<close>, then the write-locked one that touches the item.\<close>

definition get_read :: "string \<Rightarrow> scoredStore \<Rightarrow> MemoryItem option" where
  "get_read i s = mget (items s) i"

definition get_touch :: "env \<Rightarrow> string \<Rightarrow> MemoryItem \<Rightarrow> 'z world_scheme \<Rightarrow> scoredStore
    \<Rightarrow> MemoryItem \<times> 'z world_scheme \<times> scoredStore" where
  "get_touch E i item w s = (case mget (items s) i of
       Some current \<Rightarrow>
         let (t, w) = time_Now E w; current = current\<lparr>AccessedAt := t\<rparr>
         in (current, w, s\<lparr>items := mput i current (items s)\<rparr>)
     | None \<Rightarrow> (item, w, s))"

definition store_get :: "env \<Rightarrow> string \<Rightarrow> 'z world_scheme \<Rightarrow> scoredStore
    \<Rightarrow> (error + MemoryItem) \<times> 'z world_scheme \<times> scoredStore" where
  "store_get E i w s = (case get_read i s of
       None \<Rightarrow> (Inl ErrNotFound, w, s)
     | Some item \<Rightarrow> (let (item, w, s) = get_touch E i item w s in (Inr item, w, s)))"

text \<open>
  The first section of \<^verbatim>\<open>update\<close> runs the caller's function on a copy of the item
  and writes it back; it yields the new content when that changed. The second section
  stores the new vector.
\<close>

definition update_item :: "env \<Rightarrow> string \<Rightarrow> updater \<Rightarrow> 'z world_scheme \<Rightarrow> scoredStore
    \<Rightarrow> (error + string option) \<times> 'z world_scheme \<times> scoredStore" where
  "update_item E i fn w s = (case mget (items s) i of
       None \<Rightarrow> (Inl ErrNotFound, w, s)
     | Some item0 \<Rightarrow>
         let (item, h) = fn item0 (heap w);
             (t, w) = time_Now E (w\<lparr>heap := h\<rparr>);
             item = item\<lparr>AccessedAt := t\<rparr>;
             item = item\<lparr>Importance := clampUnit (Importance item)\<rparr>
         in (Inr (if Content item \<noteq> Content item0 then Some (Content item) else None), w,
             s\<lparr>items := mput i item (items s)\<rparr>))"

definition update_vector :: "string \<Rightarrow> vector \<Rightarrow> scoredStore \<Rightarrow> scoredStore" where
  "update_vector i vec s = s\<lparr>vectors := mput i vec (vectors s)\<rparr>"

definition store_update :: "env \<Rightarrow> ctx \<Rightarrow> string \<Rightarrow> updater \<Rightarrow> 'z world_scheme \<Rightarrow> scoredStore
    \<Rightarrow> (error + unit) \<times> 'z world_scheme \<times> scoredStore" where
  "store_update E c i fn w s = (case update_item E i fn w s of
       (Inl err, w, s) \<Rightarrow> (Inl err, w, s)
     | (Inr None, w, s) \<Rightarrow> (Inr (), w, s)
     | (Inr (Some content), w, s) \<Rightarrow>
         (case queryEmbedding (embedder s) c content w of
            (Inl err, w) \<Rightarrow> (Inl (ErrWrap ''memory: re-embed'' err), w, s)
          | (Inr vec, w) \<Rightarrow> (Inr (), w, update_vector i vec s)))"

definition store_remove :: "string \<Rightarrow> scoredStore \<Rightarrow> (error + unit) \<times> scoredStore" where
  "store_remove i s = (case mget (items s) i of
       None \<Rightarrow> (Inl ErrNotFound, s)
     | Some _ \<Rightarrow> (Inr (), s\<lparr>items := mdel i (items s), vectors := mdel i (vectors s)\<rparr>))"

text \<open>Copying a vector allocates a slice, so a nil vector of the store is empty in the copy.\<close>

definition copyVector :: "vector \<Rightarrow> vector" where
  "copyVector v = Some (slice v)"

definition snapshot :: "scoredStore \<Rightarrow> (string, MemoryItem) gomap \<times> (string, vector) gomap" where
  "snapshot s = (items s, map (\<lambda>(k, v). (k, copyVector v)) (vectors s))"

text \<open>Indexing a map of slices: a missing key is the nil slice.\<close>

definition vectorAt :: "(string, vector) gomap \<Rightarrow> string \<Rightarrow> vector" where
  "vectorAt vs i = (case mget vs i of Some v \<Rightarrow> v | None \<Rightarrow> None)"

fun stats_loop :: "MemoryItem list \<Rightarrow> float64 \<Rightarrow> time \<Rightarrow> float64 \<times> time" where
  "stats_loop [] impSum oldest = (impSum, oldest)"
| "stats_loop (it # its) impSum oldest =
     stats_loop its (f_add impSum (Importance it))
       (if CreatedAt it < oldest then CreatedAt it else oldest)"

definition store_stats :: "env \<Rightarrow> int \<Rightarrow> 'z world_scheme \<Rightarrow> scoredStore \<Rightarrow> Stats \<times> 'z world_scheme" where
  "store_stats E capacity w s =
     (let out = zeroStats\<lparr>st_Count := length (items s), st_Capacity := capacity\<rparr>
      in if length (items s) = 0 then (out, w)
         else
           let (oldest, w) = time_Now E w;
               (its, w) = go_range E (items s) w;
               (impSum, oldest) = stats_loop (map snd its) (Fin 0) oldest;
               (now, w) = time_Now E w
           in (out\<lparr>st_AvgImportance := f_div impSum (f_of_nat (length (items s))),
                   st_OldestAge := time_Sub now oldest\<rparr>, w))"


section \<open>Invariant\<close>

text \<open>
  Both maps have distinct keys, every item is stored under its own identifier, which is not
  empty, and every vector belongs to an item.
\<close>

definition store_wf :: "scoredStore \<Rightarrow> bool" where
  "store_wf s \<longleftrightarrow> mwf (items s) \<and> mwf (vectors s)
     \<and> (\<forall>(k, it) \<in> set (items s). ID it = k \<and> k \<noteq> '''')
     \<and> mkeys (vectors s) \<subseteq> mkeys (items s)"

lemma store_wfI:
  "mwf (items s) \<Longrightarrow> mwf (vectors s) \<Longrightarrow> (\<And>k it. mget (items s) k = Some it \<Longrightarrow> ID it = k \<and> k \<noteq> '''')
    \<Longrightarrow> mkeys (vectors s) \<subseteq> mkeys (items s) \<Longrightarrow> store_wf s"
  unfolding store_wf_def by (auto dest: in_mget_Some)

lemma store_wfD:
  assumes "store_wf s"
  shows "mwf (items s)" "mwf (vectors s)" "mkeys (vectors s) \<subseteq> mkeys (items s)"
    "\<And>k it. mget (items s) k = Some it \<Longrightarrow> ID it = k \<and> k \<noteq> ''''"
  using assms unfolding store_wf_def by (auto dest: map_of_SomeD)

lemma store_wf_new: "store_wf (newScoredStore p e)"
  by (simp add: store_wf_def newScoredStore_def)

lemma store_wf_put:
  assumes "store_wf s" and "ID it = i" and "i \<noteq> ''''"
  shows "store_wf (s\<lparr>items := mput i it (items s), vectors := mput i v (vectors s)\<rparr>)"
  using store_wfD [OF assms(1)] assms(2,3) by (intro store_wfI) (auto split: if_splits)

lemma store_wf_put_item:
  assumes "store_wf s" and "ID it = i" and "i \<noteq> ''''"
  shows "store_wf (s\<lparr>items := mput i it (items s)\<rparr>)"
  using store_wfD [OF assms(1)] assms(2,3) by (intro store_wfI) (auto split: if_splits)

lemma store_wf_seq [simp]: "store_wf (s\<lparr>seq := n\<rparr>) = store_wf s"
  by (simp add: store_wf_def)

lemma distinct_IDs:
  assumes "store_wf s"
  shows "distinct (map (ID \<circ> snd) (items s))"
proof -
  have "map (ID \<circ> snd) (items s) = map fst (items s)"
    using assms by (auto simp: store_wf_def)
  moreover have "distinct (map fst (items s))" using assms by (simp add: store_wf_def mwf_def)
  ultimately show ?thesis by metis
qed

lemma generatedID_not_Nil [simp]: "generatedID p nano n \<noteq> ''''"
  by (simp add: generatedID_def)

lemma generatedID_inj: "generatedID p nano n = generatedID p' nano' n' \<Longrightarrow> n = n'"
proof -
  assume "generatedID p nano n = generatedID p' nano' n'"
  then have "(p @ ''_'' @ showInt nano) @ CHR ''_'' # showInt n
      = (p' @ ''_'' @ showInt nano') @ CHR ''_'' # showInt n'"
    by (simp add: generatedID_def)
  then have "showInt n = showInt n'"
    by (rule last_underscore_eq) (rule showInt_no_underscore)+
  then show ?thesis by (rule showInt_inj)
qed


section \<open>Behaviour of the operations\<close>

lemma queryEmbedding_world [frame_simps, simp]:
  "heap (snd (queryEmbedding e c q w)) = heap w" "events (snd (queryEmbedding e c q w)) = events w"
  by (simp_all add: queryEmbedding_def)

lemma stampAdded_fields [simp]:
  "ID (stampAdded now it) = ID it" "Content (stampAdded now it) = Content it"
  "Tags (stampAdded now it) = Tags it" "Metadata (stampAdded now it) = Metadata it"
  "AccessedAt (stampAdded now it) = now"
  "Importance (stampAdded now it) = clampUnit (Importance it)"
  "CreatedAt (stampAdded now it) = (if CreatedAt it = 0 then now else CreatedAt it)"
  by (simp_all add: stampAdded_def Let_def time_IsZero_def)

text \<open>The item \<^term>\<open>store_add\<close> stores and the identifier it returns, in one equation.\<close>

definition addedID :: "env \<Rightarrow> MemoryItem \<Rightarrow> 'z world_scheme \<Rightarrow> scoredStore \<Rightarrow> string" where
  "addedID E item w s = ID (fst (assignID E item w s))"

lemma assignID_cases:
  "assignID E item w s =
     (if ID item = '''' then
        (item\<lparr>ID := addedID E item w s\<rparr>, w\<lparr>tick := Suc (tick w)\<rparr>, s\<lparr>seq := wrap64 (seq s + 1)\<rparr>)
      else (item, w, s))"
  by (simp add: assignID_def addedID_def time_Now_def Let_def)

lemma addedID_not_Nil [simp]: "addedID E item w s \<noteq> ''''"
  by (simp add: addedID_def assignID_def Let_def split_beta)

lemma addedID_given: "ID item \<noteq> '''' \<Longrightarrow> addedID E item w s = ID item"
  by (simp add: addedID_def assignID_def)

lemma addedID_generated:
  "ID item = '''' \<Longrightarrow> addedID E item w s =
     generatedID (prefix s) (time_UnixNano (now_at E (tick w))) (wrap64 (seq s + 1))"
  by (simp add: addedID_def assignID_def time_Now_def Let_def)

text \<open>Success and failure of \<^term>\<open>store_add\<close>.\<close>

lemma store_add_Inr:
  assumes "store_add E c item w s = (Inr i, w', s')"
  shows "\<exists>now vec.
      i = addedID E item w s \<and> i \<noteq> ''''
      \<and> items s' = mput i ((stampAdded now item)\<lparr>ID := i\<rparr>) (items s)
      \<and> vectors s' = mput i vec (vectors s)
      \<and> embedder s' = embedder s \<and> prefix s' = prefix s
      \<and> seq s' = (if ID item = '''' then wrap64 (seq s + 1) else seq s)
      \<and> heap w' = heap w \<and> events w' = events w"
proof (cases "ID item = ''''")
  case True
  have upd: "stampAdded n (item\<lparr>ID := j\<rparr>) = (stampAdded n item)\<lparr>ID := j\<rparr>" for n j
    by (simp add: stampAdded_def Let_def)
  show ?thesis using assms True
    by (auto simp: store_add_def assignID_cases time_Now_def queryEmbedding_def upd Let_def
        split: sum.splits list.splits)
next
  case False
  have upd: "(stampAdded n item)\<lparr>ID := ID item\<rparr> = stampAdded n item" for n
    by simp
  show ?thesis using assms False
    by (auto simp: store_add_def assignID_cases time_Now_def queryEmbedding_def upd addedID_given
        Let_def split: sum.splits list.splits)
qed

lemma store_add_Inl:
  assumes "store_add E c item w s = (Inl err, w', s')"
  shows "items s' = items s \<and> vectors s' = vectors s \<and> embedder s' = embedder s
    \<and> prefix s' = prefix s \<and> heap w' = heap w \<and> events w' = events w
    \<and> (\<exists>e. err = ErrWrap ''memory: embed'' e)"
  using assms
  by (auto simp: store_add_def assignID_cases time_Now_def queryEmbedding_def Let_def
      split: sum.splits list.splits if_splits)

lemma store_add_wf:
  assumes "store_wf s" and "store_add E c item w s = (r, w', s')"
  shows "store_wf s'"
proof (cases r)
  case (Inl e)
  then show ?thesis using store_add_Inl [of E c item w s e w' s'] assms by (simp add: store_wf_def)
next
  case (Inr i)
  then obtain now vec where *: "i \<noteq> ''''"
      "items s' = mput i ((stampAdded now item)\<lparr>ID := i\<rparr>) (items s)"
      "vectors s' = mput i vec (vectors s)"
    using store_add_Inr [of E c item w s i w' s'] assms(2) by auto
  have "store_wf (s\<lparr>items := items s', vectors := vectors s'\<rparr>)"
    using assms(1) * store_wf_put [of s "(stampAdded now item)\<lparr>ID := i\<rparr>" i vec] by simp
  then show ?thesis by (simp add: store_wf_def)
qed

text \<open>\<^term>\<open>store_get\<close> touches the access time of a stored item and nothing else.\<close>

lemma store_get_miss: "mget (items s) i = None \<Longrightarrow> store_get E i w s = (Inl ErrNotFound, w, s)"
  by (simp add: store_get_def get_read_def)

lemma store_get_hit:
  assumes "mget (items s) i = Some it"
  shows "store_get E i w s =
    (Inr (it\<lparr>AccessedAt := now_at E (tick w)\<rparr>), w\<lparr>tick := Suc (tick w)\<rparr>,
     s\<lparr>items := mput i (it\<lparr>AccessedAt := now_at E (tick w)\<rparr>) (items s)\<rparr>)"
  using assms by (simp add: store_get_def get_read_def get_touch_def time_Now_def Let_def)

lemma store_get_wf:
  assumes "store_wf s" and "store_get E i w s = (r, w', s')"
  shows "store_wf s'"
proof (cases "mget (items s) i")
  case None
  then show ?thesis using assms by (simp add: store_get_miss)
next
  case (Some it)
  then have "ID it = i \<and> i \<noteq> ''''" using store_wfD(4) [OF assms(1)] by simp
  then show ?thesis using assms Some by (auto simp: store_get_hit intro: store_wf_put_item)
qed

text \<open>The caller's function may not change the identifier, or the item is no longer stored under it.\<close>

definition keepsID :: "updater \<Rightarrow> bool" where
  "keepsID fn \<longleftrightarrow> (\<forall>it h. ID (fst (fn it h)) = ID it)"

definition updatedItem :: "env \<Rightarrow> updater \<Rightarrow> MemoryItem \<Rightarrow> 'z world_scheme \<Rightarrow> MemoryItem" where
  "updatedItem E fn it w = (let it' = fst (fn it (heap w)) in
     it'\<lparr>AccessedAt := now_at E (tick w), Importance := clampUnit (Importance it')\<rparr>)"

lemma update_item_hit:
  assumes "mget (items s) i = Some it"
  shows "update_item E i fn w s =
    (Inr (if Content (updatedItem E fn it w) \<noteq> Content it then Some (Content (updatedItem E fn it w))
          else None),
     w\<lparr>heap := snd (fn it (heap w)), tick := Suc (tick w)\<rparr>,
     s\<lparr>items := mput i (updatedItem E fn it w) (items s)\<rparr>)"
  using assms by (simp add: update_item_def updatedItem_def time_Now_def Let_def split_beta)

lemma store_update_miss:
  "mget (items s) i = None \<Longrightarrow> store_update E c i fn w s = (Inl ErrNotFound, w, s)"
  by (simp add: store_update_def update_item_def)

lemma store_update_hit:
  assumes "mget (items s) i = Some it" and "store_update E c i fn w s = (r, w', s')"
  shows "items s' = mput i (updatedItem E fn it w) (items s)
    \<and> heap w' = snd (fn it (heap w)) \<and> events w' = events w
    \<and> embedder s' = embedder s \<and> prefix s' = prefix s \<and> seq s' = seq s
    \<and> (vectors s' = vectors s \<or> (\<exists>vec. r = Inr () \<and> vectors s' = mput i vec (vectors s)))
    \<and> (Content (updatedItem E fn it w) = Content it \<longrightarrow> r = Inr () \<and> vectors s' = vectors s)"
  using assms
  by (auto simp: store_update_def update_item_hit queryEmbedding_def update_vector_def
      split: sum.splits list.splits if_splits)

lemma store_update_wf:
  assumes "store_wf s" and "keepsID fn" and "store_update E c i fn w s = (r, w', s')"
  shows "store_wf s'"
proof (cases "mget (items s) i")
  case None
  then show ?thesis using assms by (simp add: store_update_miss)
next
  case (Some it)
  have idit: "ID it = i" "i \<noteq> ''''" using store_wfD(4) [OF assms(1)] Some by auto
  then have new: "ID (updatedItem E fn it w) = i"
    using assms(2) by (simp add: updatedItem_def keepsID_def Let_def)
  note * = store_update_hit [OF Some assms(3)]
  show ?thesis
  proof (rule store_wfI)
    show "mwf (items s')" "mwf (vectors s')" using * store_wfD(1,2) [OF assms(1)] by auto
    have ks: "mkeys (items s') = insert i (mkeys (items s))" using * by simp
    have vs: "mkeys (vectors s') = mkeys (vectors s) \<or> mkeys (vectors s') = insert i (mkeys (vectors s))"
      using * by (metis mkeys_mput)
    have sub: "V = A \<or> V = insert i A \<Longrightarrow> A \<subseteq> B \<Longrightarrow> V \<subseteq> insert i B" for V A B :: "string set"
      by blast
    show "mkeys (vectors s') \<subseteq> mkeys (items s')"
      unfolding ks by (rule sub [OF vs store_wfD(3) [OF assms(1)]])
    show "ID jt = k \<and> k \<noteq> ''''" if "mget (items s') k = Some jt" for k jt
    proof (cases "k = i")
      case True
      then show ?thesis using * that new idit(2) by simp
    next
      case False
      then have "mget (items s) k = Some jt" using * that by simp
      then show ?thesis by (rule store_wfD(4) [OF assms(1)])
    qed
  qed
qed

lemma store_remove_miss: "mget (items s) i = None \<Longrightarrow> store_remove i s = (Inl ErrNotFound, s)"
  by (simp add: store_remove_def)

lemma store_remove_hit:
  "mget (items s) i = Some it \<Longrightarrow>
    store_remove i s = (Inr (), s\<lparr>items := mdel i (items s), vectors := mdel i (vectors s)\<rparr>)"
  by (simp add: store_remove_def)

lemma store_remove_wf:
  assumes "store_wf s" and "store_remove i s = (r, s')"
  shows "store_wf s'"
proof (cases "mget (items s) i")
  case None
  then show ?thesis using assms by (simp add: store_remove_miss)
next
  case (Some it)
  then have s': "s' = s\<lparr>items := mdel i (items s), vectors := mdel i (vectors s)\<rparr>"
    using assms(2) by (simp add: store_remove_hit)
  note wf = store_wfD [OF assms(1)]
  show ?thesis
  proof (rule store_wfI)
    show "mwf (items s')" "mwf (vectors s')" using s' wf(1,2) by simp_all
    have "mkeys (items s') = mkeys (items s) - {i}" "mkeys (vectors s') = mkeys (vectors s) - {i}"
      using s' by simp_all
    then show "mkeys (vectors s') \<subseteq> mkeys (items s')"
      using wf(3) by (simp only: Diff_mono subset_refl)
    show "ID jt = k \<and> k \<noteq> ''''" if "mget (items s') k = Some jt" for k jt
      by (rule wf(4)) (use s' that in \<open>simp split: if_splits\<close>)
  qed
qed

lemma store_wf_removed: "store_wf s \<Longrightarrow> store_wf (snd (store_remove i s))"
  using store_remove_wf [of s i "fst (store_remove i s)" "snd (store_remove i s)"] by simp

lemma snapshot_items [simp]: "fst (snapshot s) = items s"
  by (simp add: snapshot_def)

lemma vectorAt_snapshot:
  "vectorAt (snd (snapshot s)) i = (case mget (vectors s) i of None \<Rightarrow> None | Some v \<Rightarrow> Some (slice v))"
  by (simp add: snapshot_def vectorAt_def copyVector_def map_of_map split: option.splits)


section \<open>Properties\<close>

text \<open>Additions in a row, with the identifiers of the ones that succeed.\<close>

fun adds :: "env \<Rightarrow> (ctx \<times> MemoryItem) list \<Rightarrow> 'z world_scheme \<Rightarrow> scoredStore
    \<Rightarrow> string list \<times> 'z world_scheme \<times> scoredStore" where
  "adds E [] w s = ([], w, s)"
| "adds E ((c, it) # xs) w s = (case store_add E c it w s of
       (Inl _, w, s) \<Rightarrow> adds E xs w s
     | (Inr i, w, s) \<Rightarrow> let (ids, w, s) = adds E xs w s in (i # ids, w, s))"

definition ids_below :: "scoredStore \<Rightarrow> bool" where
  "ids_below s \<longleftrightarrow>
     (\<forall>i \<in> mkeys (items s). \<forall>nano n. i = generatedID (prefix s) nano n \<longrightarrow> n \<le> seq s)"

lemma ids_below_seq_mono:
  "ids_below s \<Longrightarrow> items s' = items s \<Longrightarrow> prefix s' = prefix s \<Longrightarrow> seq s \<le> seq s' \<Longrightarrow> ids_below s'"
  unfolding ids_below_def by fastforce

lemma store_add_seq: "store_add E c item w s = (r, w', s') \<Longrightarrow> ID item = '''' \<Longrightarrow> seq s' = wrap64 (seq s + 1)"
  by (auto simp: store_add_def assignID_cases time_Now_def queryEmbedding_def Let_def
      split: sum.splits list.splits)

text \<open>Room for \<open>n\<close> more identifiers before the counter, a machine integer, wraps around.\<close>

definition seq_room :: "nat \<Rightarrow> scoredStore \<Rightarrow> bool" where
  "seq_room n s \<longleftrightarrow> 0 \<le> seq s \<and> seq s + int n < 2 ^ 63"

lemma seq_room_step: "seq_room (Suc n) s \<Longrightarrow> wrap64 (seq s + 1) = seq s + 1"
  by (intro wrap64_small) (simp_all add: seq_room_def)

lemma seq_room_Suc: "seq_room (Suc n) s \<Longrightarrow> seq s' = seq s + 1 \<Longrightarrow> seq_room n s'"
  by (simp add: seq_room_def)

lemma store_add_fresh_step:
  assumes "ids_below s" and "ID item = ''''" and "store_add E c item w s = (Inr i, w', s')" and room: "seq_room (Suc m) s"
  shows "i \<notin> mkeys (items s) \<and> mkeys (items s') = insert i (mkeys (items s)) \<and> ids_below s'"
proof -
  have i: "i = generatedID (prefix s) (time_UnixNano (now_at E (tick w))) (seq s + 1)"
    and s': "mkeys (items s') = insert i (mkeys (items s))" "prefix s' = prefix s" "seq s' = seq s + 1"
    using store_add_Inr [OF assms(3)] addedID_generated [OF assms(2), of E w s] assms(2) seq_room_step [OF room]
    by (metis mkeys_mput)+
  have "i \<notin> mkeys (items s)"
  proof
    assume "i \<in> mkeys (items s)"
    then have "seq s + 1 \<le> seq s" using assms(1) i unfolding ids_below_def by blast
    then show False by simp
  qed
  moreover have "n \<le> seq s'" if "j \<in> mkeys (items s')" "j = generatedID (prefix s') nano n" for j nano n
  proof (cases "j = i")
    case True
    then have "n = seq s + 1" using that(2) i s'(2) by (metis generatedID_inj)
    then show ?thesis using s'(3) by simp
  next
    case False
    then have "j \<in> mkeys (items s)" using that(1) unfolding s'(1) by (simp only: insert_iff simp_thms)
    then have "n \<le> seq s" using assms(1) that(2) s'(2) unfolding ids_below_def by metis
    then show ?thesis using s'(3) by simp
  qed
  ultimately show ?thesis using s'(1) unfolding ids_below_def by blast
qed

lemma adds_fresh:
  assumes "ids_below s" and "\<forall>(c, it) \<in> set xs. ID it = ''''" and "adds E xs w s = (ids, w', s')"
    and "seq_room (length xs) s"
  shows "distinct ids \<and> set ids \<inter> mkeys (items s) = {} \<and> mkeys (items s') = mkeys (items s) \<union> set ids"
  using assms
proof (induction xs arbitrary: w s ids)
  case Nil
  then show ?case by simp
next
  case (Cons x xs)
  obtain c it where x: "x = (c, it)" by (cases x)
  obtain r w1 s1 where a: "store_add E c it w s = (r, w1, s1)" by (cases "store_add E c it w s")
  have it: "ID it = ''''" and rest: "\<forall>(c, it) \<in> set xs. ID it = ''''" using Cons.prems(2) x by auto
  have room: "seq_room (Suc (length xs)) s" using Cons.prems(4) by simp
  have seq: "seq s1 = seq s + 1" using store_add_seq [OF a it] seq_room_step [OF room] by simp
  note room1 = seq_room_Suc [OF room seq]
  show ?case
  proof (cases r)
    case (Inl err)
    have f: "items s1 = items s" "prefix s1 = prefix s" using store_add_Inl [OF a [unfolded Inl]] by auto
    have below: "ids_below s1"
      using ids_below_seq_mono [OF Cons.prems(1) f] seq by simp
    have "adds E xs w1 s1 = (ids, w', s')" using Cons.prems(3) a x Inl by simp
    from Cons.IH [OF below rest this room1] show ?thesis unfolding f(1) .
  next
    case (Inr i)
    note st = store_add_fresh_step [OF Cons.prems(1) it a [unfolded Inr] room]
    obtain ids' where ids: "ids = i # ids'" and r': "adds E xs w1 s1 = (ids', w', s')"
      using Cons.prems(3) a x Inr by (cases "adds E xs w1 s1") (simp add: Let_def)
    have step: "D \<and> I \<inter> K1 = {} \<and> K2 = K1 \<union> I \<Longrightarrow> i \<notin> K \<and> K1 = insert i K \<and> B \<Longrightarrow>
        (i \<notin> I \<and> D) \<and> insert i I \<inter> K = {} \<and> K2 = K \<union> insert i I" for B D I K1 K2 and K :: "string set"
      by blast
    from step [OF Cons.IH [OF conjunct2 [OF conjunct2 [OF st]] rest r' room1] st]
    show ?thesis unfolding ids distinct.simps list.set .
  qed
qed

text \<open>
  C2. Identifiers the store generates do not collide: however many items without an
  identifier are added to a new store, up to the range of the 64-bit counter, and whichever of
  the additions fail, the identifiers returned are pairwise distinct and are exactly the keys
  of the store, so no addition overwrites another.
\<close>

theorem generated_ids_distinct:
  assumes "\<forall>(c, it) \<in> set xs. ID it = ''''" and "adds E xs w (newScoredStore p e) = (ids, w', s')"
    and "int (length xs) < 2 ^ 63"
  shows "distinct ids \<and> mkeys (items s') = set ids"
proof -
  have "ids_below (newScoredStore p e)" by (simp add: ids_below_def newScoredStore_def)
  moreover have "seq_room (length xs) (newScoredStore p e)" using assms(3) by (simp add: seq_room_def newScoredStore_def)
  ultimately show ?thesis using adds_fresh [OF _ assms(1,2)] by (simp add: newScoredStore_def)
qed

theorem generated_ids_distinct_witness:
  "distinct (fst (adds sampleEnv [(sampleCtx, sampleItem [] ''a''), (sampleCtx, sampleItem [] ''a'')]
     sampleWorld (newScoredStore ''wrk'' sampleEmbedder)))"
  (is "distinct (fst ?X)")
  using generated_ids_distinct [of "[(sampleCtx, sampleItem [] ''a''), (sampleCtx, sampleItem [] ''a'')]"
      sampleEnv sampleWorld "''wrk''" sampleEmbedder "fst ?X" "fst (snd ?X)" "snd (snd ?X)"] by simp

text \<open>
  A stored item is returned: after a successful addition, looking up the identifier it
  returned finds the item with the caller's content, tags and metadata map, the importance
  clamped, a creation time that is the caller's unless that was zero, and the identifier
  the caller chose if there was one; no other item of the store has changed.
\<close>

theorem add_then_get:
  assumes "store_add E c item w s = (Inr i, w1, s1)" and "store_get E i w1 s1 = (r, w2, s2)"
  shows "\<exists>it. r = Inr it \<and> ID it = i \<and> i \<noteq> '''' \<and> (ID item \<noteq> '''' \<longrightarrow> i = ID item)
    \<and> Content it = Content item \<and> Tags it = Tags item \<and> Metadata it = Metadata item
    \<and> Importance it = clampUnit (Importance item)
    \<and> (CreatedAt item \<noteq> 0 \<longrightarrow> CreatedAt it = CreatedAt item)
    \<and> mget (items s2) i = Some it
    \<and> (\<forall>k. k \<noteq> i \<longrightarrow> mget (items s2) k = mget (items s) k)"
proof -
  obtain now vec where i: "i = addedID E item w s" "i \<noteq> ''''"
    and s1: "items s1 = mput i ((stampAdded now item)\<lparr>ID := i\<rparr>) (items s)"
    using store_add_Inr [OF assms(1)] by auto
  have hit: "mget (items s1) i = Some ((stampAdded now item)\<lparr>ID := i\<rparr>)" using s1 by simp
  have idi: "ID item \<noteq> '''' \<longrightarrow> i = ID item" using i(1) by (simp add: addedID_given)
  show ?thesis using assms(2) store_get_hit [OF hit, of E w1] i(2) idi s1 by auto
qed

theorem add_then_get_witness:
  "\<exists>it. fst (store_get sampleEnv ''k'' (fst (snd (store_add sampleEnv sampleCtx (sampleItem ''k'' ''hello'')
        sampleWorld (newScoredStore ''wrk'' sampleEmbedder))))
      (snd (snd (store_add sampleEnv sampleCtx (sampleItem ''k'' ''hello'')
        sampleWorld (newScoredStore ''wrk'' sampleEmbedder))))) = Inr it \<and> Content it = ''hello''"
  (is "\<exists>it. fst (store_get _ _ (fst (snd ?A)) (snd (snd ?A))) = _ \<and> _")
proof -
  let ?G = "store_get sampleEnv ''k'' (fst (snd ?A)) (snd (snd ?A))"
  have "fst ?A = Inr ''k''"
    by (simp add: store_add_def assignID_def time_Now_def queryEmbedding_def sampleEmbedder_def
        newScoredStore_def Let_def)
  then have "?A = (Inr ''k'', fst (snd ?A), snd (snd ?A))" by (metis prod.collapse)
  from add_then_get [OF this, of "fst ?G" "fst (snd ?G)" "snd (snd ?G)"] show ?thesis by auto
qed

text \<open>
  A failed embedding makes an addition fail as a whole: the items, the vectors and the
  metadata maps are as before, and the error wraps the embedder's.
\<close>

theorem add_failure_is_atomic:
  assumes "store_add E c item w s = (Inl err, w', s')"
  shows "items s' = items s \<and> vectors s' = vectors s \<and> heap w' = heap w
    \<and> (\<exists>e t. embedder s t c [Content item] = Inl e \<and> err = ErrWrap ''memory: embed'' e
        \<and> errors_Is err e)"
  using assms
  by (auto simp: store_add_def assignID_cases time_Now_def queryEmbedding_def Let_def
      split: sum.splits list.splits if_splits)

theorem add_failure_is_atomic_witness:
  "items (snd (snd (store_add sampleEnv sampleCtx (sampleItem ''k'' ''hello'') sampleWorld
     (newScoredStore ''wrk'' brokenEmbedder)))) = []"
  (is "items (snd (snd ?A)) = []")
proof -
  have "fst ?A = Inl (ErrWrap ''memory: embed'' (ErrForeign ''unavailable''))"
    by (simp add: store_add_def assignID_def time_Now_def queryEmbedding_def brokenEmbedder_def
        newScoredStore_def Let_def)
  then have "?A = (Inl (ErrWrap ''memory: embed'' (ErrForeign ''unavailable'')), fst (snd ?A), snd (snd ?A))"
    by (metis prod.collapse)
  from add_failure_is_atomic [OF this] show ?thesis by (simp add: newScoredStore_def)
qed

text \<open>The vector of an item is an answer of the embedder for the content the item has.\<close>

definition embedded :: "scoredStore \<Rightarrow> string \<Rightarrow> bool" where
  "embedded s i \<longleftrightarrow> (\<exists>it t c vs. mget (items s) i = Some it \<and> embedder s t c [Content it] = Inr vs
     \<and> mget (vectors s) i = Some (case vs of [] \<Rightarrow> None | v # _ \<Rightarrow> v))"

definition coherent :: "scoredStore \<Rightarrow> bool" where
  "coherent s \<longleftrightarrow> (\<forall>i. mget (items s) i \<noteq> None \<longrightarrow> embedded s i)"

lemma embedded_cong:
  "map_option Content (mget (items s') i) = map_option Content (mget (items s) i) \<Longrightarrow>
    mget (vectors s') i = mget (vectors s) i \<Longrightarrow> embedder s' = embedder s \<Longrightarrow> embedded s' i = embedded s i"
  by (cases "mget (items s') i"; cases "mget (items s) i") (auto simp: embedded_def)

lemma coherent_add:
  assumes "coherent s" and "store_add E c item w s = (r, w', s')"
  shows "coherent s'"
proof (cases r)
  case (Inl e)
  then have "items s' = items s" "vectors s' = vectors s" "embedder s' = embedder s"
    using store_add_Inl [of E c item w s e w' s'] assms(2) by simp_all
  then show ?thesis using assms(1) by (simp add: coherent_def embedded_def)
next
  case (Inr i)
  then have "\<exists>it t vs. items s' = mput i it (items s) \<and> embedder s t c [Content it] = Inr vs
      \<and> vectors s' = mput i (case vs of [] \<Rightarrow> None | v # _ \<Rightarrow> v) (vectors s) \<and> embedder s' = embedder s"
    using assms(2)
    by (fastforce simp: store_add_def assignID_cases time_Now_def queryEmbedding_def Let_def split: sum.splits list.splits if_splits)
  then obtain it t vs where s': "items s' = mput i it (items s)" "embedder s t c [Content it] = Inr vs"
      "vectors s' = mput i (case vs of [] \<Rightarrow> None | v # _ \<Rightarrow> v) (vectors s)" "embedder s' = embedder s" by blast
  have "embedded s' i" unfolding embedded_def using s' by (intro exI [of _ it] exI [of _ t] exI [of _ c] exI [of _ vs]) simp
  moreover have "embedded s' k = embedded s k" if "k \<noteq> i" for k using s' that by (intro embedded_cong) simp_all
  ultimately show ?thesis using assms(1) s'(1) unfolding coherent_def by (metis mget_mput)
qed

lemma coherent_get:
  assumes "coherent s" and "store_get E i w s = (r, w', s')"
  shows "coherent s'"
proof -
  have "map_option Content (mget (items s') k) = map_option Content (mget (items s) k)" "vectors s' = vectors s"
      "embedder s' = embedder s" for k
    using assms(2)
    by (auto simp: store_get_def get_read_def get_touch_def time_Now_def Let_def split: option.splits)
  then show ?thesis using assms(1) embedded_cong [of s' _ s] unfolding coherent_def by (metis option.map_disc_iff)
qed

lemma coherent_remove: "coherent s \<Longrightarrow> coherent (snd (store_remove i s))"
  by (auto simp: coherent_def embedded_def store_remove_def split: option.splits if_splits)

lemma update_embedded:
  assumes "store_update E c i fn w s = (r, w', s')"
  shows "k \<noteq> i \<Longrightarrow> embedded s' k = embedded s k"
    and "mget (items s) i \<noteq> None \<Longrightarrow> r = Inr () \<Longrightarrow> embedded s i \<Longrightarrow> embedded s' i"
    and "mget (items s') k = None \<longleftrightarrow> mget (items s) k = None"
proof -
  show "embedded s' k = embedded s k" if "k \<noteq> i"
    using assms that
    by (intro embedded_cong) (auto simp: store_update_def update_item_def time_Now_def queryEmbedding_def update_vector_def Let_def split_beta
        split: sum.splits list.splits option.splits if_splits)
  show "mget (items s') k = None \<longleftrightarrow> mget (items s) k = None"
    using assms
    by (auto simp: store_update_def update_item_def time_Now_def queryEmbedding_def update_vector_def Let_def split_beta
        split: sum.splits list.splits option.splits if_splits)
  assume hit: "mget (items s) i \<noteq> None" "r = Inr ()" "embedded s i"
  then obtain it where it: "mget (items s) i = Some it" by blast
  let ?it = "updatedItem E fn it w"
  have up: "update_item E i fn w s = (Inr (if Content ?it \<noteq> Content it then Some (Content ?it) else None),
      w\<lparr>heap := snd (fn it (heap w)), tick := Suc (tick w)\<rparr>, s\<lparr>items := mput i ?it (items s)\<rparr>)"
    by (rule update_item_hit [OF it])
  show "embedded s' i"
  proof (cases "Content ?it = Content it")
    case True
    then have "s' = s\<lparr>items := mput i ?it (items s)\<rparr>" using assms up by (simp add: store_update_def)
    then have "embedded s' i = embedded s i" using True it by (intro embedded_cong) simp_all
    then show ?thesis using hit(3) by simp
  next
    case False
    then obtain vs where "embedder s (Suc (tick w)) c [Content ?it] = Inr vs"
        "s' = s\<lparr>items := mput i ?it (items s), vectors := mput i (case vs of [] \<Rightarrow> None | v # _ \<Rightarrow> v) (vectors s)\<rparr>"
      using assms up hit(2) by (auto simp: store_update_def queryEmbedding_def update_vector_def split: sum.splits list.splits)
    then show ?thesis unfolding embedded_def
      by (intro exI [of _ ?it] exI [of _ "Suc (tick w)"] exI [of _ c] exI [of _ vs]) simp
  qed
qed

text \<open>
  C31. Vectors follow contents: in a store whose vectors are all embeddings of the contents of
  their items, additions (failed ones too), reads, removals and updates that report success or
  an unknown identifier keep it so. An update whose re-embedding fails is the only way out: the
  error is returned although the item already has its new content, with the vector of the
  old one, and no other item is affected.
\<close>

theorem vectors_follow_contents:
  assumes "coherent s"
  shows "(store_add E c item w s = (ra, w1, s1) \<longrightarrow> coherent s1)
    \<and> (store_get E i w s = (rg, w2, s2) \<longrightarrow> coherent s2)
    \<and> (store_remove i s = (rr, s3) \<longrightarrow> coherent s3)
    \<and> (store_update E c i fn w s = (ru, w4, s4) \<longrightarrow>
        (case ru of
           Inr _ \<Rightarrow> mget (items s) i \<noteq> None \<and> coherent s4
         | Inl err \<Rightarrow>
             if mget (items s) i = None then err = ErrNotFound \<and> s4 = s
             else \<exists>it it' e. mget (items s) i = Some it \<and> mget (items s4) i = Some it' \<and> Content it' = Content (fst (fn it (heap w)))
               \<and> Content it' \<noteq> Content it \<and> vectors s4 = vectors s \<and> err = ErrWrap ''memory: re-embed'' e
               \<and> (\<forall>k. k \<noteq> i \<longrightarrow> mget (items s4) k = mget (items s) k)))"
proof (intro conjI impI)
  assume u: "store_update E c i fn w s = (ru, w4, s4)"
  show "case ru of
      Inr _ \<Rightarrow> mget (items s) i \<noteq> None \<and> coherent s4
    | Inl err \<Rightarrow>
        if mget (items s) i = None then err = ErrNotFound \<and> s4 = s
        else \<exists>it it' e. mget (items s) i = Some it \<and> mget (items s4) i = Some it' \<and> Content it' = Content (fst (fn it (heap w)))
          \<and> Content it' \<noteq> Content it \<and> vectors s4 = vectors s \<and> err = ErrWrap ''memory: re-embed'' e
          \<and> (\<forall>k. k \<noteq> i \<longrightarrow> mget (items s4) k = mget (items s) k)"
  proof (cases ru)
    case (Inl err)
    then show ?thesis using u
      by (cases "mget (items s) i")
        (auto simp: store_update_def update_item_def updatedItem_def time_Now_def queryEmbedding_def update_vector_def Let_def split_beta
          split: sum.splits list.splits if_splits)
  next
    case (Inr x)
    have hit: "mget (items s) i \<noteq> None" using u Inr by (auto simp: store_update_def update_item_def split: option.splits)
    have "embedded s4 k" if k: "mget (items s4) k \<noteq> None" for k
      using update_embedded [OF u] hit Inr k assms by (cases "k = i") (auto simp: coherent_def)
    then show ?thesis using Inr hit by (simp add: coherent_def)
  qed
qed (use assms coherent_add coherent_get coherent_remove [OF assms, of i] in auto)

definition sampleStore :: "Embedder \<Rightarrow> scoredStore" where
  "sampleStore e = (newScoredStore ''wrk'' e)
     \<lparr>items := [(''k'', sampleItem ''k'' ''old'')], vectors := [(''k'', Some [Fin 3, Fin 1])]\<rparr>"

lemma sampleStore_simps [simp]:
  "items (sampleStore e) = [(''k'', sampleItem ''k'' ''old'')]"
  "vectors (sampleStore e) = [(''k'', Some [Fin 3, Fin 1])]"
  "embedder (sampleStore e) = e" "prefix (sampleStore e) = ''wrk''" "seq (sampleStore e) = 0"
  by (simp_all add: sampleStore_def newScoredStore_def)

lemma sampleStore_wf: "store_wf (sampleStore e)"
  by (simp add: store_wf_def mwf_def)

lemma sampleStore_coherent: "coherent (sampleStore sampleEmbedder)"
proof -
  have "embedded (sampleStore sampleEmbedder) ''k''" unfolding embedded_def
    by (intro exI [of _ "sampleItem ''k'' ''old''"] exI [of _ 0] exI [of _ sampleCtx] exI [of _ "[Some [Fin 3, Fin 1]]"])
      (simp add: sampleEmbedder_def f_of_int_def)
  then show ?thesis by (simp add: coherent_def)
qed

theorem vectors_follow_contents_witness:
  "coherent (snd (snd (store_update sampleEnv sampleCtx ''k'' (\<lambda>it h. (it\<lparr>Content := ''newer''\<rparr>, h))
     sampleWorld (sampleStore sampleEmbedder))))"
  (is "coherent (snd (snd ?U))")
proof -
  have ok: "fst ?U = Inr ()"
    by (simp add: store_update_def update_item_def time_Now_def queryEmbedding_def sampleEmbedder_def Let_def)
  have "?U = (fst ?U, fst (snd ?U), snd (snd ?U))" by simp
  with vectors_follow_contents [OF sampleStore_coherent] ok show ?thesis by (metis (no_types, lifting) sum.case(2))
qed

text \<open>
  Removal: a stored item is removed with its vector, and afterwards neither a lookup, an
  update nor another removal finds it; every other item and vector stays. An unknown
  identifier is reported and nothing changes.
\<close>

theorem remove_then_gone:
  "store_remove i s = (r, s') \<Longrightarrow>
    (case mget (items s) i of
       None \<Rightarrow> r = Inl ErrNotFound \<and> s' = s
     | Some it \<Rightarrow> r = Inr () \<and> mget (items s') i = None \<and> mget (vectors s') i = None
         \<and> (\<forall>k. k \<noteq> i \<longrightarrow> mget (items s') k = mget (items s) k \<and> mget (vectors s') k = mget (vectors s) k)
         \<and> store_get E i w s' = (Inl ErrNotFound, w, s')
         \<and> store_update E c i fn w s' = (Inl ErrNotFound, w, s')
         \<and> store_remove i s' = (Inl ErrNotFound, s'))"
  by (auto simp: store_remove_def store_get_miss store_update_miss split: option.splits)

theorem remove_then_gone_witness:
  "fst (store_get sampleEnv ''k'' sampleWorld (snd (store_remove ''k'' (sampleStore sampleEmbedder))))
     = Inl ErrNotFound"
  using remove_then_gone [of "''k''" "sampleStore sampleEmbedder"
      "fst (store_remove ''k'' (sampleStore sampleEmbedder))" "snd (store_remove ''k'' (sampleStore sampleEmbedder))"
      sampleEnv sampleWorld]
  by simp

end
