(* ===== verification/Scoring.thy ===== *)
theory Scoring
  imports ScoredStore
begin

text \<open>
  The scoring functions of \<^verbatim>\<open>engine_scored_store.go\<close> (lines 162--276): keyword and
  tag overlap, the importance, saved-item and recency factors, the tokenizer and the
  cosine similarity; with the ranges the engines rely on when they combine them.
\<close>


section \<open>Tokens and keyword overlap\<close>

definition tokenRune :: "string \<Rightarrow> bool" where
  "tokenRune r \<longleftrightarrow> (case r of [ch] \<Rightarrow> isLowerAlnum ch | _ \<Rightarrow> False)"

definition flush :: "string \<Rightarrow> string list" where
  "flush cur = (if cur = [] then [] else [cur])"

fun tokens_loop :: "string list \<Rightarrow> string \<Rightarrow> string list" where
  "tokens_loop [] cur = flush cur"
| "tokens_loop (r # rs) cur =
     (if tokenRune r then tokens_loop rs (cur @ r) else flush cur @ tokens_loop rs [])"

definition splitTokens :: "env \<Rightarrow> string \<Rightarrow> string list" where
  "splitTokens E s = tokens_loop (runes (ToLower E s)) []"

fun keyword_loop :: "string \<Rightarrow> string list \<Rightarrow> string list \<Rightarrow> nat \<Rightarrow> nat \<times> nat" where
  "keyword_loop content [] seen hits = (hits, length seen)"
| "keyword_loop content (t # ts) seen hits =
     (if t \<in> set seen then keyword_loop content ts seen hits
      else keyword_loop content ts (t # seen)
             (if strings_Contains content t then hits + 1 else hits))"

definition keywordScore :: "env \<Rightarrow> string \<Rightarrow> string \<Rightarrow> float64" where
  "keywordScore E query content =
     (let q = ToLower E query; ct = ToLower E content; tokens = splitTokens E q
      in if length tokens = 0 then Fin 0
         else let (hits, n) = keyword_loop ct tokens [] 0
              in f_div (f_of_nat hits) (f_of_nat n))"

definition tagOverlap :: "env \<Rightarrow> string list \<Rightarrow> string list \<Rightarrow> float64" where
  "tagOverlap E queryTags itemTags =
     (if length queryTags = 0 then Fin 0
      else let tagSet = map (ToLower E) itemTags;
               hits = length (filter (\<lambda>t. ToLower E t \<in> set tagSet) queryTags)
           in f_div (f_of_nat hits) (f_of_nat (length queryTags)))"


section \<open>Factors\<close>

definition importanceMultiplier :: "float64 \<Rightarrow> float64" where
  "importanceMultiplier imp = f_add (Fin (8/10)) (f_mul imp (Fin (4/10)))"

definition savedBoostMultiplier :: "env \<Rightarrow> meta list \<Rightarrow> MemoryItem \<Rightarrow> float64 \<Rightarrow> float64" where
  "savedBoostMultiplier E h it boost =
     (let boost = (if f_le boost (Fin 0) then Fin 1 else boost)
      in if IsPinned E h it \<or> GetSource E h it = c_SourceUserSaved E then boost else Fin 1)"

definition timeDecay :: "env \<Rightarrow> time \<Rightarrow> duration \<Rightarrow> 'z world_scheme \<Rightarrow> float64 \<times> 'z world_scheme" where
  "timeDecay E createdAt halfLife w =
     (let (now, w) = time_Now E w; age = time_Sub now createdAt
      in if age \<le> 0 \<or> halfLife \<le> 0 then (Fin 1, w)
         else (math_Exp (f_div (f_of_int (- age)) (f_of_int halfLife)), w))"


section \<open>Vectors\<close>

fun cosine_loop :: "float64 list \<Rightarrow> float64 list \<Rightarrow> float64 \<Rightarrow> float64 \<Rightarrow> float64
    \<Rightarrow> float64 \<times> float64 \<times> float64" where
  "cosine_loop (a # as) (b # bs) dot normA normB =
     cosine_loop as bs (f_add dot (f_mul a b)) (f_add normA (f_mul a a)) (f_add normB (f_mul b b))"
| "cosine_loop _ _ dot normA normB = (dot, normA, normB)"

definition vectorCosineSimilarity :: "vector \<Rightarrow> vector \<Rightarrow> float64" where
  "vectorCosineSimilarity a b =
     (if length (slice a) = 0 \<or> length (slice a) \<noteq> length (slice b) then Fin 0
      else let (dot, normA, normB) = cosine_loop (slice a) (slice b) (Fin 0) (Fin 0) (Fin 0)
           in if f_eq normA (Fin 0) \<or> f_eq normB (Fin 0) then Fin 0
              else f_div dot (f_mul (math_Sqrt normA) (math_Sqrt normB)))"

definition vectorScore :: "vector \<Rightarrow> vector \<Rightarrow> float64" where
  "vectorScore qv iv =
     (if length (slice qv) = 0 \<or> length (slice iv) = 0 then Fin 0
      else vectorCosineSimilarity qv iv)"


section \<open>Tokens: facts\<close>

lemma tokens_loop_alnum:
  assumes "\<forall>ch \<in> set cur. isLowerAlnum ch" and "t \<in> set (tokens_loop rs cur)"
  shows "t \<noteq> [] \<and> (\<forall>ch \<in> set t. isLowerAlnum ch)"
  using assms
proof (induction rs cur rule: tokens_loop.induct)
  case (1 cur)
  then show ?case by (simp add: flush_def split: if_splits)
next
  case (2 r rs cur)
  show ?case
  proof (cases "tokenRune r")
    case True
    then obtain ch where "r = [ch]" "isLowerAlnum ch"
      by (auto simp: tokenRune_def split: list.splits)
    then show ?thesis using 2 True by simp
  next
    case False
    then consider "t \<in> set (flush cur)" | "t \<in> set (tokens_loop rs [])" using "2.prems"(2) by auto
    then show ?thesis
    proof cases
      case 1
      then show ?thesis using "2.prems"(1) by (simp add: flush_def split: if_splits)
    next
      case 2
      then show ?thesis using "2.IH"(2) [OF False] by simp
    qed
  qed
qed

lemma splitTokens_alnum: "t \<in> set (splitTokens E s) \<Longrightarrow> t \<noteq> [] \<and> (\<forall>ch \<in> set t. isLowerAlnum ch)"
  unfolding splitTokens_def by (rule tokens_loop_alnum) auto

text \<open>The loop counts the distinct tokens and those that occur in the content.\<close>

lemma keyword_loop_eq:
  assumes "distinct seen"
    and "hits = card {t \<in> set seen. strings_Contains content t}"
  shows "keyword_loop content ts seen hits =
    (card {t \<in> set seen \<union> set ts. strings_Contains content t}, card (set seen \<union> set ts))"
  using assms
proof (induction ts arbitrary: seen hits)
  case Nil
  then show ?case by (simp add: distinct_card)
next
  case (Cons t ts)
  show ?case
  proof (cases "t \<in> set seen")
    case True
    then have "set seen \<union> set (t # ts) = set seen \<union> set ts" by auto
    then show ?thesis using True Cons by simp
  next
    case False
    have step: "{u \<in> set (t # seen). strings_Contains content u} =
        (if strings_Contains content t then insert t {u \<in> set seen. strings_Contains content u}
         else {u \<in> set seen. strings_Contains content u})"
      by auto
    have "(if strings_Contains content t then hits + 1 else hits)
        = card {u \<in> set (t # seen). strings_Contains content u}"
      using False Cons.prems(2) unfolding step by simp
    then have "keyword_loop content ts (t # seen) (if strings_Contains content t then hits + 1 else hits)
        = (card {u \<in> set (t # seen) \<union> set ts. strings_Contains content u},
           card (set (t # seen) \<union> set ts))"
      using Cons.IH [of "t # seen"] Cons.prems(1) False by simp
    moreover have "set (t # seen) \<union> set ts = set seen \<union> set (t # ts)" by auto
    ultimately show ?thesis using False by simp
  qed
qed

definition keywordRatio :: "env \<Rightarrow> string \<Rightarrow> string \<Rightarrow> real" where
  "keywordRatio E query content =
     (let T = set (splitTokens E (ToLower E query))
      in real (card {t \<in> T. strings_Contains (ToLower E content) t}) / real (card T))"

lemma keywordScore_eq: "keywordScore E query content = Fin (keywordRatio E query content)"
proof (cases "splitTokens E (ToLower E query)")
  case Nil
  then show ?thesis by (simp add: keywordScore_def keywordRatio_def Let_def)
next
  case (Cons t ts)
  then have "card (set (splitTokens E (ToLower E query))) \<noteq> 0" by simp
  then show ?thesis using Cons
    by (simp add: keywordScore_def keywordRatio_def Let_def f_of_int_def
        keyword_loop_eq [of "[]" 0 _ "t # ts"] del: keyword_loop.simps)
qed

lemma card_ratio_unit:
  assumes "finite T" and "S \<subseteq> T"
  shows "0 \<le> real (card S) / real (card T) \<and> real (card S) / real (card T) \<le> 1"
  using card_mono [OF assms] by (auto simp: divide_le_eq_1)

lemma keywordScore_unit: "in_unit (keywordScore E query content)"
  unfolding keywordScore_eq keywordRatio_def Let_def in_unit_def
  using card_ratio_unit [of "set (splitTokens E (ToLower E query))"] by auto

lemma tagOverlap_unit: "in_unit (tagOverlap E q t)"
proof (cases "q = []")
  case True
  then show ?thesis by (simp add: tagOverlap_def in_unit_def)
next
  case False
  let ?n = "length (filter (\<lambda>u. ToLower E u \<in> set (map (ToLower E) t)) q)"
  have "?n \<le> length q" by (rule length_filter_le)
  then have "real ?n / real (length q) \<le> 1" using False by (simp add: divide_le_eq_1)
  then show ?thesis using False
    by (simp add: tagOverlap_def in_unit_def Let_def f_of_int_def)
qed

lemma timeDecay_world [simp]:
  "snd (timeDecay E t hl w) = w\<lparr>tick := Suc (tick w)\<rparr>"
  by (simp add: timeDecay_def time_Now_def Let_def)

lemma timeDecay_unit:
  "\<exists>d. fst (timeDecay E t hl w) = Fin d \<and> 0 < d \<and> d \<le> 1"
  by (auto simp: timeDecay_def time_Now_def Let_def f_of_int_def divide_le_0_iff)


section \<open>Cosine similarity: facts\<close>

fun rdot :: "real list \<Rightarrow> real list \<Rightarrow> real" where
  "rdot (a # as) (b # bs) = a * b + rdot as bs"
| "rdot _ _ = 0"

lemma rdot_self_nonneg: "0 \<le> rdot as as"
proof (induction as)
  case (Cons a as)
  then show ?case by (simp add: add_nonneg_nonneg)
qed simp

lemma cauchy_step:
  fixes d A B a b :: real
  assumes "d\<^sup>2 \<le> A * B" and "0 \<le> A" and "0 \<le> B"
  shows "(a * b + d)\<^sup>2 \<le> (a * a + A) * (b * b + B)"
proof -
  have "(2 * (a * b * d))\<^sup>2 \<le> (A * (b * b) + B * (a * a))\<^sup>2"
  proof -
    have "(2 * (a * b * d))\<^sup>2 = 4 * ((a * b)\<^sup>2 * d\<^sup>2)" by (simp add: power_mult_distrib)
    also have "\<dots> \<le> 4 * ((a * b)\<^sup>2 * (A * B))"
      using assms(1) by (intro mult_left_mono) auto
    also have "\<dots> = 4 * ((A * (b * b)) * (B * (a * a)))"
      by (simp add: power2_eq_square algebra_simps)
    also have "\<dots> \<le> (A * (b * b) + B * (a * a))\<^sup>2"
      using sum_squares_bound [of "A * (b * b)" "B * (a * a)"]
      by (simp add: power2_eq_square algebra_simps)
    finally show ?thesis .
  qed
  moreover have "0 \<le> A * (b * b) + B * (a * a)" using assms(2,3) by simp
  ultimately have "2 * (a * b * d) \<le> A * (b * b) + B * (a * a)"
    by (rule power2_le_imp_le)
  then show ?thesis using assms(1) by (simp add: power2_eq_square algebra_simps)
qed

lemma cauchy_schwarz: "length as = length bs \<Longrightarrow> (rdot as bs)\<^sup>2 \<le> rdot as as * rdot bs bs"
proof (induction as bs rule: list_induct2)
  case Nil
  then show ?case by simp
next
  case (Cons a as b bs)
  then show ?case
    using cauchy_step [of "rdot as bs" "rdot as as" "rdot bs bs" a b] rdot_self_nonneg by simp
qed

lemma cosine_loop_Fin:
  "length as = length bs \<Longrightarrow>
   cosine_loop (map Fin as) (map Fin bs) (Fin x) (Fin y) (Fin z) =
     (Fin (x + rdot as bs), Fin (y + rdot as as), Fin (z + rdot bs bs))"
  by (induction as bs arbitrary: x y z rule: list_induct2) (simp_all add: add.assoc)

lemma cosine_bound:
  assumes "length as = length bs" and "0 < rdot as as" and "0 < rdot bs bs"
  shows "\<bar>rdot as bs / (sqrt (rdot as as) * sqrt (rdot bs bs))\<bar> \<le> 1"
proof -
  have "\<bar>rdot as bs\<bar> \<le> sqrt (rdot as as * rdot bs bs)"
    using real_sqrt_le_mono [OF cauchy_schwarz [OF assms(1)]] by simp
  then have "\<bar>rdot as bs\<bar> \<le> sqrt (rdot as as) * sqrt (rdot bs bs)"
    by (simp add: real_sqrt_mult)
  moreover have "0 < sqrt (rdot as as) * sqrt (rdot bs bs)" using assms(2,3) by simp
  ultimately show ?thesis by (metis abs_divide abs_of_pos divide_le_eq_1_pos)
qed

text \<open>On finite vectors the similarity is a number between minus one and one.\<close>

lemma vectorScore_bound:
  assumes "slice qv = map Fin as" and "slice iv = map Fin bs"
  shows "\<exists>c. vectorScore qv iv = Fin c \<and> - 1 \<le> c \<and> c \<le> 1"
proof (cases "length as = length bs \<and> as \<noteq> [] \<and> rdot as as \<noteq> 0 \<and> rdot bs bs \<noteq> 0")
  case True
  then have pos: "0 < rdot as as" "0 < rdot bs bs"
    using rdot_self_nonneg by (metis less_eq_real_def)+
  have "vectorScore qv iv = Fin (rdot as bs / (sqrt (rdot as as) * sqrt (rdot bs bs)))"
    using True assms pos
    by (auto simp: vectorScore_def vectorCosineSimilarity_def cosine_loop_Fin)
  moreover have "\<bar>rdot as bs / (sqrt (rdot as as) * sqrt (rdot bs bs))\<bar> \<le> 1"
    using True pos by (intro cosine_bound) auto
  ultimately show ?thesis by (metis abs_le_D1 abs_le_D2 minus_le_iff)
next
  case False
  then have "vectorScore qv iv = Fin 0"
    using assms by (auto simp: vectorScore_def vectorCosineSimilarity_def cosine_loop_Fin)
  then show ?thesis by simp
qed


section \<open>Properties\<close>

text \<open>
  The keyword score is the fraction of the distinct tokens of the query that occur in
  the content, both in lower case, and lies in the unit interval; tokens are non-empty runs
  of lower-case letters and digits.
\<close>

theorem keyword_score_fraction:
  "keywordScore E query content =
     Fin (real (card {t \<in> set (splitTokens E (ToLower E query)). strings_Contains (ToLower E content) t})
          / real (card (set (splitTokens E (ToLower E query)))))
   \<and> in_unit (keywordScore E query content)
   \<and> (\<forall>t \<in> set (splitTokens E (ToLower E query)). t \<noteq> '''' \<and> list_all isLowerAlnum t)"
  using splitTokens_alnum [of _ E "ToLower E query"]
  by (auto simp: keywordScore_unit list_all_iff) (simp add: keywordScore_eq keywordRatio_def Let_def)

theorem keyword_score_fraction_witness:
  "in_unit (keywordScore sampleEnv ''go memory engine'' ''A memory for Go'')
   \<and> list_all isLowerAlnum (hd (splitTokens sampleEnv (ToLower sampleEnv ''go memory engine'')))"
proof -
  have "splitTokens sampleEnv (ToLower sampleEnv ''go memory engine'') = [''go'', ''memory'', ''engine'']"
    unfolding sampleEnv_def by code_simp
  moreover have "in_unit (keywordScore sampleEnv ''go memory engine'' ''A memory for Go'')"
    and "\<forall>t \<in> set (splitTokens sampleEnv (ToLower sampleEnv ''go memory engine'')). list_all isLowerAlnum t"
    using keyword_score_fraction [of sampleEnv "''go memory engine''" "''A memory for Go''"] by blast+
  ultimately show ?thesis by (metis list.sel(1) list.set_intros(1))
qed

text \<open>
  The similarity of two finite vectors is a number between minus one and one, whatever
  their lengths, zero vectors and missing vectors included.
\<close>

theorem vector_score_bounds:
  assumes "slice qv = map Fin as" and "slice iv = map Fin bs"
  shows "\<exists>c. vectorScore qv iv = Fin c \<and> - 1 \<le> c \<and> c \<le> 1
    \<and> (length as \<noteq> length bs \<longrightarrow> c = 0)"
proof -
  have "length as \<noteq> length bs \<Longrightarrow> vectorScore qv iv = Fin 0"
    using assms by (auto simp: vectorScore_def vectorCosineSimilarity_def)
  then show ?thesis using vectorScore_bound [OF assms] by auto
qed

theorem vector_score_bounds_witness: "\<exists>c. vectorScore (Some [Fin 3, Fin 4]) (Some [Fin 4, Fin 3]) = Fin c \<and> c \<le> 1"
  using vector_score_bounds [of "Some [Fin 3, Fin 4]" "[3, 4]" "Some [Fin 4, Fin 3]" "[4, 3]"] by auto

end
