(* ===== verification/Ranking.thy ===== *)
theory Ranking
  imports Scoring
begin

text \<open>
  What the three engines share in their searches: \<^verbatim>\<open>sortDesc\<close> of
  \<^verbatim>\<open>engine_working.go\<close>, the cut to the first results, and the vector backend of
  \<^verbatim>\<open>vector_backend.go\<close>.
\<close>


section \<open>Sorting results\<close>

definition score_greater :: "SearchResult \<Rightarrow> SearchResult \<Rightarrow> bool" where
  "score_greater a b \<longleftrightarrow> f_gt (sr_Score a) (sr_Score b)"

definition sortDesc :: "SearchResult list \<Rightarrow> SearchResult list" where
  "sortDesc out = sort_by score_greater out"

definition topResults :: "int \<Rightarrow> SearchResult list \<Rightarrow> SearchResult list" where
  "topResults topK out =
     (let out = sortDesc out in if int (length out) > topK then take (nat topK) out else out)"

definition defaultTopK :: "int \<Rightarrow> int" where
  "defaultTopK topK = (if topK \<le> 0 then 5 else topK)"

interpretation score_order: comparator score_greater "\<lambda>r. sr_Score r \<noteq> NaN"
  by unfold_locales (auto simp: score_greater_def dest: f_lt_asym f_lt_neg_trans)

lemma defaultTopK_pos: "0 < defaultTopK k"
  by (simp add: defaultTopK_def)

lemma topResults_take: "0 < k \<Longrightarrow> topResults k out = take (nat k) (sortDesc out)"
  by (simp add: topResults_def Let_def)

lemma set_topResults: "0 < k \<Longrightarrow> set (topResults k out) \<subseteq> set out"
  using set_take_subset [of "nat k" "sortDesc out"] by (simp add: topResults_take sortDesc_def)

lemma length_topResults: "0 < k \<Longrightarrow> length (topResults k out) = min (nat k) (length out)"
  by (simp add: topResults_take sortDesc_def)

lemma topResults_sorted:
  assumes "0 < k" and "\<forall>r \<in> set out. sr_Score r \<noteq> NaN"
  shows "sorted_wrt (\<lambda>a b. \<not> f_lt (sr_Score a) (sr_Score b)) (topResults k out)"
proof -
  have "sorted_wrt (\<lambda>a b. \<not> score_greater b a) (sort_by score_greater out)"
    by (rule score_order.sorted_sort_by [OF assms(2)])
  then show ?thesis using assms(1)
    by (simp add: topResults_take sortDesc_def score_greater_def sorted_wrt_take)
qed

text \<open>No result left out scores higher than one returned.\<close>

lemma topResults_best:
  assumes "0 < k" and "\<forall>r \<in> set out. sr_Score r \<noteq> NaN"
    and "a \<in> set (topResults k out)" and "b \<in> set out" and "b \<notin> set (topResults k out)"
  shows "\<not> f_lt (sr_Score a) (sr_Score b)"
proof -
  have "b \<in> set (take (nat k) (sortDesc out) @ drop (nat k) (sortDesc out))"
    using assms(4) by (simp add: sortDesc_def)
  then have "b \<in> set (drop (nat k) (sortDesc out))"
    using assms(1,5) by (simp only: set_append Un_iff topResults_take) simp
  then have "\<not> score_greater b a"
    using score_order.take_sort_by_best [OF assms(2)] assms(1,3)
    by (simp add: topResults_take sortDesc_def)
  then show ?thesis by (simp add: score_greater_def)
qed


section \<open>The vector backend\<close>

record VectorCandidate =
  vc_Item :: MemoryItem
  vc_Similarity :: float64

text \<open>
  A backend is the bundled one or one installed by the caller, whose answer is a parameter.
\<close>

datatype VectorBackend =
    inMemoryVectorBackend
  | ForeignBackend "nat \<Rightarrow> ctx \<Rightarrow> string \<Rightarrow> (string, MemoryItem) gomap \<Rightarrow> (string, vector) gomap
      \<Rightarrow> error + VectorCandidate list"

definition inMemory_Candidates :: "env \<Rightarrow> ctx \<Rightarrow> string \<Rightarrow> (string, MemoryItem) gomap
    \<Rightarrow> (string, vector) gomap \<Rightarrow> Embedder \<Rightarrow> 'z world_scheme
    \<Rightarrow> (error + VectorCandidate list) \<times> 'z world_scheme" where
  "inMemory_Candidates E c query its vecs e w =
     (case queryEmbedding e c query w of
        (Inl err, w) \<Rightarrow> (Inl err, w)
      | (Inr qv, w) \<Rightarrow>
          let (ordered, w) = go_range E its w
          in (Inr (map (\<lambda>(i, it). \<lparr>vc_Item = it, vc_Similarity = vectorScore qv (vectorAt vecs i)\<rparr>) ordered), w))"

definition Candidates :: "env \<Rightarrow> VectorBackend \<Rightarrow> ctx \<Rightarrow> string \<Rightarrow> (string, MemoryItem) gomap
    \<Rightarrow> (string, vector) gomap \<Rightarrow> Embedder \<Rightarrow> 'z world_scheme
    \<Rightarrow> (error + VectorCandidate list) \<times> 'z world_scheme" where
  "Candidates E b c query its vecs e w = (case b of
       inMemoryVectorBackend \<Rightarrow> inMemory_Candidates E c query its vecs e w
     | ForeignBackend f \<Rightarrow> (f (tick w) c query its vecs, w\<lparr>tick := Suc (tick w)\<rparr>))"

lemma Candidates_world [simp]:
  "heap (snd (Candidates E b c q its vecs e w)) = heap w"
  "events (snd (Candidates E b c q its vecs e w)) = events w"
  by (simp_all add: Candidates_def inMemory_Candidates_def queryEmbedding_def go_range_def
      split: VectorBackend.splits sum.splits list.splits prod.splits)

text \<open>The bundled backend proposes every stored item once.\<close>

lemma inMemory_Candidates_items:
  assumes "inMemory_Candidates E c q its vecs e w = (Inr cs, w')"
  shows "mset (map vc_Item cs) = mset (map snd its)"
proof -
  obtain r where "cs = map (\<lambda>(i, it). \<lparr>vc_Item = it, vc_Similarity = vectorScore r (vectorAt vecs i)\<rparr>)
      (shuffle (rank_at E (Suc (tick w))) its)"
    using assms by (auto simp: inMemory_Candidates_def queryEmbedding_def go_range_def
        split: sum.splits list.splits)
  then have "map vc_Item cs = map snd (shuffle (rank_at E (Suc (tick w))) its)"
    by (simp add: split_def comp_def)
  then show ?thesis by (simp only: mset_map mset_shuffle)
qed

text \<open>Each candidate carries the similarity of the query to the vector of its item.\<close>

lemma inMemory_Candidates_similarity:
  assumes "inMemory_Candidates E c q its vecs e w = (Inr cs, w')"
  shows "\<exists>qv. fst (queryEmbedding e c q w) = Inr qv \<and> w' = w\<lparr>tick := Suc (Suc (tick w))\<rparr>
    \<and> (\<forall>cd \<in> set cs. \<exists>i. (i, vc_Item cd) \<in> set its \<and> vc_Similarity cd = vectorScore qv (vectorAt vecs i))"
  using assms
  by (fastforce simp: inMemory_Candidates_def queryEmbedding_def go_range_def split: sum.splits list.splits)

text \<open>
  What every engine's search promises of its results, given the scored results of the
  stored items that pass a filter.
\<close>

lemma ranked_results:
  assumes "store_wf s" and "mset (map sr_Item out) = mset (filter P (map snd (items s)))"
  shows "set (topResults (defaultTopK k) out) \<subseteq> set out \<and> distinct (map (ID \<circ> sr_Item) out)
    \<and> length (topResults (defaultTopK k) out) = min (nat (defaultTopK k)) (length out)
    \<and> ((\<forall>r \<in> set out. sr_Score r \<noteq> NaN) \<longrightarrow>
         sorted_wrt (\<lambda>a b. \<not> f_lt (sr_Score a) (sr_Score b)) (topResults (defaultTopK k) out)
         \<and> (\<forall>a \<in> set (topResults (defaultTopK k) out). \<forall>b \<in> set out - set (topResults (defaultTopK k) out).
              \<not> f_lt (sr_Score a) (sr_Score b)))"
proof -
  have d: "distinct (map ID (filter P (map snd (items s))))"
    by (rule distinct_map_filter) (use distinct_IDs [OF assms(1)] in simp)
  have "mset (map ID (map sr_Item out)) = mset (map ID (filter P (map snd (items s))))"
    using arg_cong [OF assms(2), of "image_mset ID"] by (simp only: mset_map)
  then have "distinct (map ID (map sr_Item out))" using d by (metis mset_eq_imp_distinct_iff)
  then have "distinct (map (ID \<circ> sr_Item) out)" by (simp only: map_map)
  then show ?thesis
    using set_topResults [OF defaultTopK_pos] length_topResults [OF defaultTopK_pos]
      topResults_sorted [OF defaultTopK_pos] topResults_best [OF defaultTopK_pos] by blast
qed

end
