(* ===== verification/Base64.thy ===== *)
theory Base64
  imports GoRuntime
begin

text \<open>
  The unpadded URL alphabet of \<^verbatim>\<open>encoding/base64\<close> (\<^verbatim>\<open>RawURLEncoding\<close>),
  which \<^verbatim>\<open>engine_list.go\<close> uses for its cursors, and its round trip.
\<close>

definition b64alphabet :: string where
  "b64alphabet = ''ABCDEFGHIJKLMNOPQRSTUVWXYZabcdefghijklmnopqrstuvwxyz0123456789-_''"

definition b64char :: "nat \<Rightarrow> char" where
  "b64char n = b64alphabet ! n"

definition b64val :: "char \<Rightarrow> nat option" where
  "b64val ch = map_of (zip b64alphabet [0..<64]) ch"

fun b64enc :: "string \<Rightarrow> string" where
  "b64enc [] = []"
| "b64enc [a] = (let x = of_char a in [b64char (x div 4), b64char (x mod 4 * 16)])"
| "b64enc [a, b] = (let x = of_char a; y = of_char b
     in [b64char (x div 4), b64char (x mod 4 * 16 + y div 16), b64char (y mod 16 * 4)])"
| "b64enc (a # b # c # r) = (let x = of_char a; y = of_char b; z = of_char c
     in b64char (x div 4) # b64char (x mod 4 * 16 + y div 16)
        # b64char (y mod 16 * 4 + z div 64) # b64char (z mod 64) # b64enc r)"

definition byte1 :: "nat \<Rightarrow> nat \<Rightarrow> char" where "byte1 p q = char_of (p * 4 + q div 16)"
definition byte2 :: "nat \<Rightarrow> nat \<Rightarrow> char" where "byte2 q r = char_of (q mod 16 * 16 + r div 4)"
definition byte3 :: "nat \<Rightarrow> nat \<Rightarrow> char" where "byte3 r s = char_of (r mod 4 * 64 + s)"

fun b64dec_values :: "nat list \<Rightarrow> string option" where
  "b64dec_values [] = Some []"
| "b64dec_values [p] = None"
| "b64dec_values [p, q] = Some [byte1 p q]"
| "b64dec_values [p, q, r] = Some [byte1 p q, byte2 q r]"
| "b64dec_values (p # q # r # s # rest) =
     map_option (\<lambda>t. byte1 p q # byte2 q r # byte3 r s # t) (b64dec_values rest)"

text \<open>The decoder skips line breaks and fails on a byte outside the alphabet.\<close>

definition b64dec :: "string \<Rightarrow> string option" where
  "b64dec s = (let vals = map b64val (filter (\<lambda>ch. (of_char ch :: nat) \<noteq> 10 \<and> (of_char ch :: nat) \<noteq> 13) s)
     in if list_all (\<lambda>v. v \<noteq> None) vals then b64dec_values (map the vals) else None)"

lemma length_b64alphabet: "length b64alphabet = 64"
  by (simp add: b64alphabet_def)

lemma distinct_b64alphabet: "distinct b64alphabet"
  by (simp add: b64alphabet_def)

lemma b64val_b64char: "n < 64 \<Longrightarrow> b64val (b64char n) = Some n"
proof -
  assume n: "n < 64"
  have "map_of (zip b64alphabet [0..<64]) (b64alphabet ! n) = Some ([0..<64] ! n)"
    by (rule map_of_zip_nth) (simp_all add: length_b64alphabet distinct_b64alphabet n del: upt_rec_numeral)
  moreover have "[0..<64] ! n = n" using nth_upt [of 0 n 64] n by (simp only: add_0)
  ultimately show ?thesis by (simp only: b64val_def b64char_def)
qed

lemma b64alphabet_no_break: "list_all (\<lambda>ch. (of_char ch :: nat) \<noteq> 10 \<and> (of_char ch :: nat) \<noteq> 13) b64alphabet"
  by (simp add: b64alphabet_def)

lemma b64char_no_break: "n < 64 \<Longrightarrow> (of_char (b64char n) :: nat) \<noteq> 10 \<and> (of_char (b64char n) :: nat) \<noteq> 13"
proof -
  assume "n < 64"
  then have "b64alphabet ! n \<in> set b64alphabet" using length_b64alphabet by (intro nth_mem) simp
  then show ?thesis using b64alphabet_no_break unfolding b64char_def list_all_iff by (rule bspec [rotated])
qed

text \<open>The sextets of a byte string; encoding is the alphabet applied to them.\<close>

fun sextets :: "nat list \<Rightarrow> nat list" where
  "sextets [] = []"
| "sextets [x] = [x div 4, x mod 4 * 16]"
| "sextets [x, y] = [x div 4, x mod 4 * 16 + y div 16, y mod 16 * 4]"
| "sextets (x # y # z # r) =
     x div 4 # (x mod 4 * 16 + y div 16) # (y mod 16 * 4 + z div 64) # (z mod 64) # sextets r"

lemma b64enc_sextets: "b64enc s = map b64char (sextets (map of_char s))"
  by (induction s rule: b64enc.induct) (simp_all add: Let_def)

text \<open>Splitting and joining the bits of bytes.\<close>

lemma join_parts:
  fixes a b n :: nat
  assumes "b < n"
  shows "(a * n + b) div n = a" "(a * n + b) mod n = b"
  using assms by simp_all

lemma byte_parts:
  fixes x :: nat
  assumes "x < 256"
  shows "x div 4 < 64" "x div 16 < 16" "x div 64 < 4"
  using assms by (simp_all add: less_mult_imp_div_less)

lemma sextet_bounds:
  fixes x y z :: nat
  assumes "y < 256" "z < 256"
  shows "x mod 4 * 16 + y div 16 < 64" "y mod 16 * 4 + z div 64 < 64"
    "x mod 4 * 16 < 64" "y mod 16 * 4 < 64"
proof -
  have "x mod 4 \<le> 3" "y mod 16 \<le> 15" by simp_all
  then show "x mod 4 * 16 + y div 16 < 64" "y mod 16 * 4 + z div 64 < 64"
    "x mod 4 * 16 < 64" "y mod 16 * 4 < 64"
    using byte_parts(2) [OF assms(1)] byte_parts(3) [OF assms(2)] by linarith+
qed

lemma sextets_bound: "\<forall>x \<in> set xs. x < 256 \<Longrightarrow> \<forall>n \<in> set (sextets xs). n < 64"
proof (induction xs rule: sextets.induct)
  case (4 x y z r)
  then show ?case using sextet_bounds(1) [of y z x] sextet_bounds(2) [of y z] byte_parts(1) [of x] by simp
next
  case (3 x y)
  then show ?case using sextet_bounds(1) [of y 0 x] sextet_bounds(4) [of y 0] byte_parts(1) [of x] by simp
next
  case (2 x)
  then show ?case using sextet_bounds(3) [of 0 0 x] byte_parts(1) [of x] by simp
qed simp

lemma bytes_of_sextets:
  fixes x y z :: nat
  assumes "y < 256" "z < 256"
  shows "byte1 (x div 4) (x mod 4 * 16 + y div 16) = char_of x"
    "byte1 (x div 4) (x mod 4 * 16) = char_of x"
    "byte2 (x mod 4 * 16 + y div 16) (y mod 16 * 4 + z div 64) = char_of y"
    "byte2 (x mod 4 * 16 + y div 16) (y mod 16 * 4) = char_of y"
    "byte3 (y mod 16 * 4 + z div 64) (z mod 64) = char_of z"
  using join_parts [of "y div 16" 16 "x mod 4"] join_parts [of "z div 64" 4 "y mod 16"]
    byte_parts(2) [OF assms(1)] byte_parts(3) [OF assms(2)]
  by (simp_all add: byte1_def byte2_def byte3_def)

lemma b64dec_values_sextets:
  "\<forall>x \<in> set xs. x < 256 \<Longrightarrow> b64dec_values (sextets xs) = Some (map char_of xs)"
proof (induction xs rule: sextets.induct)
  case (2 x)
  then show ?case using bytes_of_sextets(2) [of 0 0 x] by simp
next
  case (3 x y)
  then show ?case using bytes_of_sextets(1,4) [of y 0 x] by simp
next
  case (4 x y z r)
  then show ?case using bytes_of_sextets(1,3) [of y z x] bytes_of_sextets(5) [of y z] by simp
qed simp

lemma b64_roundtrip: "b64dec (b64enc s) = Some s"
proof -
  let ?xs = "map of_char s :: nat list"
  have b: "\<forall>x \<in> set ?xs. x < 256" by simp
  let ?t = "sextets ?xs"
  have t: "\<forall>n \<in> set ?t. n < 64" using sextets_bound [OF b] .
  have f: "filter (\<lambda>ch. (of_char ch :: nat) \<noteq> 10 \<and> (of_char ch :: nat) \<noteq> 13) (map b64char ?t) = map b64char ?t"
    using t b64char_no_break by (auto simp: filter_id_conv)
  have v: "map b64val (map b64char ?t) = map Some ?t" using t b64val_b64char by simp
  have "b64dec (b64enc s) = b64dec_values ?t"
    unfolding b64dec_def b64enc_sextets f v Let_def by (simp add: list_all_iff comp_def)
  also have "\<dots> = Some (map char_of ?xs)" by (rule b64dec_values_sextets [OF b])
  finally show ?thesis by (simp add: comp_def)
qed

lemma b64enc_Nil_iff [simp]: "b64enc s = [] \<longleftrightarrow> s = []"
  by (cases s rule: b64enc.cases) (simp_all add: Let_def)

end
