(* ===== verification/Listing.thy ===== *)
theory Listing
  imports ScoredStore Base64
begin

text \<open>
  \<^verbatim>\<open>engine_list.go\<close>: cursors, the list filter, and the page of a store that
  follows a cursor. A cursor is the JSON text of the last item's creation time and
  identifier in unpadded URL base64. The JSON codec is a parameter of the environment, and
  a statement that decodes what it encoded names the cursors it needs to survive the round
  trip (\<open>codec_ok\<close>): \<^verbatim>\<open>encoding/json\<close> promises that for identifiers in
  valid UTF-8 and years up to 9999.
\<close>


section \<open>Cursors\<close>

definition encodeCursor :: "env \<Rightarrow> time \<times> string \<Rightarrow> error + string" where
  "encodeCursor E cur = (case cursor_Marshal E cur of
       Inl err \<Rightarrow> Inl err
     | Inr b \<Rightarrow> Inr (b64enc b))"

definition badCursor :: "error \<Rightarrow> error" where
  "badCursor err = ErrWrap ''memory: bad cursor'' err"

definition decodeCursor :: "env \<Rightarrow> string \<Rightarrow> error + time \<times> string" where
  "decodeCursor E s =
     (if s = '''' then Inr (0, '''')
      else case b64dec s of
             None \<Rightarrow> Inl (badCursor (ErrForeign ''base64''))
           | Some raw \<Rightarrow> (case cursor_Unmarshal E raw of
               Inl err \<Rightarrow> Inl (badCursor err)
             | Inr cur \<Rightarrow> Inr cur))"

definition codec_ok :: "env \<Rightarrow> time \<times> string \<Rightarrow> bool" where
  "codec_ok E cur \<longleftrightarrow> (case cursor_Marshal E cur of
       Inl _ \<Rightarrow> False
     | Inr b \<Rightarrow> b \<noteq> [] \<and> cursor_Unmarshal E b = Inr cur)"

lemma cursor_roundtrip:
  assumes "codec_ok E cur"
  shows "\<exists>s. encodeCursor E cur = Inr s \<and> s \<noteq> '''' \<and> decodeCursor E s = Inr cur"
proof (cases "cursor_Marshal E cur")
  case (Inl e)
  then show ?thesis using assms by (simp add: codec_ok_def)
next
  case (Inr b)
  then have "b \<noteq> []" and "cursor_Unmarshal E b = Inr cur" using assms by (simp_all add: codec_ok_def)
  then have "encodeCursor E cur = Inr (b64enc b)" "b64enc b \<noteq> ''''" "decodeCursor E (b64enc b) = Inr cur"
    using Inr by (simp_all add: encodeCursor_def decodeCursor_def b64_roundtrip)
  then show ?thesis by metis
qed


section \<open>The filter\<close>

definition tagsMatch :: "env \<Rightarrow> string list \<Rightarrow> string list \<Rightarrow> bool" where
  "tagsMatch E want have \<longleftrightarrow> list_ex (\<lambda>q. ToLower E q \<in> set (map (ToLower E) have)) want"

definition matchesFilter :: "env \<Rightarrow> meta list \<Rightarrow> MemoryItem \<Rightarrow> ListFilter \<Rightarrow> bool" where
  "matchesFilter E h it f =
     (if \<not> f_IncludeDisabled f \<and> IsDisabled E h it then False
      else if f_PinnedOnly f \<and> \<not> IsPinned E h it then False
      else if f_Source f \<noteq> '''' \<and> GetSource E h it \<noteq> f_Source f then False
      else if f_Category f \<noteq> '''' \<and> GetCategory E h it \<noteq> f_Category f then False
      else if \<not> c_Scope_IsZero E (f_Scope f) \<and> \<not> c_Scope_Matches E (f_Scope f) (readScope h it) then False
      else if f_lt (Fin 0) (f_MinImportance f) \<and> f_lt (Importance it) (f_MinImportance f) then False
      else if length (f_Tags f) > 0 \<and> \<not> tagsMatch E (f_Tags f) (Tags it) then False
      else True)"


section \<open>One page\<close>

text \<open>The comparator of the sort: newest first, identifiers ascending within one instant.\<close>

definition list_less :: "MemoryItem \<Rightarrow> MemoryItem \<Rightarrow> bool" where
  "list_less a b =
     (if CreatedAt a \<noteq> CreatedAt b then CreatedAt b < CreatedAt a else ID a < ID b)"

definition afterCursor :: "time \<times> string \<Rightarrow> MemoryItem \<Rightarrow> bool" where
  "afterCursor cur it \<longleftrightarrow>
     CreatedAt it < fst cur \<or> CreatedAt it = fst cur \<and> snd cur < ID it"

text \<open>The index of the first candidate after the cursor, or the number of candidates.\<close>

fun firstAfter :: "time \<times> string \<Rightarrow> MemoryItem list \<Rightarrow> nat" where
  "firstAfter cur [] = 0"
| "firstAfter cur (it # its) = (if afterCursor cur it then 0 else Suc (firstAfter cur its))"

text \<open>
  The end of the page is computed in \<^verbatim>\<open>int\<close>: a page size near the largest integer
  wraps around, and the slice expression then panics.
\<close>

definition cutPage :: "env \<Rightarrow> MemoryItem list \<Rightarrow> int \<Rightarrow> time \<times> string \<Rightarrow> error + ListPage" where
  "cutPage E candidates pageSize cur =
     (let start = (if \<not> time_IsZero (fst cur) \<or> snd cur \<noteq> '''' then firstAfter cur candidates else 0);
          n = int (length candidates);
          e = wrap64 (int start + pageSize);
          e = (if e > n then n else e)
      in if e < int start then Inl (ErrPanic ''slice bounds out of range'')
         else
           let page = take (nat e - start) (drop start candidates)
           in if e < n then
                (let last = candidates ! (nat e - 1)
                 in case encodeCursor E (CreatedAt last, ID last) of
                      Inl err \<Rightarrow> Inl err
                    | Inr nc \<Rightarrow> Inr \<lparr>lp_Items = page, lp_NextCursor = nc\<rparr>)
              else Inr \<lparr>lp_Items = page, lp_NextCursor = ''''\<rparr>)"

definition listFromStore :: "env \<Rightarrow> ListFilter \<Rightarrow> int \<Rightarrow> string \<Rightarrow> 'z world_scheme \<Rightarrow> scoredStore
    \<Rightarrow> (error + ListPage) \<times> 'z world_scheme" where
  "listFromStore E f pageSize cursor w s =
     (let pageSize = (if pageSize \<le> 0 then 50 else pageSize)
      in case decodeCursor E cursor of
           Inl err \<Rightarrow> (Inl err, w)
         | Inr cur \<Rightarrow>
             let (its, w) = go_range E (fst (snapshot s)) w;
                 candidates = filter (\<lambda>it. matchesFilter E (heap w) it f) (map snd its);
                 candidates = sort_by list_less candidates
             in (cutPage E candidates pageSize cur, w))"


section \<open>The listing of a store\<close>

interpretation list_order: keyed_comparator list_less "\<lambda>_. True" "\<lambda>it. (CreatedAt it, ID it)"
  by unfold_locales (auto simp: list_less_def split: if_splits)

text \<open>What a store lists, independent of the order in which its map is ranged over.\<close>

definition listing :: "env \<Rightarrow> ListFilter \<Rightarrow> meta list \<Rightarrow> scoredStore \<Rightarrow> MemoryItem list" where
  "listing E f h s = sort_by list_less (filter (\<lambda>it. matchesFilter E h it f) (map snd (items s)))"

lemma distinct_candidate_keys:
  assumes "store_wf s"
  shows "distinct (map (\<lambda>it. (CreatedAt it, ID it)) (filter P (map snd (items s))))"
proof -
  have "distinct (map ID (map snd (items s)))" using distinct_IDs [OF assms] by simp
  then have "distinct (map ID (filter P (map snd (items s))))" by (rule distinct_map_filter)
  then have "distinct (map snd (map (\<lambda>it. (CreatedAt it, ID it)) (filter P (map snd (items s)))))"
    by (simp add: comp_def)
  then show ?thesis by (simp only: distinct_map [of snd])
qed

lemma listing_any_order:
  assumes "store_wf s"
  shows "sort_by list_less (filter (\<lambda>it. matchesFilter E h it f) (map snd (fst (go_range E (items s) w))))
    = listing E f h s"
  unfolding listing_def
  by (rule list_order.sort_by_perm_unique [symmetric])
    (simp_all add: go_range_def mset_filter_map_snd_shuffle distinct_candidate_keys [OF assms]
      del: mset_map mset_filter filter_map)

lemma listFromStore_eq:
  assumes "store_wf s"
  shows "listFromStore E f n cursor w s = (case decodeCursor E cursor of
       Inl err \<Rightarrow> (Inl err, w)
     | Inr cur \<Rightarrow> (cutPage E (listing E f (heap w) s) (if n \<le> 0 then 50 else n) cur,
                  w\<lparr>tick := Suc (tick w)\<rparr>))"
  using listing_any_order [OF assms, of E "heap w" f w]
  by (simp add: listFromStore_def Let_def split_beta go_range_def split: sum.splits)

lemma set_listing: "set (listing E f h s) = {it \<in> snd ` set (items s). matchesFilter E h it f}"
  by (auto simp: listing_def)

lemma listing_sorted: "store_wf s \<Longrightarrow> sorted_wrt list_less (listing E f h s)"
  unfolding listing_def
  by (rule list_order.strictly_sorted) (simp_all add: distinct_candidate_keys del: filter_map)

lemma listing_ID_not_Nil:
  assumes "store_wf s" and "it \<in> set (listing E f h s)"
  shows "ID it \<noteq> ''''"
  using assms by (auto simp: set_listing store_wf_def)


section \<open>Pages follow one another\<close>

lemma afterCursor_less: "afterCursor (CreatedAt l, ID l) it = list_less l it"
  by (auto simp: afterCursor_def list_less_def)

lemma firstAfter_append:
  "(\<forall>x \<in> set xs. \<not> afterCursor cur x) \<Longrightarrow> (\<forall>y \<in> set ys. afterCursor cur y)
    \<Longrightarrow> firstAfter cur (xs @ ys) = length xs"
proof (induction xs)
  case Nil
  then show ?case by (cases ys) auto
qed simp

lemma firstAfter_sorted:
  assumes "sorted_wrt list_less xs" and "0 < k" and "k \<le> length xs"
  shows "firstAfter (CreatedAt (xs ! (k - 1)), ID (xs ! (k - 1))) xs = k"
proof -
  let ?l = "xs ! (k - 1)"
  have nth: "list_less (xs ! i) (xs ! j)" if "i < j" "j < length xs" for i j
    using assms(1) that by (simp add: sorted_wrt_iff_nth_less)
  have before: "\<not> list_less ?l y" if y: "y \<in> set (take k xs)" for y
  proof -
    obtain i where ti: "i < length (take k xs)" "take k xs ! i = y"
      using y unfolding in_set_conv_nth by blast
    have i: "i < k" "y = xs ! i" using ti by simp_all
    show ?thesis
    proof (cases "i = k - 1")
      case True
      then show ?thesis using i by (simp add: list_less_def)
    next
      case False
      then have "list_less y ?l" using i nth [of i "k - 1"] assms(2,3) by simp
      then show ?thesis using list_order.asym by blast
    qed
  qed
  have after: "list_less ?l y" if y: "y \<in> set (drop k xs)" for y
  proof -
    obtain j where tj: "j < length (drop k xs)" "drop k xs ! j = y"
      using y unfolding in_set_conv_nth by blast
    have "k + j < length xs" "y = xs ! (k + j)" using tj by auto
    then show ?thesis using nth [of "k - 1" "k + j"] assms(2) by simp
  qed
  have "firstAfter (CreatedAt ?l, ID ?l) (take k xs @ drop k xs) = length (take k xs)"
    by (rule firstAfter_append) (use before after in \<open>auto simp: afterCursor_less\<close>)
  then show ?thesis using assms(3) by simp
qed

text \<open>The cursor at position \<open>k\<close> of a listing, and the page of \<open>n\<close> items found there.\<close>

definition cursorAt :: "env \<Rightarrow> MemoryItem list \<Rightarrow> nat \<Rightarrow> string" where
  "cursorAt E C k = (if k = 0 then '''' else
     (case encodeCursor E (CreatedAt (C ! (k - 1)), ID (C ! (k - 1))) of Inr s \<Rightarrow> s | Inl _ \<Rightarrow> ''''))"

definition pageAt :: "env \<Rightarrow> MemoryItem list \<Rightarrow> nat \<Rightarrow> nat \<Rightarrow> ListPage" where
  "pageAt E C n k = \<lparr>lp_Items = take n (drop k C),
     lp_NextCursor = (if k + n < length C then cursorAt E C (k + n) else '''')\<rparr>"

definition codecs_ok :: "env \<Rightarrow> MemoryItem list \<Rightarrow> bool" where
  "codecs_ok E C \<longleftrightarrow> (\<forall>it \<in> set C. codec_ok E (CreatedAt it, ID it))"

lemma cursorAt_decode:
  assumes "codecs_ok E C" and "0 < k" and "k \<le> length C"
  shows "decodeCursor E (cursorAt E C k) = Inr (CreatedAt (C ! (k - 1)), ID (C ! (k - 1)))"
    and "cursorAt E C k \<noteq> ''''"
    and "encodeCursor E (CreatedAt (C ! (k - 1)), ID (C ! (k - 1))) = Inr (cursorAt E C k)"
proof -
  have "C ! (k - 1) \<in> set C" using assms(2,3) by simp
  then have "codec_ok E (CreatedAt (C ! (k - 1)), ID (C ! (k - 1)))"
    using assms(1) unfolding codecs_ok_def by blast
  from cursor_roundtrip [OF this]
  show "decodeCursor E (cursorAt E C k) = Inr (CreatedAt (C ! (k - 1)), ID (C ! (k - 1)))"
    "cursorAt E C k \<noteq> ''''"
    "encodeCursor E (CreatedAt (C ! (k - 1)), ID (C ! (k - 1))) = Inr (cursorAt E C k)"
    using assms(2) by (auto simp: cursorAt_def)
qed


lemma cutPage_at:
  assumes srt: "sorted_wrt list_less C" and ids: "\<forall>it \<in> set C. ID it \<noteq> ''''"
    and codecs: "codecs_ok E C" and k: "k \<le> length C"
    and n: "0 < n" "int (length C) + int n < 2 ^ 63"
    and cur: "decodeCursor E (cursorAt E C k) = Inr cur"
  shows "cutPage E C (int n) cur = Inr (pageAt E C n k)"
proof -
  have start: "(if \<not> time_IsZero (fst cur) \<or> snd cur \<noteq> '''' then firstAfter cur C else 0) = k"
  proof (cases "k = 0")
    case True
    then have "cur = (0, '''')" using cur by (simp add: cursorAt_def decodeCursor_def)
    then show ?thesis using True by (simp add: time_IsZero_def)
  next
    case False
    then have c: "cur = (CreatedAt (C ! (k - 1)), ID (C ! (k - 1)))"
      using cur cursorAt_decode(1) [OF codecs, of k] k by simp
    have "C ! (k - 1) \<in> set C" using False k by simp
    then have "snd cur \<noteq> ''''" using c ids by simp
    then show ?thesis using c firstAfter_sorted [OF srt, of k] False k by simp
  qed
  have w: "wrap64 (int k + int n) = int k + int n" using n(2) k by (intro wrap64_small) linarith+
  show ?thesis
  proof (cases "k + n < length C")
    case True
    have enc: "encodeCursor E (CreatedAt (C ! (k + n - 1)), ID (C ! (k + n - 1))) = Inr (cursorAt E C (k + n))"
      using cursorAt_decode(3) [OF codecs, of "k + n"] True n(1) by simp
    have "nat (int k + int n) = k + n" by simp
    then show ?thesis using True enc
      unfolding cutPage_def start Let_def w by (simp add: pageAt_def nat_add_distrib)
  next
    case False
    then have "take (length C - k) (drop k C) = take n (drop k C)" by simp
    then show ?thesis using False k
      unfolding cutPage_def start Let_def w by (simp add: pageAt_def)
  qed
qed

lemma listFromStore_page:
  assumes wf: "store_wf s" and codecs: "codecs_ok E (listing E f (heap w) s)"
    and k: "k \<le> length (listing E f (heap w) s)"
    and n: "0 < n" "int (length (listing E f (heap w) s)) + int n < 2 ^ 63"
  shows "listFromStore E f (int n) (cursorAt E (listing E f (heap w) s) k) w s
    = (Inr (pageAt E (listing E f (heap w) s) n k), w\<lparr>tick := Suc (tick w)\<rparr>)"
proof -
  let ?C = "listing E f (heap w) s"
  obtain cur where cur: "decodeCursor E (cursorAt E ?C k) = Inr cur"
  proof (cases "k = 0")
    case True
    then show ?thesis using that by (simp add: cursorAt_def decodeCursor_def)
  next
    case False
    then show ?thesis using that cursorAt_decode(1) [OF codecs _ k] by simp
  qed
  have "cutPage E ?C (int n) cur = Inr (pageAt E ?C n k)"
    by (rule cutPage_at [OF listing_sorted [OF wf] _ codecs k n cur])
      (simp add: listing_ID_not_Nil [OF wf])
  then show ?thesis using n(1) cur by (simp add: listFromStore_eq [OF wf])
qed


section \<open>Properties\<close>

text \<open>
  A client that follows the cursors until a page has none. Fuel bounds the number of pages;
  \<open>None\<close> is running out of it.
\<close>

fun follow :: "nat \<Rightarrow> env \<Rightarrow> ListFilter \<Rightarrow> int \<Rightarrow> string \<Rightarrow> 'z world_scheme \<Rightarrow> scoredStore
    \<Rightarrow> (error + MemoryItem list) option" where
  "follow 0 E f n cursor w s = None"
| "follow (Suc fuel) E f n cursor w s = (case listFromStore E f n cursor w s of
       (Inl err, w) \<Rightarrow> Some (Inl err)
     | (Inr page, w) \<Rightarrow>
         if lp_NextCursor page = '''' then Some (Inr (lp_Items page))
         else case follow fuel E f n (lp_NextCursor page) w s of
                Some (Inr rest) \<Rightarrow> Some (Inr (lp_Items page @ rest))
              | r \<Rightarrow> r)"

lemma follow_from:
  assumes wf: "store_wf s" and n: "0 < n" "int (length C) + int n < 2 ^ 63"
    and C: "C = listing E f h s" and codecs: "codecs_ok E C"
  shows "k \<le> length C \<Longrightarrow> length C - k < fuel \<Longrightarrow> heap w = h \<Longrightarrow>
    follow fuel E f (int n) (cursorAt E C k) w s = Some (Inr (drop k C))"
proof (induction fuel arbitrary: k w)
  case 0
  then show ?case by simp
next
  case (Suc fuel)
  have page: "listFromStore E f (int n) (cursorAt E C k) w s = (Inr (pageAt E C n k), w\<lparr>tick := Suc (tick w)\<rparr>)"
    using listFromStore_page [OF wf, of E f w k n] codecs C n Suc.prems by simp
  show ?case
  proof (cases "k + n < length C")
    case True
    have "cursorAt E C (k + n) \<noteq> ''''"
      using cursorAt_decode(2) [OF codecs, of "k + n"] True n(1) by simp
    moreover have "follow fuel E f (int n) (cursorAt E C (k + n)) (w\<lparr>tick := Suc (tick w)\<rparr>) s
        = Some (Inr (drop (k + n) C))"
      using True n(1) Suc.prems by (intro Suc.IH) simp_all
    moreover have "take n (drop k C) @ drop (k + n) C = drop k C"
      using append_take_drop_id [of n "drop k C"] by (simp add: add.commute)
    ultimately show ?thesis using page True by (simp add: pageAt_def)
  next
    case False
    then show ?thesis using page by (simp add: pageAt_def)
  qed
qed

text \<open>
  C3. Pagination is complete: following the cursors from the start ends within one page per
  item plus one, without an error, and the pages put together are exactly the items that
  match the filter, each once, newest first and by identifier within one instant, for
  every page size and whatever order the map is ranged over on each call.
\<close>

theorem pagination_complete:
  assumes "store_wf s" and "codecs_ok E (listing E f (heap w) s)"
    and "0 < n" and "int (length (listing E f (heap w) s)) + int n < 2 ^ 63"
  shows "\<exists>its. follow (Suc (length (items s))) E f (int n) '''' w s = Some (Inr its)
    \<and> set its = {it \<in> snd ` set (items s). matchesFilter E (heap w) it f}
    \<and> sorted_wrt list_less its \<and> distinct its"
proof -
  let ?C = "listing E f (heap w) s"
  have "length ?C \<le> length (items s)"
    using length_filter_le [of "\<lambda>it. matchesFilter E (heap w) it f" "map snd (items s)"]
    by (simp add: listing_def)
  then have "follow (Suc (length (items s))) E f (int n) (cursorAt E ?C 0) w s = Some (Inr (drop 0 ?C))"
    by (intro follow_from [OF assms(1,3,4) refl assms(2)]) simp_all
  moreover have "distinct ?C"
    using listing_sorted [OF assms(1)] list_order.asym
    by (metis (no_types, lifting) sorted_wrt_iff_nth_less distinct_conv_nth linorder_neqE_nat)
  ultimately show ?thesis
    using set_listing [of E f "heap w" s] listing_sorted [OF assms(1), of E f "heap w"]
    by (simp add: cursorAt_def)
qed

lemma sample_codecs: "\<forall>it \<in> set C. 0 \<le> CreatedAt it \<Longrightarrow> codecs_ok sampleEnv C"
proof -
  assume C: "\<forall>it \<in> set C. 0 \<le> CreatedAt it"
  have "codec_ok sampleEnv (CreatedAt it, ID it)" if "it \<in> set C" for it
    using sample_codec [of "CreatedAt it" "ID it"] C that by (auto simp: codec_ok_def)
  then show ?thesis by (simp add: codecs_ok_def)
qed

definition listStore :: scoredStore where
  "listStore = (newScoredStore ''wrk'' sampleEmbedder)\<lparr>items :=
     [(''a'', (sampleItem ''a'' ''x'')\<lparr>CreatedAt := 5\<rparr>), (''b'', (sampleItem ''b'' ''y'')\<lparr>CreatedAt := 9\<rparr>)]\<rparr>"

lemma listStore_wf: "store_wf listStore"
  by (simp add: store_wf_def mwf_def listStore_def newScoredStore_def)

lemma listStore_codecs: "codecs_ok sampleEnv (listing sampleEnv f (heap sampleWorld) listStore)"
  by (rule sample_codecs) (auto simp: set_listing listStore_def)

lemma listStore_length: "length (listing sampleEnv f h listStore) \<le> 2"
  using length_filter_le [of "\<lambda>it. matchesFilter sampleEnv h it f" "map snd (items listStore)"]
  by (simp add: listing_def) (simp add: listStore_def)

theorem pagination_complete_witness:
  "\<exists>its. follow 3 sampleEnv zeroFilter 1 '''' sampleWorld listStore = Some (Inr its)
    \<and> sorted_wrt list_less its"
proof -
  have l: "length (items listStore) = 2" by (simp add: listStore_def)
  have "int (length (listing sampleEnv zeroFilter (heap sampleWorld) listStore)) + int 1 < 2 ^ 63"
    using listStore_length [of zeroFilter "heap sampleWorld"] by simp
  from pagination_complete [OF listStore_wf listStore_codecs _ this] l show ?thesis
    by (simp add: numeral_3_eq_3) metis
qed

text \<open>
  Cursors survive the round trip: whatever instant and identifier the JSON codec can
  carry, encoding succeeds with a non-empty text that decodes to the same pair.
\<close>

theorem cursor_encode_decode:
  "codec_ok E cur \<Longrightarrow> \<exists>s. encodeCursor E cur = Inr s \<and> s \<noteq> '''' \<and> decodeCursor E s = Inr cur"
  by (rule cursor_roundtrip)

theorem cursor_encode_decode_witness:
  "\<exists>s. encodeCursor sampleEnv (7, ''wrk_1_1'') = Inr s \<and> decodeCursor sampleEnv s = Inr (7, ''wrk_1_1'')"
proof -
  have "codec_ok sampleEnv (7, ''wrk_1_1'')"
    using sample_codec [of 7 "''wrk_1_1''"] by (auto simp: codec_ok_def)
  from cursor_encode_decode [OF this] show ?thesis by blast
qed

text \<open>
  The end of a page is computed with machine integers: asked for a page whose size added
  to the cursor's position passes the largest integer, the listing panics on a slice bound
  instead of returning the rest.
\<close>

theorem huge_page_panics:
  assumes "store_wf s" and "codecs_ok E (listing E f (heap w) s)"
    and "0 < k" and "k \<le> length (listing E f (heap w) s)"
    and "n < 2 ^ 63" and "2 ^ 63 \<le> int k + n" and "int (length (listing E f (heap w) s)) < 2 ^ 62"
  shows "fst (listFromStore E f n (cursorAt E (listing E f (heap w) s) k) w s)
    = Inl (ErrPanic ''slice bounds out of range'')"
proof -
  let ?C = "listing E f (heap w) s" and ?l = "listing E f (heap w) s ! (k - 1)"
  have "?l \<in> set ?C" using assms(3,4) by simp
  then have "ID ?l \<noteq> ''''" by (rule listing_ID_not_Nil [OF assms(1)])
  moreover have "firstAfter (CreatedAt ?l, ID ?l) ?C = k"
    using firstAfter_sorted [OF listing_sorted [OF assms(1)] assms(3,4)] .
  moreover have "wrap64 (int k + n) < int k"
  proof -
    have "int k < 2 ^ 62" using assms(4,7) by linarith
    then have "(int k + n - 2 ^ 63) mod 2 ^ 64 = int k + n - 2 ^ 63"
      using assms(5,6) by (intro mod_pos_pos_trivial) simp_all
    moreover have "(int k + n + 2 ^ 63) mod 2 ^ 64 = (int k + n - 2 ^ 63) mod 2 ^ 64"
      using minus_mod_self2 [of "int k + n + 2 ^ 63" "2 ^ 64"] by simp
    ultimately have "(int k + n + 2 ^ 63) mod 2 ^ 64 = int k + n - 2 ^ 63" by simp
    then show ?thesis using assms(5) by (simp add: wrap64_def)
  qed
  moreover have "\<not> n \<le> 0"
  proof -
    have "int k \<le> int (length ?C)" using assms(4) by simp
    then show ?thesis using assms(6,7) by simp
  qed
  ultimately show ?thesis
    using cursorAt_decode(1) [OF assms(2,3,4)] assms(4)
    by (simp add: listFromStore_eq [OF assms(1)] cutPage_def Let_def)
qed

theorem huge_page_panics_witness:
  "fst (listFromStore sampleEnv zeroFilter (2 ^ 63 - 1)
      (cursorAt sampleEnv (listing sampleEnv zeroFilter (heap sampleWorld) listStore) 1) sampleWorld listStore)
    = Inl (ErrPanic ''slice bounds out of range'')"
proof -
  have "length (listing sampleEnv zeroFilter (heap sampleWorld) listStore) = 2"
    by (simp add: listing_def listStore_def matchesFilter_def zeroFilter_def IsDisabled_def meta_of_def
        sample_flag_def)
  then show ?thesis
    using huge_page_panics [OF listStore_wf listStore_codecs, of 1 zeroFilter "2 ^ 63 - 1"] by simp
qed

end
