(* ===== verification/Persistence.thy ===== *)
theory Persistence
  imports ScoredStore
begin

text \<open>
  \<^verbatim>\<open>engine_persistence.go\<close>: the snapshot of a store and its import in the three
  modes; and the states a store can reach through all its operations.
\<close>


section \<open>Export\<close>

text \<open>Indexing a map of items: a missing key is the zero item.\<close>

definition itemAt :: "(string, MemoryItem) gomap \<Rightarrow> string \<Rightarrow> MemoryItem" where
  "itemAt its i = (case mget its i of Some it \<Rightarrow> it | None \<Rightarrow> zeroItem)"

definition export_less :: "(string, MemoryItem) gomap \<Rightarrow> string \<Rightarrow> string \<Rightarrow> bool" where
  "export_less its a b =
     (let ai = itemAt its a; aj = itemAt its b
      in if CreatedAt ai \<noteq> CreatedAt aj then CreatedAt ai < CreatedAt aj else a < b)"

definition exportFromStore :: "env \<Rightarrow> Kind \<Rightarrow> 'z world_scheme \<Rightarrow> scoredStore
    \<Rightarrow> Snapshot \<times> 'z world_scheme" where
  "exportFromStore E kind w s =
     (let (its, vecs) = snapshot s;
          (ids, w) = go_range E (map fst its) w;
          ids = sort_by (export_less its) ids
      in (\<lparr>sn_Version = c_SnapshotVersion E, sn_Kind = kind,
           sn_Items = map (\<lambda>i. \<lparr>si_Item = itemAt its i, si_Vector = vectorAt vecs i\<rparr>) ids\<rparr>, w))"


section \<open>Import\<close>

definition emptyIDError :: error where
  "emptyIDError = ErrText ''memory: snapshot item with empty ID, skipped''"

definition put_vector :: "string \<Rightarrow> vector \<Rightarrow> scoredStore \<Rightarrow> scoredStore" where
  "put_vector i v s = (case v of
       None \<Rightarrow> s
     | Some xs \<Rightarrow> s\<lparr>vectors := mput i (Some xs) (vectors s)\<rparr>)"

fun import_loop :: "ImportMode \<Rightarrow> SnapshotItem list \<Rightarrow> ImportReport \<Rightarrow> scoredStore
    \<Rightarrow> (ImportReport \<times> error option) \<times> scoredStore" where
  "import_loop mode [] rpt s = ((rpt, None), s)"
| "import_loop mode (si # sis) rpt s =
     (let i = ID (si_Item si)
      in if i = '''' then
           import_loop mode sis (rpt\<lparr>ir_Errors := ir_Errors rpt @ [emptyIDError]\<rparr>) s
         else
           let ex = mget (items s) i \<noteq> None;
               put = s\<lparr>items := mput i (si_Item si) (items s)\<rparr>
           in case mode of
                ImportMerge \<Rightarrow>
                  if ex then import_loop mode sis (rpt\<lparr>ir_Skipped := ir_Skipped rpt + 1\<rparr>) s
                  else import_loop mode sis (rpt\<lparr>ir_Loaded := ir_Loaded rpt + 1\<rparr>)
                         (put_vector i (si_Vector si) put)
              | ImportUpsert \<Rightarrow>
                  let s' = (if si_Vector si \<noteq> None then put_vector i (si_Vector si) put
                            else put\<lparr>vectors := mdel i (vectors put)\<rparr>)
                  in import_loop mode sis
                       (if ex then rpt\<lparr>ir_Replaced := ir_Replaced rpt + 1\<rparr>
                        else rpt\<lparr>ir_Loaded := ir_Loaded rpt + 1\<rparr>) s'
              | ImportReplace \<Rightarrow>
                  import_loop mode sis (rpt\<lparr>ir_Loaded := ir_Loaded rpt + 1\<rparr>)
                    (put_vector i (si_Vector si) put)
              | ImportOther m \<Rightarrow>
                  ((rpt, Some (ErrText (''memory: unknown import mode '' @ m))), s))"

definition importIntoStore :: "env \<Rightarrow> Snapshot \<Rightarrow> ImportMode \<Rightarrow> scoredStore
    \<Rightarrow> (ImportReport \<times> error option) \<times> scoredStore" where
  "importIntoStore E snap mode s =
     (if sn_Version snap \<noteq> c_SnapshotVersion E then
        ((zeroReport, Some (ErrWrap ''version'' ErrSnapshotVersionMismatch)), s)
      else
        let s = (if mode = ImportReplace then s\<lparr>items := [], vectors := []\<rparr> else s)
        in import_loop mode (sn_Items snap) zeroReport s)"


section \<open>Facts\<close>

interpretation export_order: keyed_comparator "export_less its" "\<lambda>_. True" "\<lambda>i. i" for its
  by unfold_locales (auto simp: export_less_def Let_def split: if_splits)

lemma itemAt_in: "mwf its \<Longrightarrow> (i, it) \<in> set its \<Longrightarrow> itemAt its i = it"
  by (simp add: itemAt_def in_mget_Some)

lemma put_vector_items [simp]: "items (put_vector i v s) = items s"
  by (simp add: put_vector_def split: option.splits)

lemma put_vector_vectors:
  "vectors (put_vector i v s) = (case v of None \<Rightarrow> vectors s | Some xs \<Rightarrow> mput i (Some xs) (vectors s))"
  by (simp add: put_vector_def split: option.splits)

text \<open>One imported item, in any of the modes, keeps the invariant.\<close>

lemma store_wf_put_vector:
  assumes "store_wf s" and "ID it = i" and "i \<noteq> ''''"
  shows "store_wf (put_vector i v (s\<lparr>items := mput i it (items s)\<rparr>))"
proof (cases v)
  case None
  then show ?thesis using assms by (simp add: put_vector_def store_wf_put_item)
next
  case (Some xs)
  then show ?thesis using store_wf_put [OF assms, of "Some xs"] by (simp add: put_vector_def)
qed

lemma store_wf_drop_vector:
  assumes "store_wf s" and "ID it = i" and "i \<noteq> ''''"
  shows "store_wf (s\<lparr>items := mput i it (items s), vectors := mdel i (vectors s)\<rparr>)"
proof -
  have "store_wf (s\<lparr>items := mput i it (items s)\<rparr>)" by (rule store_wf_put_item [OF assms])
  then show ?thesis unfolding store_wf_def by (auto simp: in_set_mdel)
qed

lemma import_loop_wf:
  assumes "store_wf s"
  shows "store_wf (snd (import_loop mode sis rpt s))"
  using assms
proof (induction mode sis rpt s rule: import_loop.induct)
  case (1 mode rpt s)
  then show ?case by simp
next
  case (2 mode si sis rpt s)
  show ?case
  proof (cases "ID (si_Item si) = ''''")
    case True
    then show ?thesis using 2 by simp
  next
    case False
    note put = store_wf_put_vector [OF "2.prems" refl False]
      and drp = store_wf_drop_vector [OF "2.prems" refl False]
    show ?thesis using 2 False put drp
      by (cases mode) (auto simp: Let_def)
  qed
qed

lemma importIntoStore_wf: "store_wf s \<Longrightarrow> store_wf (snd (importIntoStore E snap mode s))"
proof -
  assume s: "store_wf s"
  have e: "store_wf (s\<lparr>items := [], vectors := []\<rparr>)" by (simp add: store_wf_def)
  show ?thesis using s e by (simp add: importIntoStore_def Let_def import_loop_wf)
qed

text \<open>Every item of the snapshot is accounted for in the report.\<close>

definition report_total :: "ImportReport \<Rightarrow> nat" where
  "report_total rpt = ir_Loaded rpt + ir_Replaced rpt + ir_Skipped rpt + length (ir_Errors rpt)"

lemma import_loop_total:
  assumes "\<forall>m. mode \<noteq> ImportOther m"
  shows "\<exists>rpt'. fst (import_loop mode sis rpt s) = (rpt', None)
    \<and> report_total rpt' = report_total rpt + length sis"
  using assms
proof (induction mode sis rpt s rule: import_loop.induct)
  case (1 mode rpt s)
  then show ?case by simp
next
  case (2 mode si sis rpt s)
  then show ?case
    by (cases mode) (auto simp: Let_def report_total_def)
qed


section \<open>Abstract specification of the import\<close>

text \<open>
  Seen as a partial map from identifiers to items, an import with replacement or
  upsert overwrites entry by entry, and a merge only fills the gaps.
\<close>

definition overwrite_spec :: "SnapshotItem list \<Rightarrow> (string \<rightharpoonup> MemoryItem) \<Rightarrow> (string \<rightharpoonup> MemoryItem)" where
  "overwrite_spec sis m =
     foldl (\<lambda>m si. if ID (si_Item si) = [] then m else m(ID (si_Item si) \<mapsto> si_Item si)) m sis"

definition fill_spec :: "SnapshotItem list \<Rightarrow> (string \<rightharpoonup> MemoryItem) \<Rightarrow> (string \<rightharpoonup> MemoryItem)" where
  "fill_spec sis m =
     foldl (\<lambda>m si. if ID (si_Item si) = [] \<or> m (ID (si_Item si)) \<noteq> None then m
                  else m(ID (si_Item si) \<mapsto> si_Item si)) m sis"

lemma mget_mput_fun: "mget (mput k v m) = (mget m)(k \<mapsto> v)"
  by (rule update_conv')

lemma import_loop_refines_overwrite:
  assumes "mode = ImportReplace \<or> mode = ImportUpsert"
  shows "mget (items (snd (import_loop mode sis rpt s))) = overwrite_spec sis (mget (items s))"
proof (induction sis arbitrary: rpt s)
  case Nil
  then show ?case by (simp add: overwrite_spec_def)
next
  case (Cons si sis)
  from assms show ?case
  proof
    assume "mode = ImportReplace"
    then show ?thesis using Cons by (simp add: overwrite_spec_def mget_mput_fun Let_def)
  next
    assume "mode = ImportUpsert"
    then show ?thesis using Cons by (simp add: overwrite_spec_def mget_mput_fun Let_def)
  qed
qed

lemma import_loop_refines_fill:
  "mget (items (snd (import_loop ImportMerge sis rpt s))) = fill_spec sis (mget (items s))"
proof (induction sis arbitrary: rpt s)
  case Nil
  then show ?case by (simp add: fill_spec_def)
next
  case (Cons si sis)
  then show ?case by (simp add: fill_spec_def mget_mput_fun Let_def)
qed

lemma fill_spec_Cons:
  "fill_spec (si # sis) m = fill_spec sis
     (if ID (si_Item si) = [] \<or> m (ID (si_Item si)) \<noteq> None then m else m(ID (si_Item si) \<mapsto> si_Item si))"
  by (simp add: fill_spec_def)

lemma fill_spec_keeps: "m k = Some it \<Longrightarrow> fill_spec sis m k = Some it"
proof (induction sis arbitrary: m)
  case Nil
  then show ?case by (simp add: fill_spec_def)
next
  case (Cons si sis)
  then show ?case unfolding fill_spec_Cons by (intro Cons.IH) auto
qed

lemma fill_spec_new:
  "m k = None \<Longrightarrow> fill_spec sis m k = Some it \<Longrightarrow> \<exists>si \<in> set sis. si_Item si = it \<and> ID it = k"
proof (induction sis arbitrary: m)
  case Nil
  then show ?case by (simp add: fill_spec_def)
next
  case (Cons si sis)
  show ?case
  proof (cases "ID (si_Item si) = k \<and> k \<noteq> []")
    case True
    then have "fill_spec (si # sis) m k = Some (si_Item si)"
      using Cons.prems(1) by (simp add: fill_spec_Cons fill_spec_keeps)
    then show ?thesis using Cons.prems(2) True by auto
  next
    case False
    let ?m = "if ID (si_Item si) = [] \<or> m (ID (si_Item si)) \<noteq> None then m
      else m(ID (si_Item si) \<mapsto> si_Item si)"
    have "?m k = None" using False Cons.prems(1) by auto
    moreover have "fill_spec sis ?m k = Some it" using Cons.prems(2) by (simp only: fill_spec_Cons)
    ultimately have "\<exists>si \<in> set sis. si_Item si = it \<and> ID it = k" by (rule Cons.IH)
    then show ?thesis by auto
  qed
qed


section \<open>What an export contains\<close>

definition exportedItem :: "scoredStore \<Rightarrow> string \<Rightarrow> SnapshotItem" where
  "exportedItem s i = \<lparr>si_Item = itemAt (items s) i, si_Vector = vectorAt (snd (snapshot s)) i\<rparr>"

definition exportedIDs :: "scoredStore \<Rightarrow> string list" where
  "exportedIDs s = sort_by (export_less (items s)) (map fst (items s))"

lemma exportFromStore_eq:
  assumes "store_wf s"
  shows "exportFromStore E kind w s =
    (\<lparr>sn_Version = c_SnapshotVersion E, sn_Kind = kind, sn_Items = map (exportedItem s) (exportedIDs s)\<rparr>,
     w\<lparr>tick := Suc (tick w)\<rparr>)"
proof -
  have d: "distinct (map fst (items s))" using store_wfD(1) [OF assms] by (simp add: mwf_def)
  have "sort_by (export_less (items s)) (fst (go_range E (map fst (items s)) w)) = exportedIDs s"
    unfolding exportedIDs_def
    by (rule export_order.sort_by_perm_unique) (simp_all add: go_range_def d)
  then show ?thesis
    by (simp add: exportFromStore_def go_range_def snapshot_def exportedItem_def Let_def)
qed

lemma set_exportedIDs [simp]: "set (exportedIDs s) = mkeys (items s)"
  by (simp add: exportedIDs_def)

lemma length_exportedIDs [simp]: "length (exportedIDs s) = length (items s)"
  by (simp add: exportedIDs_def)

lemma exportedItem_ID:
  assumes "store_wf s" and "i \<in> mkeys (items s)"
  shows "ID (si_Item (exportedItem s i)) = i" and "i \<noteq> []"
    and "mget (items s) i = Some (si_Item (exportedItem s i))"
proof -
  obtain it where it: "mget (items s) i = Some it"
    using assms(2) mget_None_iff [of "items s" i] by (cases "mget (items s) i") auto
  then show "ID (si_Item (exportedItem s i)) = i" "i \<noteq> []"
    "mget (items s) i = Some (si_Item (exportedItem s i))"
    using store_wfD(4) [OF assms(1) it] by (simp_all add: exportedItem_def itemAt_def)
qed

text \<open>Importing exported items one by one, from any store.\<close>

lemma overwrite_exported:
  assumes "store_wf s" and "set ids \<subseteq> mkeys (items s)"
  shows "overwrite_spec (map (exportedItem s) ids) m k =
    (if k \<in> set ids then mget (items s) k else m k)"
  using assms(2)
proof (induction ids arbitrary: m)
  case Nil
  then show ?case by (simp add: overwrite_spec_def)
next
  case (Cons i ids)
  have i: "i \<in> mkeys (items s)" using Cons.prems by simp
  note ex = exportedItem_ID [OF assms(1) i]
  have "overwrite_spec (map (exportedItem s) (i # ids)) m =
      overwrite_spec (map (exportedItem s) ids) (m(i \<mapsto> si_Item (exportedItem s i)))"
    using ex(1,2) by (simp add: overwrite_spec_def)
  then show ?case using Cons ex(3) by simp
qed

lemma import_replace_vectors:
  assumes "store_wf s" and "set ids \<subseteq> mkeys (items s)"
  shows "vectorAt (vectors (snd (import_loop ImportReplace (map (exportedItem s) ids) rpt t))) k =
    (if k \<in> set ids \<and> vectorAt (snd (snapshot s)) k \<noteq> None then vectorAt (snd (snapshot s)) k
     else vectorAt (vectors t) k)"
  using assms(2)
proof (induction ids arbitrary: rpt t)
  case Nil
  then show ?case by simp
next
  case (Cons i ids)
  have i: "i \<in> mkeys (items s)" using Cons.prems by simp
  note ex = exportedItem_ID [OF assms(1) i]
  show ?case using Cons ex(1,2)
    by (cases "vectorAt (snd (snapshot s)) i")
      (auto simp: Let_def exportedItem_def put_vector_def vectorAt_def)
qed


section \<open>Reachable stores\<close>

text \<open>
  The stores a program can produce from a new one with any sequence of operations, at any
  time and with any metadata heap. An updater keeps the identifier of the item it is given.
\<close>

inductive store_reach :: "env \<Rightarrow> string \<Rightarrow> Embedder \<Rightarrow> scoredStore \<Rightarrow> bool" for E p e where
  reach_new: "store_reach E p e (newScoredStore p e)"
| reach_add: "store_reach E p e s \<Longrightarrow> store_add E c item (w :: world) s = (r, w', s') \<Longrightarrow> store_reach E p e s'"
| reach_get: "store_reach E p e s \<Longrightarrow> store_get E i (w :: world) s = (g, w', s') \<Longrightarrow> store_reach E p e s'"
| reach_update: "store_reach E p e s \<Longrightarrow> keepsID fn \<Longrightarrow> store_update E c i fn (w :: world) s = (u, w', s')
    \<Longrightarrow> store_reach E p e s'"
| reach_remove: "store_reach E p e s \<Longrightarrow> store_remove i s = (u, s') \<Longrightarrow> store_reach E p e s'"
| reach_import: "store_reach E p e s \<Longrightarrow> importIntoStore E snap mode s = (rpt, s') \<Longrightarrow> store_reach E p e s'"

text \<open>
  C6. The store invariant holds in every state reached through additions, reads, removals,
  imports and updates that keep the identifier of the item: both maps have distinct keys, each
  item is stored under its own non-empty identifier, and there is no vector without an item.
  (The code leaves it to the caller that an update keeps the identifier.)
\<close>

theorem reachable_store_wf: "store_reach E p e s \<Longrightarrow> store_wf s"
proof (induction rule: store_reach.induct)
  case reach_new
  show ?case by (rule store_wf_new)
next
  case (reach_add s c item w r w' s')
  show ?case by (rule store_add_wf [OF reach_add.IH reach_add.hyps(2)])
next
  case (reach_get s i w g w' s')
  show ?case by (rule store_get_wf [OF reach_get.IH reach_get.hyps(2)])
next
  case (reach_update s fn c i w u w' s')
  show ?case by (rule store_update_wf [OF reach_update.IH reach_update.hyps(2,3)])
next
  case (reach_remove s i u s')
  show ?case by (rule store_remove_wf [OF reach_remove.IH reach_remove.hyps(2)])
next
  case (reach_import s snap mode rpt s')
  show ?case using importIntoStore_wf [OF reach_import.IH, of E snap mode] reach_import.hyps(2) by simp
qed

theorem reachable_store_wf_witness:
  "store_wf (snd (store_remove ''k'' (snd (snd (store_add sampleEnv sampleCtx (sampleItem ''k'' ''hello'')
     sampleWorld (newScoredStore ''wrk'' sampleEmbedder))))))"
  (is "store_wf (snd (store_remove _ (snd (snd ?A))))")
proof -
  have "store_reach sampleEnv ''wrk'' sampleEmbedder (snd (snd ?A))"
    by (rule reach_add [OF reach_new, where c = sampleCtx and item = "sampleItem ''k'' ''hello''"
          and w = sampleWorld and r = "fst ?A" and w' = "fst (snd ?A)"]) simp
  then have "store_reach sampleEnv ''wrk'' sampleEmbedder (snd (store_remove ''k'' (snd (snd ?A))))"
    by (rule reach_remove [where i = "''k''" and u = "fst (store_remove ''k'' (snd (snd ?A)))"]) simp
  then show ?thesis by (rule reachable_store_wf)
qed


section \<open>Properties of snapshots\<close>

text \<open>
  C19. Exporting a store and importing the snapshot into any other store with replacement
  copies it: afterwards the two stores hold the same items under the same identifiers, the
  vectors agree wherever the source has one, and the report counts every item as loaded.
\<close>

theorem export_import_roundtrip:
  assumes "store_wf s" and "exportFromStore E kind w s = (snap, w')"
    and "importIntoStore E snap ImportReplace t = ((rpt, err), t')"
  shows "err = None \<and> mget (items t') = mget (items s)
    \<and> (\<forall>i. vectorAt (vectors t') i = vectorAt (snd (snapshot s)) i)
    \<and> report_total rpt = length (items s) \<and> store_wf t'"
proof -
  let ?ids = "exportedIDs s" and ?t0 = "t\<lparr>items := [], vectors := []\<rparr>"
  have snap: "snap = \<lparr>sn_Version = c_SnapshotVersion E, sn_Kind = kind, sn_Items = map (exportedItem s) ?ids\<rparr>"
    using assms(2) exportFromStore_eq [OF assms(1), of E kind w] by simp
  have imp: "import_loop ImportReplace (map (exportedItem s) ?ids) zeroReport ?t0 = ((rpt, err), t')"
    using assms(3) snap by (simp add: importIntoStore_def)
  have tot: "err = None" "report_total rpt = length (items s)"
    using import_loop_total [of ImportReplace "map (exportedItem s) ?ids" zeroReport ?t0] imp
    by (auto simp: report_total_def zeroReport_def)
  have "mget (items t') k = mget (items s) k" for k
  proof -
    have "mget (items t') = overwrite_spec (map (exportedItem s) ?ids) Map.empty"
      using import_loop_refines_overwrite [of ImportReplace "map (exportedItem s) ?ids" zeroReport ?t0] imp
      by simp
    then show ?thesis
      using overwrite_exported [OF assms(1), of ?ids Map.empty k] mget_None_iff [of "items s" k]
      by (cases "k \<in> mkeys (items s)") simp_all
  qed
  moreover have "vectorAt (vectors t') k = vectorAt (snd (snapshot s)) k" for k
  proof -
    have none: "vectorAt (snd (snapshot s)) k = None" if "k \<notin> mkeys (items s)"
    proof -
      have "k \<notin> mkeys (vectors s)" using that store_wfD(3) [OF assms(1)] by (rule contra_subsetD [rotated])
      then have "mget (vectors s) k = None" by (simp only: mget_None_iff not_False_eq_True)
      then show ?thesis by (simp add: vectorAt_snapshot)
    qed
    have "vectorAt (vectors ?t0) k = None" by (simp add: vectorAt_def)
    then show ?thesis
      using import_replace_vectors [OF assms(1), of ?ids zeroReport ?t0 k] imp none by auto
  qed
  moreover have "store_wf t'"
    using import_loop_wf [of ?t0 ImportReplace "map (exportedItem s) ?ids" zeroReport] imp
    by (simp add: store_wf_def)
  ultimately show ?thesis using tot by auto
qed

theorem export_import_roundtrip_witness:
  "mget (items (snd (importIntoStore sampleEnv (fst (exportFromStore sampleEnv KindWorking sampleWorld
      (sampleStore sampleEmbedder))) ImportReplace (newScoredStore ''epi'' sampleEmbedder)))) ''k''
    = Some (sampleItem ''k'' ''old'')"
  (is "mget (items (snd ?I)) _ = _")
  using export_import_roundtrip [of "sampleStore sampleEmbedder" sampleEnv KindWorking sampleWorld
      "fst (exportFromStore sampleEnv KindWorking sampleWorld (sampleStore sampleEmbedder))"
      "snd (exportFromStore sampleEnv KindWorking sampleWorld (sampleStore sampleEmbedder))"
      "newScoredStore ''epi'' sampleEmbedder" "fst (fst ?I)" "snd (fst ?I)" "snd ?I"]
  by (simp add: sampleStore_wf)

text \<open>
  A merging import never touches an existing item, and what it adds comes from the
  snapshot under the identifier the snapshot gives it.
\<close>

theorem merge_keeps_existing:
  assumes "importIntoStore E snap ImportMerge s = (rpt, s')"
  shows "(\<forall>i it. mget (items s) i = Some it \<longrightarrow> mget (items s') i = Some it)
    \<and> (\<forall>i it. mget (items s) i = None \<longrightarrow> mget (items s') i = Some it \<longrightarrow>
         (\<exists>si \<in> set (sn_Items snap). si_Item si = it \<and> ID it = i))"
proof (cases "sn_Version snap = c_SnapshotVersion E")
  case True
  then have "mget (items s') = fill_spec (sn_Items snap) (mget (items s))"
    using assms import_loop_refines_fill [of "sn_Items snap" zeroReport s]
    by (simp add: importIntoStore_def)
  then show ?thesis by (auto intro: fill_spec_keeps dest: fill_spec_new)
next
  case False
  then show ?thesis using assms by (auto simp: importIntoStore_def)
qed

definition sampleSnapshot :: Snapshot where
  "sampleSnapshot = \<lparr>sn_Version = 1, sn_Kind = KindWorking, sn_Items =
     [\<lparr>si_Item = sampleItem ''k'' ''new'', si_Vector = None\<rparr>,
      \<lparr>si_Item = sampleItem ''l'' ''new'', si_Vector = Some [Fin 1, Fin 0]\<rparr>]\<rparr>"

theorem merge_keeps_existing_witness:
  "mget (items (snd (importIntoStore sampleEnv sampleSnapshot ImportMerge (sampleStore sampleEmbedder)))) ''k''
    = Some (sampleItem ''k'' ''old'')"
  (is "mget (items (snd ?I)) _ = _")
  using merge_keeps_existing [of sampleEnv sampleSnapshot "sampleStore sampleEmbedder" "fst ?I" "snd ?I"]
  by simp

text \<open>
  Accounting: in each of the three modes an import of a snapshot of the right version
  succeeds, and every item of the snapshot is counted exactly once, as loaded, replaced,
  skipped or rejected. A snapshot of another version, or an unknown mode on a non-empty
  snapshot, is an error.
\<close>

theorem import_accounts_for_all:
  assumes "importIntoStore E snap mode s = ((rpt, err), s')"
  shows "if sn_Version snap \<noteq> c_SnapshotVersion E
         then (\<exists>e. err = Some e \<and> errors_Is e ErrSnapshotVersionMismatch) \<and> s' = s
         else case mode of
                ImportOther m \<Rightarrow> err = None \<longrightarrow> (\<forall>si \<in> set (sn_Items snap). ID (si_Item si) = '''')
              | _ \<Rightarrow> err = None \<and> report_total rpt = length (sn_Items snap)"
proof -
  have other: "(\<forall>si \<in> set sis. ID (si_Item si) = [])" if "import_loop (ImportOther m) sis r t = ((r', None), t')"
    for m sis r t r' t'
    using that by (induction sis arbitrary: r) (auto simp: Let_def split: if_splits)
  have z: "report_total zeroReport = 0" by (simp add: report_total_def zeroReport_def)
  show ?thesis
  proof (cases "sn_Version snap \<noteq> c_SnapshotVersion E")
    case True
    then show ?thesis using assms by (auto simp: importIntoStore_def)
  next
    case False
    define s0 where "s0 = (if mode = ImportReplace then s\<lparr>items := [], vectors := []\<rparr> else s)"
    have loop: "import_loop mode (sn_Items snap) zeroReport s0 = ((rpt, err), s')"
      using assms False by (simp add: importIntoStore_def s0_def Let_def)
    show ?thesis
    proof (cases "\<exists>m. mode = ImportOther m")
      case True
      then show ?thesis using False loop other by auto
    next
      case no: False
      then have "err = None \<and> report_total rpt = length (sn_Items snap)"
        using import_loop_total [of mode "sn_Items snap" zeroReport s0] loop z by auto
      then show ?thesis using False no by (cases mode) auto
    qed
  qed
qed

theorem import_accounts_for_all_witness:
  "report_total (fst (fst (importIntoStore sampleEnv sampleSnapshot ImportMerge (sampleStore sampleEmbedder)))) = 2"
  (is "report_total (fst (fst ?I)) = 2")
  using import_accounts_for_all [of sampleEnv sampleSnapshot ImportMerge "sampleStore sampleEmbedder"
      "fst (fst ?I)" "snd (fst ?I)" "snd ?I"]
  by (simp add: sampleSnapshot_def)

end
