(* ===== verification/Working.thy ===== *)
theory Working
  imports Ranking Listing Persistence
begin

text \<open>
  \<^verbatim>\<open>engine_working.go\<close>: the working memory, a bounded store that evicts the item
  with the lowest score against the content just added.
\<close>


section \<open>State and constructor\<close>

record WorkingOptions =
  wo_Capacity :: int
  wo_Decay :: duration
  wo_SavedBoost :: float64

record WorkingMemory =
  wm_store :: scoredStore
  wm_opts :: WorkingOptions

definition NewWorking :: "Embedder option \<Rightarrow> WorkingOptions \<Rightarrow> error + WorkingMemory" where
  "NewWorking e opts = (case e of
       None \<Rightarrow> Inl ErrEmbedderRequired
     | Some e \<Rightarrow>
         let opts = (if wo_Capacity opts \<le> 0 then opts\<lparr>wo_Capacity := 50\<rparr> else opts);
             opts = (if wo_Decay opts \<le> 0 then opts\<lparr>wo_Decay := 24 * hour\<rparr> else opts)
         in Inr \<lparr>wm_store = newScoredStore ''wrk'' e, wm_opts = opts\<rparr>)"


section \<open>Scores and eviction\<close>

definition Working_score :: "env \<Rightarrow> WorkingOptions \<Rightarrow> string \<Rightarrow> vector \<Rightarrow> MemoryItem \<Rightarrow> vector
    \<Rightarrow> 'z world_scheme \<Rightarrow> float64 \<times> 'z world_scheme" where
  "Working_score E opts query qv it iv w =
     (let vec = vectorScore qv iv;
          kw = keywordScore E query (Content it);
          (decay, w) = timeDecay E (CreatedAt it) (wo_Decay opts) w
      in (f_mul (f_mul (f_mul (f_add (f_mul vec (Fin (7/10))) (f_mul kw (Fin (3/10)))) decay)
                       (importanceMultiplier (Importance it)))
                (savedBoostMultiplier E (heap w) it (wo_SavedBoost opts)), w))"

fun evict_scores :: "env \<Rightarrow> WorkingOptions \<Rightarrow> string \<Rightarrow> vector \<Rightarrow> (string, vector) gomap
    \<Rightarrow> (string \<times> MemoryItem) list \<Rightarrow> 'z world_scheme \<Rightarrow> (string \<times> float64) list \<times> 'z world_scheme" where
  "evict_scores E opts probe qv vecs [] w = ([], w)"
| "evict_scores E opts probe qv vecs ((i, it) # rest) w =
     (let (sc, w) = Working_score E opts probe qv it (vectorAt vecs i) w;
          (scores, w) = evict_scores E opts probe qv vecs rest w
      in ((i, sc) # scores, w))"

definition pair_less :: "string \<times> float64 \<Rightarrow> string \<times> float64 \<Rightarrow> bool" where
  "pair_less a b \<longleftrightarrow> f_lt (snd a) (snd b)"

fun oldest_loop :: "(string \<times> MemoryItem) list \<Rightarrow> time \<Rightarrow> string \<Rightarrow> string" where
  "oldest_loop [] oldest oldestID = oldestID"
| "oldest_loop ((i, it) # rest) oldest oldestID =
     (if CreatedAt it < oldest then oldest_loop rest (CreatedAt it) i
      else oldest_loop rest oldest oldestID)"

definition evictOldest :: "env \<Rightarrow> 'z world_scheme \<Rightarrow> WorkingMemory \<Rightarrow> 'z world_scheme \<times> WorkingMemory" where
  "evictOldest E w wm =
     (let (its, _) = snapshot (wm_store wm);
          (oldest, w) = time_Now E w;
          (ordered, w) = go_range E its w;
          oldestID = oldest_loop ordered oldest ''''
      in if oldestID \<noteq> '''' then (w, wm\<lparr>wm_store := snd (store_remove oldestID (wm_store wm))\<rparr>)
         else (w, wm))"

text \<open>
  The scores are never empty here: the store holds more items than the capacity, which is
  positive.
\<close>

definition evictIfOverCapacity :: "env \<Rightarrow> ctx \<Rightarrow> string \<Rightarrow> 'z world_scheme \<Rightarrow> WorkingMemory
    \<Rightarrow> 'z world_scheme \<times> WorkingMemory" where
  "evictIfOverCapacity E c probe w wm =
     (if wo_Capacity (wm_opts wm) \<le> 0 then (w, wm)
      else if int (length (items (wm_store wm))) \<le> wo_Capacity (wm_opts wm) then (w, wm)
      else case queryEmbedding (embedder (wm_store wm)) c probe w of
             (Inl err, w) \<Rightarrow> evictOldest E w wm
           | (Inr qv, w) \<Rightarrow>
               let (its, vecs) = snapshot (wm_store wm);
                   (ordered, w) = go_range E its w;
                   (scores, w) = evict_scores E (wm_opts wm) probe qv vecs ordered w
               in case sort_by pair_less scores of
                    [] \<Rightarrow> (w, wm)
                  | (i, _) # _ \<Rightarrow> (w, wm\<lparr>wm_store := snd (store_remove i (wm_store wm))\<rparr>))"


section \<open>Operations\<close>

definition Working_Type :: "WorkingMemory \<Rightarrow> Kind" where
  "Working_Type wm = KindWorking"

definition Working_Add :: "env \<Rightarrow> ctx \<Rightarrow> MemoryItem \<Rightarrow> 'z world_scheme \<Rightarrow> WorkingMemory
    \<Rightarrow> (error + string) \<times> 'z world_scheme \<times> WorkingMemory" where
  "Working_Add E c item w wm = (case store_add E c item w (wm_store wm) of
       (Inl err, w, s) \<Rightarrow> (Inl err, w, wm\<lparr>wm_store := s\<rparr>)
     | (Inr i, w, s) \<Rightarrow>
         let (w, wm) = evictIfOverCapacity E c (Content item) w (wm\<lparr>wm_store := s\<rparr>)
         in (Inr i, w, wm))"

fun search_scores :: "env \<Rightarrow> WorkingOptions \<Rightarrow> string \<Rightarrow> vector \<Rightarrow> (string, vector) gomap
    \<Rightarrow> (string \<times> MemoryItem) list \<Rightarrow> 'z world_scheme \<Rightarrow> SearchResult list \<times> 'z world_scheme" where
  "search_scores E opts query qv vecs [] w = ([], w)"
| "search_scores E opts query qv vecs ((i, it) # rest) w =
     (if IsDisabled E (heap w) it then search_scores E opts query qv vecs rest w
      else
        let (sc, w) = Working_score E opts query qv it (vectorAt vecs i) w;
            (out, w) = search_scores E opts query qv vecs rest w
        in (\<lparr>sr_Item = it, sr_Score = sc\<rparr> # out, w))"

definition Working_Search :: "env \<Rightarrow> ctx \<Rightarrow> string \<Rightarrow> int \<Rightarrow> 'z world_scheme \<Rightarrow> WorkingMemory
    \<Rightarrow> (error + SearchResult list) \<times> 'z world_scheme" where
  "Working_Search E c query topK w wm =
     (if strings_TrimSpace query = '''' then (Inl ErrEmptyQuery, w)
      else
        let topK = defaultTopK topK
        in case queryEmbedding (embedder (wm_store wm)) c query w of
             (Inl err, w) \<Rightarrow> (Inl err, w)
           | (Inr qv, w) \<Rightarrow>
               let (its, vecs) = snapshot (wm_store wm);
                   (ordered, w) = go_range E its w;
                   (out, w) = search_scores E (wm_opts wm) query qv vecs ordered w
               in (Inr (topResults topK out), w))"

definition Working_Get :: "env \<Rightarrow> string \<Rightarrow> 'z world_scheme \<Rightarrow> WorkingMemory
    \<Rightarrow> (error + MemoryItem) \<times> 'z world_scheme \<times> WorkingMemory" where
  "Working_Get E i w wm = (case store_get E i w (wm_store wm) of (r, w, s) \<Rightarrow> (r, w, wm\<lparr>wm_store := s\<rparr>))"

definition Working_Update :: "env \<Rightarrow> ctx \<Rightarrow> string \<Rightarrow> updater \<Rightarrow> 'z world_scheme \<Rightarrow> WorkingMemory
    \<Rightarrow> (error + unit) \<times> 'z world_scheme \<times> WorkingMemory" where
  "Working_Update E c i fn w wm =
     (case store_update E c i fn w (wm_store wm) of (r, w, s) \<Rightarrow> (r, w, wm\<lparr>wm_store := s\<rparr>))"

definition Working_Remove :: "string \<Rightarrow> WorkingMemory \<Rightarrow> (error + unit) \<times> WorkingMemory" where
  "Working_Remove i wm = (case store_remove i (wm_store wm) of (r, s) \<Rightarrow> (r, wm\<lparr>wm_store := s\<rparr>))"

definition Working_Stats :: "env \<Rightarrow> 'z world_scheme \<Rightarrow> WorkingMemory \<Rightarrow> Stats \<times> 'z world_scheme" where
  "Working_Stats E w wm = store_stats E (wo_Capacity (wm_opts wm)) w (wm_store wm)"

definition Working_List :: "env \<Rightarrow> ListFilter \<Rightarrow> int \<Rightarrow> string \<Rightarrow> 'z world_scheme \<Rightarrow> WorkingMemory
    \<Rightarrow> (error + ListPage) \<times> 'z world_scheme" where
  "Working_List E f pageSize cursor w wm = listFromStore E f pageSize cursor w (wm_store wm)"

definition Working_Export :: "env \<Rightarrow> 'z world_scheme \<Rightarrow> WorkingMemory \<Rightarrow> Snapshot \<times> 'z world_scheme" where
  "Working_Export E w wm = exportFromStore E KindWorking w (wm_store wm)"

definition Working_Import :: "env \<Rightarrow> Snapshot \<Rightarrow> ImportMode \<Rightarrow> WorkingMemory
    \<Rightarrow> (ImportReport \<times> error option) \<times> WorkingMemory" where
  "Working_Import E snap mode wm =
     (if sn_Kind snap \<noteq> KindWorking then
        ((zeroReport, Some (ErrWrapKind ''want working'' (sn_Kind snap) ErrSnapshotKindMismatch)), wm)
      else case importIntoStore E snap mode (wm_store wm) of (r, s) \<Rightarrow> (r, wm\<lparr>wm_store := s\<rparr>))"

definition RestoreWorking :: "env \<Rightarrow> Embedder option \<Rightarrow> Snapshot \<Rightarrow> WorkingOptions
    \<Rightarrow> error + WorkingMemory" where
  "RestoreWorking E e snap opts = (case e of
       None \<Rightarrow> Inl ErrEmbedderRequired
     | Some e \<Rightarrow> (case NewWorking (Some e) opts of
         Inl err \<Rightarrow> Inl err
       | Inr wm \<Rightarrow> (case Working_Import E snap ImportReplace wm of
           ((_, Some err), _) \<Rightarrow> Inl err
         | ((_, None), wm) \<Rightarrow> Inr wm)))"


section \<open>Search: facts\<close>

lemma Working_score_world [simp]:
  "snd (Working_score E opts q qv it iv w) = w\<lparr>tick := Suc (tick w)\<rparr>"
  by (simp add: Working_score_def Let_def split_beta)

lemma search_scores_world:
  "heap (snd (search_scores E opts q qv vecs xs w)) = heap w
   \<and> events (snd (search_scores E opts q qv vecs xs w)) = events w"
  by (induction xs arbitrary: w) (auto simp: Let_def split_beta)

lemma search_scores_items:
  "map sr_Item (fst (search_scores E opts q qv vecs xs w)) =
     filter (\<lambda>it. \<not> IsDisabled E (heap w) it) (map snd xs)"
  by (induction xs arbitrary: w) (auto simp: Let_def split_beta)

text \<open>The scores are those of the items, each at a moment of the loop.\<close>

lemma search_scores_tick:
  "\<exists>t. snd (search_scores E opts q qv vecs xs w) = w\<lparr>tick := t\<rparr> \<and> tick w \<le> t"
proof (induction xs arbitrary: w)
  case Nil
  show ?case by (intro exI [of _ "tick w"]) simp
next
  case (Cons x xs)
  obtain i it where x: "x = (i, it)" by (cases x)
  obtain t where t: "snd (search_scores E opts q qv vecs xs (w\<lparr>tick := Suc (tick w)\<rparr>)) = w\<lparr>tick := t\<rparr>" "Suc (tick w) \<le> t"
    using Cons [of "w\<lparr>tick := Suc (tick w)\<rparr>"] by auto
  show ?case using Cons [of w] t by (auto simp: x Let_def split_beta intro!: exI [of _ t])
qed

lemma search_scores_scored:
  "r \<in> set (fst (search_scores E opts q qv vecs xs w)) \<Longrightarrow>
    \<exists>i it t. (i, it) \<in> set xs \<and> tick w \<le> t \<and> t < tick (snd (search_scores E opts q qv vecs xs w))
      \<and> r = \<lparr>sr_Item = it, sr_Score = fst (Working_score E opts q qv it (vectorAt vecs i) (w\<lparr>tick := t\<rparr>))\<rparr>"
proof (induction xs arbitrary: w)
  case (Cons x xs)
  obtain i it where x: "x = (i, it)" by (cases x)
  let ?w1 = "w\<lparr>tick := Suc (tick w)\<rparr>"
  have lt: "tick w < tick (snd (search_scores E opts q qv vecs xs ?w1))"
    using search_scores_tick [of E opts q qv vecs xs ?w1] by auto
  show ?case
  proof (cases "IsDisabled E (heap w) it")
    case True
    then show ?thesis using Cons.IH [of w] Cons.prems by (auto simp: x)
  next
    case False
    then consider "r = \<lparr>sr_Item = it, sr_Score = fst (Working_score E opts q qv it (vectorAt vecs i) w)\<rparr>"
        | "r \<in> set (fst (search_scores E opts q qv vecs xs ?w1))"
      using Cons.prems by (auto simp: x Let_def split_beta)
    then show ?thesis
    proof cases
      case 1
      then show ?thesis using False lt
        by (intro exI [of _ i] exI [of _ it] exI [of _ "tick w"]) (simp add: x Let_def split_beta)
    next
      case 2
      from Cons.IH [OF this] obtain j jt t where "(j, jt) \<in> set xs" "Suc (tick w) \<le> t"
          "t < tick (snd (search_scores E opts q qv vecs xs ?w1))"
          "r = \<lparr>sr_Item = jt, sr_Score = fst (Working_score E opts q qv jt (vectorAt vecs j) (w\<lparr>tick := t\<rparr>))\<rparr>" by auto
      then show ?thesis using False
        by (intro exI [of _ j] exI [of _ jt] exI [of _ t]) (simp add: x Let_def split_beta)
    qed
  qed
qed simp

text \<open>A successful search returns the best of one scored result per enabled item.\<close>

definition working_scored :: "env \<Rightarrow> WorkingMemory \<Rightarrow> string \<Rightarrow> vector \<Rightarrow> 'z world_scheme \<Rightarrow> 'z world_scheme \<Rightarrow> SearchResult \<Rightarrow> bool" where
  "working_scored E wm q qv w w' r \<longleftrightarrow> (\<exists>t. tick w \<le> t \<and> t < tick w'
     \<and> sr_Score r = fst (Working_score E (wm_opts wm) q qv (sr_Item r)
         (vectorAt (snd (snapshot (wm_store wm))) (ID (sr_Item r))) (w\<lparr>tick := t\<rparr>)))"

lemma Working_Search_Inr:
  assumes "Working_Search E c q k w wm = (Inr res, w')"
  shows "\<exists>out qv. res = topResults (defaultTopK k) out
    \<and> mset (map sr_Item out) =
        mset (filter (\<lambda>it. \<not> IsDisabled E (heap w) it) (map snd (items (wm_store wm))))
    \<and> fst (queryEmbedding (embedder (wm_store wm)) c q w) = Inr qv
    \<and> (store_wf (wm_store wm) \<longrightarrow> (\<forall>r \<in> set out. working_scored E wm q qv w w' r))"
proof -
  let ?w1 = "w\<lparr>tick := Suc (tick w)\<rparr>"
  let ?its = "fst (go_range E (items (wm_store wm)) ?w1)" and ?w2 = "w\<lparr>tick := Suc (Suc (tick w))\<rparr>"
  obtain qv where qv: "fst (queryEmbedding (embedder (wm_store wm)) c q w) = Inr qv"
    and run: "res = topResults (defaultTopK k) (fst (search_scores E (wm_opts wm) q qv (snd (snapshot (wm_store wm))) ?its ?w2))"
      "w' = snd (search_scores E (wm_opts wm) q qv (snd (snapshot (wm_store wm))) ?its ?w2)"
    using assms
    by (auto simp: Working_Search_def queryEmbedding_def snapshot_def go_range_def Let_def split_beta
        split: if_splits sum.splits list.splits)
  let ?out = "fst (search_scores E (wm_opts wm) q qv (snd (snapshot (wm_store wm))) ?its ?w2)"
  have ms: "mset (map sr_Item ?out) = mset (filter (\<lambda>it. \<not> IsDisabled E (heap w) it) (map snd (items (wm_store wm))))"
    unfolding search_scores_items by (simp add: mset_filter go_range_def)
  have "working_scored E wm q qv w w' r" if wf: "store_wf (wm_store wm)" and r: "r \<in> set ?out" for r
  proof -
    obtain i it t where it: "(i, it) \<in> set ?its" "Suc (Suc (tick w)) \<le> t" "t < tick w'"
        "r = \<lparr>sr_Item = it, sr_Score = fst (Working_score E (wm_opts wm) q qv it (vectorAt (snd (snapshot (wm_store wm))) i) (w\<lparr>tick := t\<rparr>))\<rparr>"
      using search_scores_scored [OF r] run(2) by auto
    have "(i, it) \<in> set (items (wm_store wm))" using it(1) by (simp add: go_range_def)
    then have "ID it = i" using store_wfD(1,4) [OF wf] in_mget_Some by metis
    then show ?thesis unfolding working_scored_def using it(2-4) by (intro exI [of _ t]) simp
  qed
  then show ?thesis using qv run(1) ms by blast
qed

lemma Working_Search_world:
  assumes "Working_Search E c q k w wm = (r, w')"
  shows "heap w' = heap w \<and> events w' = events w"
  using assms
  by (auto simp: search_scores_world Working_Search_def queryEmbedding_def snapshot_def Let_def split_beta
      split: if_splits sum.splits list.splits)


section \<open>Eviction: facts\<close>

interpretation evict_order: comparator pair_less "\<lambda>p. snd p \<noteq> NaN"
  by unfold_locales (auto simp: pair_less_def dest: f_lt_asym f_lt_neg_trans)

lemma evict_scores_ids:
  "map fst (fst (evict_scores E opts q qv vecs xs w)) = map fst xs"
  by (induction xs arbitrary: w) (auto simp: Let_def split_beta)

lemma evict_scores_world:
  "heap (snd (evict_scores E opts q qv vecs xs w)) = heap w
   \<and> events (snd (evict_scores E opts q qv vecs xs w)) = events w"
  by (induction xs arbitrary: w) (auto simp: Let_def split_beta)

lemma length_store_remove:
  assumes "store_wf s" and "i \<in> mkeys (items s)"
  shows "length (items (snd (store_remove i s))) = length (items s) - 1"
proof -
  obtain it where "mget (items s) i = Some it"
    using assms(2) mget_None_iff [of "items s" i] by (cases "mget (items s) i") auto
  then show ?thesis using store_wfD(1) [OF assms(1)] assms(2)
    by (simp add: store_remove_hit length_mdel)
qed

text \<open>
  When the store is over capacity and the embedder answers, exactly one item is removed,
  and it has the lowest score of all.
\<close>

lemma evict_removes_one:
  assumes wf: "store_wf (wm_store wm)" and cap: "0 < wo_Capacity (wm_opts wm)"
    and over: "wo_Capacity (wm_opts wm) < int (length (items (wm_store wm)))"
    and emb: "queryEmbedding (embedder (wm_store wm)) c probe w = (Inr qv, w1)"
    and evict: "evictIfOverCapacity E c probe w wm = (w', wm')"
  shows "\<exists>i sc scores.
      scores = fst (evict_scores E (wm_opts wm) probe qv (snd (snapshot (wm_store wm)))
        (fst (go_range E (items (wm_store wm)) w1)) (snd (go_range E (items (wm_store wm)) w1)))
      \<and> (i, sc) \<in> set scores \<and> i \<in> mkeys (items (wm_store wm))
      \<and> ((\<forall>p \<in> set scores. snd p \<noteq> NaN) \<longrightarrow> (\<forall>p \<in> set scores. \<not> f_lt (snd p) sc))
      \<and> wm' = wm\<lparr>wm_store := snd (store_remove i (wm_store wm))\<rparr>"
proof -
  let ?scores = "fst (evict_scores E (wm_opts wm) probe qv (snd (snapshot (wm_store wm)))
        (fst (go_range E (items (wm_store wm)) w1)) (snd (go_range E (items (wm_store wm)) w1)))"
  have ids: "map fst ?scores = map fst (fst (go_range E (items (wm_store wm)) w1))"
    by (rule evict_scores_ids)
  have "items (wm_store wm) \<noteq> []" using over cap by auto
  then have "?scores \<noteq> []" using ids by (auto simp: go_range_def)
  then obtain i sc rest where srt: "sort_by pair_less ?scores = (i, sc) # rest"
    by (metis list.exhaust length_0_conv length_sort_by surj_pair)
  have mem: "(i, sc) \<in> set ?scores" using srt by (metis list.set_intros(1) set_sort_by)
  have "i \<in> set (map fst ?scores)" using mem by force
  then have key: "i \<in> mkeys (items (wm_store wm))" unfolding ids by simp
  have low: "\<not> f_lt (snd p) sc" if "\<forall>p \<in> set ?scores. snd p \<noteq> NaN" "p \<in> set ?scores" for p
  proof (cases "p = (i, sc)")
    case False
    have "sorted_wrt (\<lambda>a b. \<not> pair_less b a) ((i, sc) # rest)"
      using evict_order.sorted_sort_by [OF that(1)] srt by simp
    moreover have "p \<in> set rest" using that(2) False srt by (metis set_ConsD set_sort_by)
    ultimately show ?thesis by (simp add: pair_less_def)
  qed simp
  have "wm' = wm\<lparr>wm_store := snd (store_remove i (wm_store wm))\<rparr>"
    using evict cap over emb srt
    by (simp add: evictIfOverCapacity_def snapshot_def Let_def split_beta)
  then show ?thesis using mem key low by blast
qed

lemma evictIfOverCapacity_within:
  "int (length (items (wm_store wm))) \<le> wo_Capacity (wm_opts wm) \<Longrightarrow>
    evictIfOverCapacity E c probe w wm = (w, wm)"
  by (simp add: evictIfOverCapacity_def)

lemma evictOldest_wf:
  "store_wf (wm_store wm) \<Longrightarrow> evictOldest E w wm = (w', wm') \<Longrightarrow> store_wf (wm_store wm')"
  by (auto simp: evictOldest_def Let_def split_beta store_wf_removed split: if_splits)

lemma evictIfOverCapacity_wf:
  assumes "store_wf (wm_store wm)" and "evictIfOverCapacity E c probe w wm = (w', wm')"
  shows "store_wf (wm_store wm')"
  using assms evictOldest_wf [OF assms(1)]
  by (auto simp: evictIfOverCapacity_def Let_def split_beta store_wf_removed
      split: if_splits sum.splits list.splits prod.splits)

lemma oldest_loop_finds:
  "oldest_loop xs t i = i \<or> oldest_loop xs t i \<in> fst ` set xs"
  by (induction xs t i rule: oldest_loop.induct) auto

lemma oldest_loop_some:
  assumes "(k, it) \<in> set xs" and "CreatedAt it < t"
  shows "oldest_loop xs t i \<in> fst ` set xs"
  using assms
proof (induction xs t i rule: oldest_loop.induct)
  case (2 j jt rest oldest oldestID)
  show ?case
  proof (cases "CreatedAt jt < oldest")
    case True
    then show ?thesis using oldest_loop_finds [of rest "CreatedAt jt" j] by auto
  next
    case False
    then have "(k, it) \<in> set rest" using 2 by auto
    then show ?thesis using 2 False by simp
  qed
qed simp

lemma evictOldest_removes:
  assumes "store_wf (wm_store wm)" and "mget (items (wm_store wm)) k = Some it"
    and "CreatedAt it < now_at E (tick w)" and "evictOldest E w wm = (w', wm')"
  shows "length (items (wm_store wm')) = length (items (wm_store wm)) - 1 \<and> wm_opts wm' = wm_opts wm"
proof -
  let ?xs = "fst (go_range E (items (wm_store wm)) (snd (time_Now E w)))"
  let ?i = "oldest_loop ?xs (now_at E (tick w)) ''''"
  have "(k, it) \<in> set ?xs" using mget_Some_in [OF assms(2)] by simp
  then have "?i \<in> fst ` set ?xs" by (rule oldest_loop_some [OF _ assms(3)])
  then have i: "?i \<in> mkeys (items (wm_store wm))" unfolding set_go_range .
  then obtain jt where "mget (items (wm_store wm)) ?i = Some jt"
    using mget_None_iff [of "items (wm_store wm)" ?i] by (cases "mget (items (wm_store wm)) ?i") auto
  then have "?i \<noteq> ''''" using store_wfD(4) [OF assms(1)] by blast
  then have "wm' = wm\<lparr>wm_store := snd (store_remove ?i (wm_store wm))\<rparr>"
    using assms(4) by (simp add: evictOldest_def time_Now_def snapshot_def Let_def split_beta)
  then show ?thesis using length_store_remove [OF assms(1) i] by simp
qed

lemma store_add_length:
  assumes "store_wf s" and "store_add E c item w s = (Inr i, w', s')"
  shows "length (items s') \<le> Suc (length (items s))"
  using store_add_Inr [OF assms(2)] store_wfD(1) [OF assms(1)] by (auto simp: length_mput)

lemma store_add_stamp:
  assumes "store_add E c item w s = (Inr i, w', s')"
  shows "\<exists>now. items s' = mput i ((stampAdded now item)\<lparr>ID := i\<rparr>) (items s)
    \<and> (now < now_at E (Suc (tick w')) \<or> \<not> strict_mono (now_at E)) \<and> embedder s' = embedder s"
proof -
  let ?t = "if ID item = '''' then Suc (tick w) else tick w"
  have upd: "stampAdded n (item\<lparr>ID := j\<rparr>) = (stampAdded n item)\<lparr>ID := j\<rparr>" for n j
    by (simp add: stampAdded_def Let_def)
  have id: "(stampAdded n item)\<lparr>ID := ID item\<rparr> = stampAdded n item" for n by simp
  have "items s' = mput i ((stampAdded (now_at E ?t) item)\<lparr>ID := i\<rparr>) (items s)"
    "tick w' = Suc (Suc ?t)" "embedder s' = embedder s"
    using assms
    by (auto simp: store_add_def assignID_cases time_Now_def queryEmbedding_def upd id Let_def
        split: sum.splits list.splits if_splits)
  moreover have "strict_mono (now_at E) \<Longrightarrow> now_at E ?t < now_at E (Suc (Suc (Suc ?t)))"
    by (simp add: strict_mono_less)
  ultimately show ?thesis by (intro exI [of _ "now_at E ?t"]) auto
qed

lemma evict_restores:
  assumes wf: "store_wf (wm_store wm)" and cap: "0 < wo_Capacity (wm_opts wm)"
    and sa: "store_add E c item w (wm_store wm) = (Inr i, w1, s1)"
    and len: "int (length (items s1)) \<le> wo_Capacity (wm_opts wm) + 1"
    and ev: "evictIfOverCapacity E c (Content item) w1 (wm\<lparr>wm_store := s1\<rparr>) = (w', wm')"
    and choose: "(\<forall>t. \<exists>vs. embedder (wm_store wm) t c [Content item] = Inr vs)
      \<or> (strict_mono (now_at E) \<and> CreatedAt item = 0)"
  shows "wm_opts wm' = wm_opts wm \<and> int (length (items (wm_store wm'))) \<le> wo_Capacity (wm_opts wm)"
proof (cases "int (length (items s1)) \<le> wo_Capacity (wm_opts wm)")
  case True
  then have "wm' = wm\<lparr>wm_store := s1\<rparr>" using ev by (simp add: evictIfOverCapacity_within)
  then show ?thesis using True by simp
next
  case over: False
  let ?wm1 = "wm\<lparr>wm_store := s1\<rparr>"
  have wf1: "store_wf (wm_store ?wm1)" using store_add_wf [OF wf sa] by simp
  obtain now where now: "items s1 = mput i ((stampAdded now item)\<lparr>ID := i\<rparr>) (items (wm_store wm))"
      "now < now_at E (Suc (tick w1)) \<or> \<not> strict_mono (now_at E)" "embedder s1 = embedder (wm_store wm)"
    using store_add_stamp [OF sa] by blast
  obtain q w2 where q: "queryEmbedding (embedder s1) c (Content item) w1 = (q, w2)"
    by (cases "queryEmbedding (embedder s1) c (Content item) w1")
  show ?thesis
  proof (cases q)
    case (Inr qv)
    then obtain k where k: "k \<in> mkeys (items s1)" "wm' = wm\<lparr>wm_store := snd (store_remove k s1)\<rparr>"
      using evict_removes_one [OF wf1 _ _ _ ev, of qv w2] cap over q by auto
    then have "length (items (wm_store wm')) = length (items s1) - 1"
      using length_store_remove [OF _ k(1)] wf1 by simp
    then show ?thesis using k(2) len over cap by simp
  next
    case (Inl err)
    then have strict: "strict_mono (now_at E)" "CreatedAt item = 0"
    proof -
      have "embedder (wm_store wm) (tick w1) c [Content item] = Inl err"
        using q now(3) Inl by (auto simp: queryEmbedding_def split: sum.splits list.splits)
      then show "strict_mono (now_at E)" "CreatedAt item = 0" using choose by (metis sum.distinct(1))+
    qed
    have w2: "tick w2 = Suc (tick w1)" using q by (auto simp: queryEmbedding_def)
    have eo: "evictOldest E w2 ?wm1 = (w', wm')"
      using ev over cap q Inl by (simp add: evictIfOverCapacity_def)
    have "length (items (wm_store wm')) = length (items (wm_store ?wm1)) - 1 \<and> wm_opts wm' = wm_opts ?wm1"
      by (rule evictOldest_removes [OF wf1 _ _ eo, of i "(stampAdded now item)\<lparr>ID := i\<rparr>"])
        (use now strict w2 in simp_all)
    then show ?thesis using len over cap by simp
  qed
qed


section \<open>Properties\<close>

definition sampleWorking :: WorkingMemory where
  "sampleWorking = \<lparr>wm_store = sampleStore sampleEmbedder,
     wm_opts = \<lparr>wo_Capacity = 1, wo_Decay = hour, wo_SavedBoost = Fin 2\<rparr>\<rparr>"

lemma sampleWorking_simps [simp]:
  "wm_store sampleWorking = sampleStore sampleEmbedder"
  "wm_opts sampleWorking = \<lparr>wo_Capacity = 1, wo_Decay = hour, wo_SavedBoost = Fin 2\<rparr>"
  by (simp_all add: sampleWorking_def)

text \<open>
  The working score is a finite number: for an item with its importance in the unit
  interval, finite vectors and a positive finite boost \<open>b\<close> it lies between
  \<open>- 0.84 * max 1 b\<close> and \<open>1.2 * max 1 b\<close>, so no comparison of scores meets a NaN.
\<close>

theorem working_score_bounds:
  assumes "in_unit (Importance it)" and "slice qv = map Fin as" and "slice iv = map Fin bs"
    and "wo_SavedBoost opts = Fin b"
  shows "\<exists>x. fst (Working_score E opts q qv it iv w) = Fin x
    \<and> - (84/100) * max 1 b \<le> x \<and> x \<le> 12/10 * max 1 b"
proof -
  obtain v where v: "vectorScore qv iv = Fin v" "- 1 \<le> v" "v \<le> 1" using vectorScore_bound [OF assms(2,3)] by blast
  obtain k where k: "keywordScore E q (Content it) = Fin k" "0 \<le> k" "k \<le> 1"
    using keywordScore_unit [of E q "Content it"] by (auto simp: in_unit_def split: float64.splits)
  obtain d where d: "fst (timeDecay E (CreatedAt it) (wo_Decay opts) w) = Fin d" "0 < d" "d \<le> 1"
    using timeDecay_unit by blast
  obtain m where m: "Importance it = Fin m" "0 \<le> m" "m \<le> 1"
    using assms(1) by (auto simp: in_unit_def split: float64.splits)
  define g where "g = (if IsPinned E (heap w) it \<or> GetSource E (heap w) it = c_SourceUserSaved E
      then (if b \<le> 0 then 1 else b) else 1)"
  have g: "savedBoostMultiplier E (heap w) it (wo_SavedBoost opts) = Fin g" "0 < g" "g \<le> max 1 b"
    using assms(4) by (auto simp: savedBoostMultiplier_def f_le_def Let_def g_def)
  let ?a = "v * (7/10) + k * (3/10)" and ?f = "d * (8/10 + m * (4/10)) * g"
  have "fst (Working_score E opts q qv it iv w) = Fin (?a * ?f)"
    using v(1) k(1) d(1) m(1) g(1)
    by (simp add: Working_score_def importanceMultiplier_def Let_def split_beta mult.assoc)
  moreover have f: "0 \<le> ?f" "?f \<le> 12/10 * max 1 b"
  proof -
    have "d * (8/10 + m * (4/10)) \<le> 1 * (12/10)" using d m by (intro mult_mono) simp_all
    then have "d * (8/10 + m * (4/10)) * g \<le> 12/10 * max 1 b" using g m d by (intro mult_mono) simp_all
    then show "0 \<le> ?f" "?f \<le> 12/10 * max 1 b" using d m g by simp_all
  qed
  moreover have a: "- (7/10) \<le> ?a" "?a \<le> 1" using v k by simp_all
  have "?a * ?f \<le> 1 * ?f" using a(2) f(1) by (rule mult_right_mono)
  moreover have "- (7/10) * ?f \<le> ?a * ?f" using a(1) f(1) by (rule mult_right_mono)
  ultimately show ?thesis by (intro exI [of _ "?a * ?f"]) linarith
qed

theorem working_score_bounds_witness:
  "\<exists>x. fst (Working_score sampleEnv \<lparr>wo_Capacity = 1, wo_Decay = hour, wo_SavedBoost = Fin 2\<rparr> ''old''
      (Some [Fin 3, Fin 1]) (sampleItem ''k'' ''old'') None sampleWorld) = Fin x \<and> x \<le> 24/10"
  using working_score_bounds [of "sampleItem ''k'' ''old''" "Some [Fin 3, Fin 1]" "[3, 1]" None "[]"
      "\<lparr>wo_Capacity = 1, wo_Decay = hour, wo_SavedBoost = Fin 2\<rparr>" 2 sampleEnv "''old''" sampleWorld]
  by (auto simp: in_unit_def)

text \<open>
  C33. A successful working search returns only stored items that are not disabled, none
  twice, as many as there are up to the limit (five when the limit is not positive). Behind it
  there is one result per enabled item, whose score is the one the engine computes for that
  item, its vector and the embedded query at a moment of the call; the results are the best of
  those, in descending order of score, when no score is NaN.
\<close>

theorem working_search_ranked:
  assumes "store_wf (wm_store wm)" and "Working_Search E c q k w wm = (Inr res, w')"
  shows "\<exists>out. mset (map sr_Item out) = mset (filter (\<lambda>it. \<not> IsDisabled E (heap w) it) (map snd (items (wm_store wm))))
    \<and> (\<exists>qv. fst (queryEmbedding (embedder (wm_store wm)) c q w) = Inr qv
        \<and> (\<forall>r \<in> set out. \<exists>t. tick w \<le> t \<and> t < tick w'
             \<and> sr_Score r = fst (Working_score E (wm_opts wm) q qv (sr_Item r)
                 (vectorAt (snd (snapshot (wm_store wm))) (ID (sr_Item r))) (w\<lparr>tick := t\<rparr>))))
    \<and> set res \<subseteq> set out \<and> distinct (map (ID \<circ> sr_Item) out)
    \<and> length res = min (nat (defaultTopK k)) (length out)
    \<and> ((\<forall>r \<in> set out. sr_Score r \<noteq> NaN) \<longrightarrow>
         sorted_wrt (\<lambda>a b. \<not> f_lt (sr_Score a) (sr_Score b)) res
         \<and> (\<forall>a \<in> set res. \<forall>b \<in> set out - set res. \<not> f_lt (sr_Score a) (sr_Score b)))"
proof -
  obtain out qv where out: "res = topResults (defaultTopK k) out"
    and ms: "mset (map sr_Item out) = mset (filter (\<lambda>it. \<not> IsDisabled E (heap w) it) (map snd (items (wm_store wm))))"
    and qv: "fst (queryEmbedding (embedder (wm_store wm)) c q w) = Inr qv"
    and sc: "\<forall>r \<in> set out. working_scored E wm q qv w w' r"
    using Working_Search_Inr [OF assms(2)] assms(1) by blast
  show ?thesis using ranked_results [OF assms(1) ms] ms qv sc unfolding out working_scored_def by blast
qed

theorem working_search_ranked_witness:
  "\<exists>res. fst (Working_Search sampleEnv sampleCtx ''old'' 3 sampleWorld sampleWorking) = Inr res
    \<and> length res = 1"
  (is "\<exists>res. fst ?S = _ \<and> _")
proof -
  have trim: "strings_TrimSpace ''old'' \<noteq> ''''" by code_simp
  obtain res where res: "fst ?S = Inr res"
    using trim by (auto simp: Working_Search_def queryEmbedding_def sampleEmbedder_def Let_def split_beta)
  then have S: "?S = (Inr res, snd ?S)" by (metis prod.collapse)
  have items: "filter (\<lambda>it. \<not> IsDisabled sampleEnv (heap sampleWorld) it) (map snd (items (wm_store sampleWorking)))
      = [sampleItem ''k'' ''old'']"
    by (simp add: IsDisabled_def meta_of_def sample_flag_def)
  have wf: "store_wf (wm_store sampleWorking)" by (simp add: sampleStore_wf)
  obtain out :: "SearchResult list" where out: "mset (map sr_Item out) = mset [sampleItem ''k'' ''old'']"
      "length res = min (nat (defaultTopK 3)) (length out)"
    using working_search_ranked [OF wf S] unfolding items by blast
  have "length out = 1" using arg_cong [OF out(1), of size] by simp
  then show ?thesis using res out(2) by (simp add: defaultTopK_def)
qed

text \<open>
  C13. Capacity: adding to a working memory within its capacity leaves it within its capacity
  and well-formed, whether the addition succeeds or not, provided the eviction can choose
  an item: the embedder answers for the added content, or, when it fails, the clock
  advances and the added item carries no creation time of its own.
\<close>

theorem working_capacity_kept:
  assumes wf: "store_wf (wm_store wm)" and cap: "0 < wo_Capacity (wm_opts wm)"
    and within: "int (length (items (wm_store wm))) \<le> wo_Capacity (wm_opts wm)"
    and add: "Working_Add E c item w wm = (r, w', wm')"
    and choose: "(\<forall>t. \<exists>vs. embedder (wm_store wm) t c [Content item] = Inr vs)
      \<or> (strict_mono (now_at E) \<and> CreatedAt item = 0)"
  shows "int (length (items (wm_store wm'))) \<le> wo_Capacity (wm_opts wm')
    \<and> wm_opts wm' = wm_opts wm \<and> store_wf (wm_store wm')"
proof -
  obtain r1 w1 s1 where sa: "store_add E c item w (wm_store wm) = (r1, w1, s1)"
    by (cases "store_add E c item w (wm_store wm)")
  note wf1 = store_add_wf [OF wf sa]
  show ?thesis
  proof (cases r1)
    case (Inl e)
    then have "wm' = wm\<lparr>wm_store := s1\<rparr>" "items s1 = items (wm_store wm)"
      using add sa store_add_Inl [OF sa [unfolded Inl]] by (simp_all add: Working_Add_def)
    then show ?thesis using within wf1 by simp
  next
    case (Inr i)
    let ?wm1 = "wm\<lparr>wm_store := s1\<rparr>"
    have ev: "evictIfOverCapacity E c (Content item) w1 ?wm1 = (w', wm')"
      using add sa Inr by (simp add: Working_Add_def Let_def split_beta)
    have len1: "int (length (items s1)) \<le> wo_Capacity (wm_opts wm) + 1"
      using store_add_length [OF wf sa [unfolded Inr]] within by linarith
    have "wm_opts wm' = wm_opts wm \<and> int (length (items (wm_store wm'))) \<le> wo_Capacity (wm_opts wm)"
      using evict_restores [OF wf cap sa [unfolded Inr] len1 ev choose] .
    moreover have "store_wf (wm_store wm')" using evictIfOverCapacity_wf [OF _ ev] wf1 by simp
    ultimately show ?thesis by simp
  qed
qed

theorem working_capacity_kept_witness:
  "length (items (wm_store (snd (snd (Working_Add sampleEnv sampleCtx (sampleItem ''l'' ''new'') sampleWorld
     sampleWorking))))) \<le> 1"
  (is "length (items (wm_store (snd (snd ?A)))) \<le> 1")
proof -
  have "int (length (items (wm_store (snd (snd ?A))))) \<le> wo_Capacity (wm_opts (snd (snd ?A)))
      \<and> wm_opts (snd (snd ?A)) = wm_opts sampleWorking \<and> store_wf (wm_store (snd (snd ?A)))"
    by (rule working_capacity_kept [where wm = sampleWorking and E = sampleEnv and c = sampleCtx and w = sampleWorld
          and item = "sampleItem ''l'' ''new''" and r = "fst ?A" and w' = "fst (snd ?A)"])
      (simp_all add: sampleStore_wf sampleEmbedder_def)
  then show ?thesis by auto
qed

text \<open>
  C32. When an addition takes the memory over its capacity and the embedder answers, exactly
  one item is removed, and no stored item scores lower against the added content than the
  one removed (no score being NaN).
\<close>

theorem working_evicts_lowest:
  assumes wf: "store_wf (wm_store wm)" and cap: "0 < wo_Capacity (wm_opts wm)"
    and sa: "store_add E c item w (wm_store wm) = (Inr i, w1, s1)"
    and over: "wo_Capacity (wm_opts wm) < int (length (items s1))"
    and emb: "queryEmbedding (embedder s1) c (Content item) w1 = (Inr qv, w2)"
    and add: "Working_Add E c item w wm = (r, w', wm')"
  shows "\<exists>k sc scores. r = Inr i \<and> wm' = wm\<lparr>wm_store := snd (store_remove k s1)\<rparr>
      \<and> length (items (wm_store wm')) = length (items s1) - 1
      \<and> (k, sc) \<in> set scores \<and> fst ` set scores = mkeys (items s1)
      \<and> ((\<forall>p \<in> set scores. snd p \<noteq> NaN) \<longrightarrow> (\<forall>p \<in> set scores. \<not> f_lt (snd p) sc))
      \<and> scores = fst (evict_scores E (wm_opts wm) (Content item) qv (snd (snapshot s1))
          (fst (go_range E (items s1) w2)) (snd (go_range E (items s1) w2)))"
proof -
  let ?wm1 = "wm\<lparr>wm_store := s1\<rparr>"
  let ?sc = "fst (evict_scores E (wm_opts wm) (Content item) qv (snd (snapshot s1))
          (fst (go_range E (items s1) w2)) (snd (go_range E (items s1) w2)))"
  have wf1: "store_wf (wm_store ?wm1)" using store_add_wf [OF wf sa] by simp
  have ev: "evictIfOverCapacity E c (Content item) w1 ?wm1 = (w', wm')" and r: "r = Inr i"
    using add sa by (simp_all add: Working_Add_def Let_def split_beta)
  obtain k sc where k: "(k, sc) \<in> set ?sc" "k \<in> mkeys (items s1)"
      "(\<forall>p \<in> set ?sc. snd p \<noteq> NaN) \<longrightarrow> (\<forall>p \<in> set ?sc. \<not> f_lt (snd p) sc)"
      "wm' = wm\<lparr>wm_store := snd (store_remove k s1)\<rparr>"
    using evict_removes_one [OF wf1 _ _ _ ev, of qv w2] cap over emb by auto
  have "map fst ?sc = map fst (fst (go_range E (items s1) w2))" by (rule evict_scores_ids)
  then have "fst ` set ?sc = fst ` set (fst (go_range E (items s1) w2))" by (metis list.set_map)
  then have ids: "fst ` set ?sc = mkeys (items s1)" by (simp only: set_go_range)
  have "length (items (snd (store_remove k s1))) = length (items s1) - 1"
    using length_store_remove [OF _ k(2)] wf1 by simp
  then show ?thesis using k r ids by (intro exI [of _ k] exI [of _ sc] exI [of _ ?sc]) simp
qed

theorem working_evicts_lowest_witness:
  "\<exists>k. snd (snd (Working_Add sampleEnv sampleCtx (sampleItem ''l'' ''new'') sampleWorld sampleWorking))
    = sampleWorking\<lparr>wm_store := snd (store_remove k (snd (snd (store_add sampleEnv sampleCtx
        (sampleItem ''l'' ''new'') sampleWorld (sampleStore sampleEmbedder)))))\<rparr>"
  (is "\<exists>k. snd (snd ?A) = sampleWorking\<lparr>wm_store := snd (store_remove k (snd (snd ?S)))\<rparr>")
proof -
  have "fst ?S = Inr ''l''"
    by (simp add: store_add_def assignID_def time_Now_def queryEmbedding_def sampleEmbedder_def Let_def)
  then have S: "store_add sampleEnv sampleCtx (sampleItem ''l'' ''new'') sampleWorld (wm_store sampleWorking)
      = (Inr ''l'', fst (snd ?S), snd (snd ?S))" by (metis prod.collapse sampleWorking_simps(1))
  have s1: "length (items (snd (snd ?S))) = 2" "embedder (snd (snd ?S)) = sampleEmbedder"
    by (simp_all add: store_add_def assignID_def time_Now_def queryEmbedding_def sampleEmbedder_def Let_def)
  let ?Q = "queryEmbedding (embedder (snd (snd ?S))) sampleCtx (Content (sampleItem ''l'' ''new'')) (fst (snd ?S))"
  have "fst ?Q = Inr (Some [f_of_nat 3, Fin 1])"
    using s1(2) by (simp add: queryEmbedding_def sampleEmbedder_def)
  then have Q: "?Q = (Inr (Some [f_of_nat 3, Fin 1]), snd ?Q)" by (metis prod.collapse)
  have A: "Working_Add sampleEnv sampleCtx (sampleItem ''l'' ''new'') sampleWorld sampleWorking
      = (fst ?A, fst (snd ?A), snd (snd ?A))" by simp
  show ?thesis using working_evicts_lowest [OF _ _ S _ Q A] s1(1) sampleStore_wf by auto
qed

end
