(* ===== verification/Episodic.thy ===== *)
theory Episodic
  imports Ranking Listing Persistence
begin

text \<open>
  \<^verbatim>\<open>engine_episodic.go\<close>: the episodic memory, an unbounded store whose search
  combines the similarity of the vector backend with recency.
\<close>


section \<open>State and constructor\<close>

record EpisodicOptions =
  eo_RecencyHalfLifeDays :: float64
  eo_SavedBoost :: float64
  eo_VectorBackend :: "VectorBackend option"

record EpisodicMemory =
  em_store :: scoredStore
  em_opts :: EpisodicOptions

definition NewEpisodic :: "Embedder option \<Rightarrow> EpisodicOptions \<Rightarrow> error + EpisodicMemory" where
  "NewEpisodic e opts = (case e of
       None \<Rightarrow> Inl ErrEmbedderRequired
     | Some e \<Rightarrow>
         let opts = (if f_le (eo_RecencyHalfLifeDays opts) (Fin 0)
                     then opts\<lparr>eo_RecencyHalfLifeDays := Fin 30\<rparr> else opts);
             opts = (if eo_VectorBackend opts = None
                     then opts\<lparr>eo_VectorBackend := Some inMemoryVectorBackend\<rparr> else opts)
         in Inr \<lparr>em_store = newScoredStore ''epi'' e, em_opts = opts\<rparr>)"


section \<open>Operations\<close>

definition Episodic_Type :: "EpisodicMemory \<Rightarrow> Kind" where
  "Episodic_Type m = KindEpisodic"

definition Episodic_Add :: "env \<Rightarrow> ctx \<Rightarrow> MemoryItem \<Rightarrow> 'z world_scheme \<Rightarrow> EpisodicMemory
    \<Rightarrow> (error + string) \<times> 'z world_scheme \<times> EpisodicMemory" where
  "Episodic_Add E c item w m =
     (case store_add E c item w (em_store m) of (r, w, s) \<Rightarrow> (r, w, m\<lparr>em_store := s\<rparr>))"

definition halfLifeOf :: "env \<Rightarrow> EpisodicOptions \<Rightarrow> duration" where
  "halfLifeOf E opts =
     f_to_int (float_oor E) (f_mul (f_mul (eo_RecencyHalfLifeDays opts) (Fin 24)) (f_of_int hour))"

fun episodic_scores :: "env \<Rightarrow> EpisodicOptions \<Rightarrow> duration \<Rightarrow> VectorCandidate list
    \<Rightarrow> 'z world_scheme \<Rightarrow> SearchResult list \<times> 'z world_scheme" where
  "episodic_scores E opts halfLife [] w = ([], w)"
| "episodic_scores E opts halfLife (candidate # rest) w =
     (let it = vc_Item candidate
      in if IsDisabled E (heap w) it then episodic_scores E opts halfLife rest w
         else
           let (recency, w) = timeDecay E (CreatedAt it) halfLife w;
               score = f_mul (f_mul (f_add (f_mul (vc_Similarity candidate) (Fin (8/10)))
                                           (f_mul recency (Fin (2/10))))
                                    (importanceMultiplier (Importance it)))
                             (savedBoostMultiplier E (heap w) it (eo_SavedBoost opts));
               (out, w) = episodic_scores E opts halfLife rest w
           in (\<lparr>sr_Item = it, sr_Score = score\<rparr> # out, w))"

definition Episodic_Search :: "env \<Rightarrow> ctx \<Rightarrow> string \<Rightarrow> int \<Rightarrow> 'z world_scheme \<Rightarrow> EpisodicMemory
    \<Rightarrow> (error + SearchResult list) \<times> 'z world_scheme" where
  "Episodic_Search E c query topK w m =
     (if strings_TrimSpace query = '''' then (Inl ErrEmptyQuery, w)
      else
        let topK = defaultTopK topK; (its, vecs) = snapshot (em_store m)
        in case eo_VectorBackend (em_opts m) of
             None \<Rightarrow> (Inl (ErrPanic ''nil pointer dereference''), w)
           | Some b \<Rightarrow> (case Candidates E b c query its vecs (embedder (em_store m)) w of
               (Inl err, w) \<Rightarrow> (Inl err, w)
             | (Inr candidates, w) \<Rightarrow>
                 let (out, w) = episodic_scores E (em_opts m) (halfLifeOf E (em_opts m)) candidates w
                 in (Inr (topResults topK out), w)))"

definition Episodic_Get :: "env \<Rightarrow> string \<Rightarrow> 'z world_scheme \<Rightarrow> EpisodicMemory
    \<Rightarrow> (error + MemoryItem) \<times> 'z world_scheme \<times> EpisodicMemory" where
  "Episodic_Get E i w m = (case store_get E i w (em_store m) of (r, w, s) \<Rightarrow> (r, w, m\<lparr>em_store := s\<rparr>))"

definition Episodic_Update :: "env \<Rightarrow> ctx \<Rightarrow> string \<Rightarrow> updater \<Rightarrow> 'z world_scheme \<Rightarrow> EpisodicMemory
    \<Rightarrow> (error + unit) \<times> 'z world_scheme \<times> EpisodicMemory" where
  "Episodic_Update E c i fn w m =
     (case store_update E c i fn w (em_store m) of (r, w, s) \<Rightarrow> (r, w, m\<lparr>em_store := s\<rparr>))"

definition Episodic_Remove :: "string \<Rightarrow> EpisodicMemory \<Rightarrow> (error + unit) \<times> EpisodicMemory" where
  "Episodic_Remove i m = (case store_remove i (em_store m) of (r, s) \<Rightarrow> (r, m\<lparr>em_store := s\<rparr>))"

definition Episodic_Stats :: "env \<Rightarrow> 'z world_scheme \<Rightarrow> EpisodicMemory \<Rightarrow> Stats \<times> 'z world_scheme" where
  "Episodic_Stats E w m = store_stats E 0 w (em_store m)"

definition Episodic_List :: "env \<Rightarrow> ListFilter \<Rightarrow> int \<Rightarrow> string \<Rightarrow> 'z world_scheme \<Rightarrow> EpisodicMemory
    \<Rightarrow> (error + ListPage) \<times> 'z world_scheme" where
  "Episodic_List E f pageSize cursor w m = listFromStore E f pageSize cursor w (em_store m)"

definition Episodic_Export :: "env \<Rightarrow> 'z world_scheme \<Rightarrow> EpisodicMemory \<Rightarrow> Snapshot \<times> 'z world_scheme" where
  "Episodic_Export E w m = exportFromStore E KindEpisodic w (em_store m)"

definition Episodic_Import :: "env \<Rightarrow> Snapshot \<Rightarrow> ImportMode \<Rightarrow> EpisodicMemory
    \<Rightarrow> (ImportReport \<times> error option) \<times> EpisodicMemory" where
  "Episodic_Import E snap mode m =
     (if sn_Kind snap \<noteq> KindEpisodic then
        ((zeroReport, Some (ErrWrapKind ''want episodic'' (sn_Kind snap) ErrSnapshotKindMismatch)), m)
      else case importIntoStore E snap mode (em_store m) of (r, s) \<Rightarrow> (r, m\<lparr>em_store := s\<rparr>))"

definition RestoreEpisodic :: "env \<Rightarrow> Embedder option \<Rightarrow> Snapshot \<Rightarrow> EpisodicOptions
    \<Rightarrow> error + EpisodicMemory" where
  "RestoreEpisodic E e snap opts = (case e of
       None \<Rightarrow> Inl ErrEmbedderRequired
     | Some e \<Rightarrow> (case NewEpisodic (Some e) opts of
         Inl err \<Rightarrow> Inl err
       | Inr m \<Rightarrow> (case Episodic_Import E snap ImportReplace m of
           ((_, Some err), _) \<Rightarrow> Inl err
         | ((_, None), m) \<Rightarrow> Inr m)))"


section \<open>Facts\<close>

lemma episodic_scores_world:
  "heap (snd (episodic_scores E opts hl cs w)) = heap w
   \<and> events (snd (episodic_scores E opts hl cs w)) = events w"
  by (induction cs arbitrary: w) (auto simp: Let_def split_beta)

lemma episodic_scores_items:
  "map sr_Item (fst (episodic_scores E opts hl cs w)) =
     filter (\<lambda>it. \<not> IsDisabled E (heap w) it) (map vc_Item cs)"
  by (induction cs arbitrary: w) (auto simp: Let_def split_beta)

text \<open>The score of an item: similarity and recency, weighted by its importance and source.\<close>

definition episodicScore :: "env \<Rightarrow> EpisodicMemory \<Rightarrow> vector \<Rightarrow> MemoryItem \<Rightarrow> 'z world_scheme \<Rightarrow> float64" where
  "episodicScore E m qv it w =
     f_mul (f_mul (f_add (f_mul (vectorScore qv (vectorAt (snd (snapshot (em_store m))) (ID it))) (Fin (8/10)))
                         (f_mul (fst (timeDecay E (CreatedAt it) (halfLifeOf E (em_opts m)) w)) (Fin (2/10))))
                  (importanceMultiplier (Importance it)))
           (savedBoostMultiplier E (heap w) it (eo_SavedBoost (em_opts m)))"

lemma timeDecay_next: "snd (timeDecay E t hl w) = w\<lparr>tick := Suc (tick w)\<rparr>"
  by (simp add: timeDecay_def time_Now_def Let_def)

lemma episodic_scores_tick:
  "\<exists>t. snd (episodic_scores E opts hl cs w) = w\<lparr>tick := t\<rparr> \<and> tick w \<le> t"
proof (induction cs arbitrary: w)
  case Nil
  show ?case by (intro exI [of _ "tick w"]) simp
next
  case (Cons x xs)
  obtain t where t: "snd (episodic_scores E opts hl xs (w\<lparr>tick := Suc (tick w)\<rparr>)) = w\<lparr>tick := t\<rparr>" "Suc (tick w) \<le> t"
    using Cons [of "w\<lparr>tick := Suc (tick w)\<rparr>"] by auto
  show ?case using Cons [of w] t by (auto simp: timeDecay_next Let_def split_beta intro!: exI [of _ t])
qed

lemma episodic_scores_scored:
  "r \<in> set (fst (episodic_scores E opts hl cs w)) \<Longrightarrow>
    \<exists>cd t. cd \<in> set cs \<and> tick w \<le> t \<and> t < tick (snd (episodic_scores E opts hl cs w)) \<and> sr_Item r = vc_Item cd
      \<and> sr_Score r = f_mul (f_mul (f_add (f_mul (vc_Similarity cd) (Fin (8/10)))
                                         (f_mul (fst (timeDecay E (CreatedAt (vc_Item cd)) hl (w\<lparr>tick := t\<rparr>))) (Fin (2/10))))
                                  (importanceMultiplier (Importance (vc_Item cd))))
                           (savedBoostMultiplier E (heap w) (vc_Item cd) (eo_SavedBoost opts))"
proof (induction cs arbitrary: w)
  case (Cons cd cs)
  let ?w1 = "w\<lparr>tick := Suc (tick w)\<rparr>"
  have lt: "tick w < tick (snd (episodic_scores E opts hl cs ?w1))"
    using episodic_scores_tick [of E opts hl cs ?w1] by auto
  show ?case
  proof (cases "IsDisabled E (heap w) (vc_Item cd)")
    case True
    then show ?thesis using Cons.IH [of w] Cons.prems by auto
  next
    case False
    then consider "r = \<lparr>sr_Item = vc_Item cd, sr_Score = f_mul (f_mul (f_add (f_mul (vc_Similarity cd) (Fin (8/10)))
              (f_mul (fst (timeDecay E (CreatedAt (vc_Item cd)) hl w)) (Fin (2/10)))) (importanceMultiplier (Importance (vc_Item cd))))
            (savedBoostMultiplier E (heap w) (vc_Item cd) (eo_SavedBoost opts))\<rparr>"
        | "r \<in> set (fst (episodic_scores E opts hl cs ?w1))"
      using Cons.prems by (auto simp: timeDecay_next Let_def split_beta)
    then show ?thesis
    proof cases
      case 1
      then show ?thesis using False lt
        by (intro exI [of _ cd] exI [of _ "tick w"]) (simp add: timeDecay_next Let_def split_beta)
    next
      case 2
      from Cons.IH [OF this] obtain ce t where ce: "ce \<in> set cs" "Suc (tick w) \<le> t"
          "t < tick (snd (episodic_scores E opts hl cs ?w1))" "sr_Item r = vc_Item ce"
          "sr_Score r = f_mul (f_mul (f_add (f_mul (vc_Similarity ce) (Fin (8/10)))
              (f_mul (fst (timeDecay E (CreatedAt (vc_Item ce)) hl (w\<lparr>tick := t\<rparr>))) (Fin (2/10)))) (importanceMultiplier (Importance (vc_Item ce))))
            (savedBoostMultiplier E (heap w) (vc_Item ce) (eo_SavedBoost opts))" by auto
      then show ?thesis using False by (intro exI [of _ ce] exI [of _ t]) (simp add: timeDecay_next Let_def split_beta)
    qed
  qed
qed simp

lemma Episodic_Search_world:
  assumes "Episodic_Search E c q k w m = (r, w')"
  shows "heap w' = heap w \<and> events w' = events w"
proof -
  have W: "heap (snd (Candidates E b c q its vecs e w)) = heap w"
      "events (snd (Candidates E b c q its vecs e w)) = events w" for b its vecs e
    by simp_all
  show ?thesis using assms W
    by (auto simp: episodic_scores_world Episodic_Search_def Let_def split_beta
        split: if_splits sum.splits option.splits prod.splits)
qed

text \<open>With the bundled backend, a search ranks one scored result per enabled item.\<close>

lemma Episodic_Search_Inr:
  assumes "Episodic_Search E c q k w m = (Inr res, w')"
    and "eo_VectorBackend (em_opts m) = Some inMemoryVectorBackend"
  shows "\<exists>out qv. res = topResults (defaultTopK k) out
    \<and> mset (map sr_Item out) =
        mset (filter (\<lambda>it. \<not> IsDisabled E (heap w) it) (map snd (items (em_store m))))
    \<and> fst (queryEmbedding (embedder (em_store m)) c q w) = Inr qv
    \<and> (store_wf (em_store m) \<longrightarrow>
        (\<forall>r \<in> set out. \<exists>t. tick w \<le> t \<and> t < tick w' \<and> sr_Score r = episodicScore E m qv (sr_Item r) (w\<lparr>tick := t\<rparr>)))"
proof -
  obtain r w1 where rw: "inMemory_Candidates E c q (items (em_store m)) (snd (snapshot (em_store m)))
        (embedder (em_store m)) w = (r, w1)" by (cases "inMemory_Candidates E c q (items (em_store m))
        (snd (snapshot (em_store m))) (embedder (em_store m)) w")
  with assms obtain cs where r: "r = Inr cs"
    and res: "res = topResults (defaultTopK k)
        (fst (episodic_scores E (em_opts m) (halfLifeOf E (em_opts m)) cs w1))"
      "w' = snd (episodic_scores E (em_opts m) (halfLifeOf E (em_opts m)) cs w1)"
    by (auto simp: Episodic_Search_def Candidates_def Let_def snapshot_def split_beta
        split: if_splits sum.splits)
  note cs = rw [unfolded r]
  have h: "heap w1 = heap w"
    using Candidates_world(1) [of E inMemoryVectorBackend c q "items (em_store m)"
        "snd (snapshot (em_store m))" "embedder (em_store m)" w] cs
    by (simp add: Candidates_def)
  have "mset (map sr_Item (fst (episodic_scores E (em_opts m) (halfLifeOf E (em_opts m)) cs w1)))
      = filter_mset (\<lambda>it. \<not> IsDisabled E (heap w) it) (mset (map vc_Item cs))"
    by (simp only: episodic_scores_items h mset_filter)
  also have "\<dots> = filter_mset (\<lambda>it. \<not> IsDisabled E (heap w) it) (mset (map snd (items (em_store m))))"
    by (simp only: inMemory_Candidates_items [OF cs])
  finally have ms: "mset (map sr_Item (fst (episodic_scores E (em_opts m) (halfLifeOf E (em_opts m)) cs w1)))
      = mset (filter (\<lambda>it. \<not> IsDisabled E (heap w) it) (map snd (items (em_store m))))" by (simp only: mset_filter)
  obtain qv where qv: "fst (queryEmbedding (embedder (em_store m)) c q w) = Inr qv" and w1: "w1 = w\<lparr>tick := Suc (Suc (tick w))\<rparr>"
    and sim: "\<forall>cd \<in> set cs. \<exists>i. (i, vc_Item cd) \<in> set (items (em_store m))
        \<and> vc_Similarity cd = vectorScore qv (vectorAt (snd (snapshot (em_store m))) i)"
    using inMemory_Candidates_similarity [OF cs] by blast
  have "\<exists>t. tick w \<le> t \<and> t < tick w' \<and> sr_Score r = episodicScore E m qv (sr_Item r) (w\<lparr>tick := t\<rparr>)"
    if wf: "store_wf (em_store m)" and r: "r \<in> set (fst (episodic_scores E (em_opts m) (halfLifeOf E (em_opts m)) cs w1))" for r
  proof -
    from episodic_scores_scored [OF r] obtain cd t where cd: "cd \<in> set cs" "tick w1 \<le> t" "t < tick w'" "sr_Item r = vc_Item cd"
      and sc: "sr_Score r = f_mul (f_mul (f_add (f_mul (vc_Similarity cd) (Fin (8/10)))
            (f_mul (fst (timeDecay E (CreatedAt (vc_Item cd)) (halfLifeOf E (em_opts m)) (w1\<lparr>tick := t\<rparr>))) (Fin (2/10))))
            (importanceMultiplier (Importance (vc_Item cd)))) (savedBoostMultiplier E (heap w1) (vc_Item cd) (eo_SavedBoost (em_opts m)))"
      using res(2) by blast
    obtain i where i: "(i, vc_Item cd) \<in> set (items (em_store m))"
        "vc_Similarity cd = vectorScore qv (vectorAt (snd (snapshot (em_store m))) i)" using sim cd(1) by blast
    have "ID (vc_Item cd) = i" using store_wfD(1,4) [OF wf] in_mget_Some i(1) by metis
    then have "sr_Score r = episodicScore E m qv (sr_Item r) (w\<lparr>tick := t\<rparr>)"
      unfolding sc episodicScore_def cd(4) i(2) w1 by simp
    then show ?thesis using cd(2,3) w1 by (intro exI [of _ t]) simp
  qed
  then show ?thesis using res(1) qv ms by blast
qed


section \<open>Properties\<close>

definition sampleEpisodic :: EpisodicMemory where
  "sampleEpisodic = \<lparr>em_store = sampleStore sampleEmbedder,
     em_opts = \<lparr>eo_RecencyHalfLifeDays = Fin 30, eo_SavedBoost = Fin 1, eo_VectorBackend = Some inMemoryVectorBackend\<rparr>\<rparr>"

lemma sampleEpisodic_simps [simp]:
  "em_store sampleEpisodic = sampleStore sampleEmbedder"
  "eo_VectorBackend (em_opts sampleEpisodic) = Some inMemoryVectorBackend"
  by (simp_all add: sampleEpisodic_def)

text \<open>
  C34. A successful episodic search with the bundled backend returns only stored items that
  are not disabled, none twice, as many as there are up to the limit; they are the best of one
  result per enabled item, in descending order, when no score is NaN. The score of a result is
  that of its item: similarity of the embedded query to its vector and recency at a moment of
  the call, weighted by its importance and source.
\<close>

theorem episodic_search_ranked:
  assumes "store_wf (em_store m)" and "eo_VectorBackend (em_opts m) = Some inMemoryVectorBackend"
    and "Episodic_Search E c q k w m = (Inr res, w')"
  shows "\<exists>out. mset (map sr_Item out) = mset (filter (\<lambda>it. \<not> IsDisabled E (heap w) it) (map snd (items (em_store m))))
    \<and> (\<exists>qv. fst (queryEmbedding (embedder (em_store m)) c q w) = Inr qv
        \<and> (\<forall>r \<in> set out. \<exists>t. tick w \<le> t \<and> t < tick w' \<and> sr_Score r = episodicScore E m qv (sr_Item r) (w\<lparr>tick := t\<rparr>)))
    \<and> set res \<subseteq> set out \<and> distinct (map (ID \<circ> sr_Item) out)
    \<and> length res = min (nat (defaultTopK k)) (length out)
    \<and> ((\<forall>r \<in> set out. sr_Score r \<noteq> NaN) \<longrightarrow>
         sorted_wrt (\<lambda>a b. \<not> f_lt (sr_Score a) (sr_Score b)) res
         \<and> (\<forall>a \<in> set res. \<forall>b \<in> set out - set res. \<not> f_lt (sr_Score a) (sr_Score b)))"
proof -
  obtain out qv where out: "res = topResults (defaultTopK k) out"
    and ms: "mset (map sr_Item out) = mset (filter (\<lambda>it. \<not> IsDisabled E (heap w) it) (map snd (items (em_store m))))"
    and sc: "fst (queryEmbedding (embedder (em_store m)) c q w) = Inr qv"
      "\<forall>r \<in> set out. \<exists>t. tick w \<le> t \<and> t < tick w' \<and> sr_Score r = episodicScore E m qv (sr_Item r) (w\<lparr>tick := t\<rparr>)"
    using Episodic_Search_Inr [OF assms(3,2)] assms(1) by blast
  show ?thesis using ranked_results [OF assms(1) ms] ms sc unfolding out by blast
qed

theorem episodic_search_ranked_witness:
  "\<exists>res. fst (Episodic_Search sampleEnv sampleCtx ''old'' 3 sampleWorld sampleEpisodic) = Inr res
    \<and> length res = 1"
  (is "\<exists>res. fst ?S = _ \<and> _")
proof -
  have trim: "strings_TrimSpace ''old'' \<noteq> ''''" by code_simp
  obtain res where res: "fst ?S = Inr res"
    using trim by (auto simp: Episodic_Search_def Candidates_def inMemory_Candidates_def queryEmbedding_def
        sampleEmbedder_def Let_def split_beta)
  then have S: "?S = (Inr res, snd ?S)" by (metis prod.collapse)
  have items: "filter (\<lambda>it. \<not> IsDisabled sampleEnv (heap sampleWorld) it) (map snd (items (em_store sampleEpisodic)))
      = [sampleItem ''k'' ''old'']"
    by (simp add: IsDisabled_def meta_of_def sample_flag_def)
  have wf: "store_wf (em_store sampleEpisodic)" by (simp add: sampleStore_wf)
  obtain out :: "SearchResult list" where out: "mset (map sr_Item out) = mset [sampleItem ''k'' ''old'']"
      "length res = min (nat (defaultTopK 3)) (length out)"
    using episodic_search_ranked [OF wf _ S] unfolding items by auto
  have "length out = 1" using arg_cong [OF out(1), of size] by simp
  then show ?thesis using res out(2) by (simp add: defaultTopK_def)
qed

end
