(* ===== verification/Semantic.thy ===== *)
theory Semantic
  imports Ranking Listing Persistence
begin

text \<open>
  \<^verbatim>\<open>engine_semantic.go\<close>: the semantic memory, whose queries may carry a tag
  prefix that restricts the results to items with a matching tag.
\<close>


section \<open>Query tags\<close>

definition splitCSV :: "string \<Rightarrow> string list" where
  "splitCSV s = filter (\<lambda>p. p \<noteq> '''') (map strings_TrimSpace (strings_Split s CHR '',''))"

definition tagPrefix :: string where "tagPrefix = ''tag:''"

definition parseTagPrefix :: "string \<Rightarrow> string \<times> string list" where
  "parseTagPrefix query =
     (let q = strings_TrimSpace query
      in if \<not> strings_HasPrefix q tagPrefix then (query, [])
         else
           let rest = drop (length tagPrefix) q
           in case strings_IndexByte rest CHR '' '' of
                None \<Rightarrow> ('''', splitCSV rest)
              | Some sp \<Rightarrow> (strings_TrimSpace (drop (sp + 1) rest), splitCSV (take sp rest)))"

definition anyTagMatches :: "env \<Rightarrow> string list \<Rightarrow> string list \<Rightarrow> bool" where
  "anyTagMatches E want have \<longleftrightarrow> list_ex (\<lambda>t. ToLower E t \<in> set (map (ToLower E) want)) have"


section \<open>State and constructor\<close>

record SemanticOptions =
  so_SavedBoost :: float64
  so_VectorBackend :: "VectorBackend option"

record SemanticMemory =
  sm_store :: scoredStore
  sm_opts :: SemanticOptions

definition NewSemantic :: "Embedder option \<Rightarrow> SemanticOptions \<Rightarrow> error + SemanticMemory" where
  "NewSemantic e opts = (case e of
       None \<Rightarrow> Inl ErrEmbedderRequired
     | Some e \<Rightarrow>
         let opts = (if so_VectorBackend opts = None
                     then opts\<lparr>so_VectorBackend := Some inMemoryVectorBackend\<rparr> else opts)
         in Inr \<lparr>sm_store = newScoredStore ''sem'' e, sm_opts = opts\<rparr>)"


section \<open>Operations\<close>

definition Semantic_Type :: "SemanticMemory \<Rightarrow> Kind" where
  "Semantic_Type m = KindSemantic"

definition Semantic_Add :: "env \<Rightarrow> ctx \<Rightarrow> MemoryItem \<Rightarrow> 'z world_scheme \<Rightarrow> SemanticMemory
    \<Rightarrow> (error + string) \<times> 'z world_scheme \<times> SemanticMemory" where
  "Semantic_Add E c item w m =
     (case store_add E c item w (sm_store m) of (r, w, s) \<Rightarrow> (r, w, m\<lparr>sm_store := s\<rparr>))"

fun semantic_scores :: "env \<Rightarrow> SemanticOptions \<Rightarrow> meta list \<Rightarrow> string list \<Rightarrow> VectorCandidate list
    \<Rightarrow> SearchResult list" where
  "semantic_scores E opts h queryTags [] = []"
| "semantic_scores E opts h queryTags (candidate # rest) =
     (let it = vc_Item candidate
      in if IsDisabled E h it then semantic_scores E opts h queryTags rest
         else if length queryTags > 0 \<and> \<not> anyTagMatches E queryTags (Tags it)
         then semantic_scores E opts h queryTags rest
         else
           let tag = tagOverlap E queryTags (Tags it);
               score = f_mul (f_mul (f_add (f_mul (vc_Similarity candidate) (Fin (7/10)))
                                           (f_mul tag (Fin (3/10))))
                                    (importanceMultiplier (Importance it)))
                             (savedBoostMultiplier E h it (so_SavedBoost opts))
           in \<lparr>sr_Item = it, sr_Score = score\<rparr> # semantic_scores E opts h queryTags rest)"

definition Semantic_Search :: "env \<Rightarrow> ctx \<Rightarrow> string \<Rightarrow> int \<Rightarrow> 'z world_scheme \<Rightarrow> SemanticMemory
    \<Rightarrow> (error + SearchResult list) \<times> 'z world_scheme" where
  "Semantic_Search E c query topK w m =
     (if strings_TrimSpace query = '''' then (Inl ErrEmptyQuery, w)
      else
        let topK = defaultTopK topK;
            (queryText, queryTags) = parseTagPrefix query;
            (its, vecs) = snapshot (sm_store m)
        in case so_VectorBackend (sm_opts m) of
             None \<Rightarrow> (Inl (ErrPanic ''nil pointer dereference''), w)
           | Some b \<Rightarrow> (case Candidates E b c queryText its vecs (embedder (sm_store m)) w of
               (Inl err, w) \<Rightarrow> (Inl err, w)
             | (Inr candidates, w) \<Rightarrow>
                 (Inr (topResults topK (semantic_scores E (sm_opts m) (heap w) queryTags candidates)), w)))"

definition Semantic_Get :: "env \<Rightarrow> string \<Rightarrow> 'z world_scheme \<Rightarrow> SemanticMemory
    \<Rightarrow> (error + MemoryItem) \<times> 'z world_scheme \<times> SemanticMemory" where
  "Semantic_Get E i w m = (case store_get E i w (sm_store m) of (r, w, s) \<Rightarrow> (r, w, m\<lparr>sm_store := s\<rparr>))"

definition Semantic_Update :: "env \<Rightarrow> ctx \<Rightarrow> string \<Rightarrow> updater \<Rightarrow> 'z world_scheme \<Rightarrow> SemanticMemory
    \<Rightarrow> (error + unit) \<times> 'z world_scheme \<times> SemanticMemory" where
  "Semantic_Update E c i fn w m =
     (case store_update E c i fn w (sm_store m) of (r, w, s) \<Rightarrow> (r, w, m\<lparr>sm_store := s\<rparr>))"

definition Semantic_Remove :: "string \<Rightarrow> SemanticMemory \<Rightarrow> (error + unit) \<times> SemanticMemory" where
  "Semantic_Remove i m = (case store_remove i (sm_store m) of (r, s) \<Rightarrow> (r, m\<lparr>sm_store := s\<rparr>))"

definition Semantic_Stats :: "env \<Rightarrow> 'z world_scheme \<Rightarrow> SemanticMemory \<Rightarrow> Stats \<times> 'z world_scheme" where
  "Semantic_Stats E w m = store_stats E 0 w (sm_store m)"

definition Semantic_List :: "env \<Rightarrow> ListFilter \<Rightarrow> int \<Rightarrow> string \<Rightarrow> 'z world_scheme \<Rightarrow> SemanticMemory
    \<Rightarrow> (error + ListPage) \<times> 'z world_scheme" where
  "Semantic_List E f pageSize cursor w m = listFromStore E f pageSize cursor w (sm_store m)"

definition Semantic_Export :: "env \<Rightarrow> 'z world_scheme \<Rightarrow> SemanticMemory \<Rightarrow> Snapshot \<times> 'z world_scheme" where
  "Semantic_Export E w m = exportFromStore E KindSemantic w (sm_store m)"

definition Semantic_Import :: "env \<Rightarrow> Snapshot \<Rightarrow> ImportMode \<Rightarrow> SemanticMemory
    \<Rightarrow> (ImportReport \<times> error option) \<times> SemanticMemory" where
  "Semantic_Import E snap mode m =
     (if sn_Kind snap \<noteq> KindSemantic then
        ((zeroReport, Some (ErrWrapKind ''want semantic'' (sn_Kind snap) ErrSnapshotKindMismatch)), m)
      else case importIntoStore E snap mode (sm_store m) of (r, s) \<Rightarrow> (r, m\<lparr>sm_store := s\<rparr>))"

definition RestoreSemantic :: "env \<Rightarrow> Embedder option \<Rightarrow> Snapshot \<Rightarrow> SemanticOptions
    \<Rightarrow> error + SemanticMemory" where
  "RestoreSemantic E e snap opts = (case e of
       None \<Rightarrow> Inl ErrEmbedderRequired
     | Some e \<Rightarrow> (case NewSemantic (Some e) opts of
         Inl err \<Rightarrow> Inl err
       | Inr m \<Rightarrow> (case Semantic_Import E snap ImportReplace m of
           ((_, Some err), _) \<Rightarrow> Inl err
         | ((_, None), m) \<Rightarrow> Inr m)))"


section \<open>Facts\<close>

lemma semantic_scores_items:
  "map sr_Item (semantic_scores E opts h tags cs) =
     filter (\<lambda>it. \<not> IsDisabled E h it \<and> (tags = [] \<or> anyTagMatches E tags (Tags it))) (map vc_Item cs)"
  by (induction cs) (auto simp: Let_def)

text \<open>The score of an item: similarity and tag overlap, weighted by its importance and source.\<close>

definition semanticScore :: "env \<Rightarrow> SemanticMemory \<Rightarrow> meta list \<Rightarrow> string list \<Rightarrow> vector \<Rightarrow> MemoryItem \<Rightarrow> float64" where
  "semanticScore E m h tags qv it =
     f_mul (f_mul (f_add (f_mul (vectorScore qv (vectorAt (snd (snapshot (sm_store m))) (ID it))) (Fin (7/10)))
                         (f_mul (tagOverlap E tags (Tags it)) (Fin (3/10))))
                  (importanceMultiplier (Importance it)))
           (savedBoostMultiplier E h it (so_SavedBoost (sm_opts m)))"

lemma semantic_scores_scored:
  "r \<in> set (semantic_scores E opts h tags cs) \<Longrightarrow> \<exists>cd \<in> set cs. sr_Item r = vc_Item cd
    \<and> sr_Score r = f_mul (f_mul (f_add (f_mul (vc_Similarity cd) (Fin (7/10))) (f_mul (tagOverlap E tags (Tags (vc_Item cd))) (Fin (3/10))))
                                (importanceMultiplier (Importance (vc_Item cd))))
                         (savedBoostMultiplier E h (vc_Item cd) (so_SavedBoost opts))"
  by (induction cs) (auto simp: Let_def split: if_splits)

lemma Semantic_Search_world:
  assumes "Semantic_Search E c q k w m = (r, w')"
  shows "heap w' = heap w \<and> events w' = events w"
proof -
  have W: "heap (snd (Candidates E b c t its vecs e w)) = heap w"
      "events (snd (Candidates E b c t its vecs e w)) = events w" for b its vecs e t
    by simp_all
  show ?thesis using assms W
    by (auto simp: Semantic_Search_def Let_def split_beta
        split: if_splits sum.splits option.splits prod.splits)
qed

lemma Semantic_Search_Inr:
  assumes "Semantic_Search E c q k w m = (Inr res, w')"
    and "so_VectorBackend (sm_opts m) = Some inMemoryVectorBackend"
  shows "\<exists>out qv. res = topResults (defaultTopK k) out
    \<and> mset (map sr_Item out) =
        mset (filter (\<lambda>it. \<not> IsDisabled E (heap w) it
            \<and> (snd (parseTagPrefix q) = [] \<or> anyTagMatches E (snd (parseTagPrefix q)) (Tags it)))
          (map snd (items (sm_store m))))
    \<and> fst (queryEmbedding (embedder (sm_store m)) c (fst (parseTagPrefix q)) w) = Inr qv
    \<and> (store_wf (sm_store m) \<longrightarrow>
        (\<forall>r \<in> set out. sr_Score r = semanticScore E m (heap w) (snd (parseTagPrefix q)) qv (sr_Item r)))"
proof -
  let ?t = "fst (parseTagPrefix q)" and ?tags = "snd (parseTagPrefix q)"
  obtain r w1 where rw: "inMemory_Candidates E c ?t (items (sm_store m)) (snd (snapshot (sm_store m)))
        (embedder (sm_store m)) w = (r, w1)" by (cases "inMemory_Candidates E c ?t (items (sm_store m))
        (snd (snapshot (sm_store m))) (embedder (sm_store m)) w")
  with assms obtain cs where r: "r = Inr cs"
    and res: "res = topResults (defaultTopK k) (semantic_scores E (sm_opts m) (heap w1) ?tags cs)"
    by (auto simp: Semantic_Search_def Candidates_def Let_def snapshot_def split_beta
        split: if_splits sum.splits)
  note cs = rw [unfolded r]
  have h: "heap w1 = heap w"
    using Candidates_world(1) [of E inMemoryVectorBackend c ?t "items (sm_store m)"
        "snd (snapshot (sm_store m))" "embedder (sm_store m)" w] cs
    by (simp add: Candidates_def)
  let ?P = "\<lambda>it. \<not> IsDisabled E (heap w) it \<and> (?tags = [] \<or> anyTagMatches E ?tags (Tags it))"
  have "mset (map sr_Item (semantic_scores E (sm_opts m) (heap w1) ?tags cs))
      = filter_mset ?P (mset (map vc_Item cs))"
    by (simp only: semantic_scores_items h mset_filter)
  also have "\<dots> = filter_mset ?P (mset (map snd (items (sm_store m))))"
    by (simp only: inMemory_Candidates_items [OF cs])
  finally have ms: "mset (map sr_Item (semantic_scores E (sm_opts m) (heap w1) ?tags cs)) = mset (filter ?P (map snd (items (sm_store m))))"
    by (simp only: mset_filter)
  obtain qv where qv: "fst (queryEmbedding (embedder (sm_store m)) c ?t w) = Inr qv"
    and sim: "\<forall>cd \<in> set cs. \<exists>i. (i, vc_Item cd) \<in> set (items (sm_store m))
        \<and> vc_Similarity cd = vectorScore qv (vectorAt (snd (snapshot (sm_store m))) i)"
    using inMemory_Candidates_similarity [OF cs] by blast
  have "sr_Score r = semanticScore E m (heap w) ?tags qv (sr_Item r)"
    if wf: "store_wf (sm_store m)" and r: "r \<in> set (semantic_scores E (sm_opts m) (heap w1) ?tags cs)" for r
  proof -
    obtain cd where cd: "cd \<in> set cs" "sr_Item r = vc_Item cd"
      and sc: "sr_Score r = f_mul (f_mul (f_add (f_mul (vc_Similarity cd) (Fin (7/10)))
            (f_mul (tagOverlap E ?tags (Tags (vc_Item cd))) (Fin (3/10)))) (importanceMultiplier (Importance (vc_Item cd))))
          (savedBoostMultiplier E (heap w1) (vc_Item cd) (so_SavedBoost (sm_opts m)))"
      using semantic_scores_scored [OF r] by blast
    obtain i where i: "(i, vc_Item cd) \<in> set (items (sm_store m))"
        "vc_Similarity cd = vectorScore qv (vectorAt (snd (snapshot (sm_store m))) i)" using sim cd(1) by blast
    have "ID (vc_Item cd) = i" using store_wfD(1,4) [OF wf] in_mget_Some i(1) by metis
    then show ?thesis unfolding sc semanticScore_def cd(2) i(2) h by simp
  qed
  then show ?thesis using res qv ms by blast
qed


section \<open>Properties\<close>

definition sampleSemantic :: SemanticMemory where
  "sampleSemantic = \<lparr>sm_store = sampleStore sampleEmbedder,
     sm_opts = \<lparr>so_SavedBoost = Fin 1, so_VectorBackend = Some inMemoryVectorBackend\<rparr>\<rparr>"

lemma sampleSemantic_simps [simp]:
  "sm_store sampleSemantic = sampleStore sampleEmbedder"
  "so_VectorBackend (sm_opts sampleSemantic) = Some inMemoryVectorBackend"
  by (simp_all add: sampleSemantic_def)

text \<open>
  C35. A semantic search restricts to tags: with the bundled backend there is one scored result
  per stored item that is enabled and, when the query names tags, carries one of them up to
  case. Its score is that of its item: similarity of the embedded query text to its vector and
  overlap with the tags, weighted by its importance and source. The results are the best of
  those up to the limit, none twice, in descending order when no score is NaN.
\<close>

theorem semantic_search_ranked:
  assumes "store_wf (sm_store m)" and "so_VectorBackend (sm_opts m) = Some inMemoryVectorBackend"
    and "Semantic_Search E c q k w m = (Inr res, w')"
  shows "\<exists>out. mset (map sr_Item out) = mset (filter (\<lambda>it. \<not> IsDisabled E (heap w) it
        \<and> (snd (parseTagPrefix q) = [] \<or> (\<exists>t \<in> set (Tags it). \<exists>u \<in> set (snd (parseTagPrefix q)). ToLower E t = ToLower E u)))
      (map snd (items (sm_store m))))
    \<and> (\<exists>qv. fst (queryEmbedding (embedder (sm_store m)) c (fst (parseTagPrefix q)) w) = Inr qv
        \<and> (\<forall>r \<in> set out. sr_Score r = semanticScore E m (heap w) (snd (parseTagPrefix q)) qv (sr_Item r)))
    \<and> set res \<subseteq> set out \<and> distinct (map (ID \<circ> sr_Item) out)
    \<and> length res = min (nat (defaultTopK k)) (length out)
    \<and> ((\<forall>r \<in> set out. sr_Score r \<noteq> NaN) \<longrightarrow>
         sorted_wrt (\<lambda>a b. \<not> f_lt (sr_Score a) (sr_Score b)) res
         \<and> (\<forall>a \<in> set res. \<forall>b \<in> set out - set res. \<not> f_lt (sr_Score a) (sr_Score b)))"
proof -
  have tags: "anyTagMatches E want have \<longleftrightarrow> (\<exists>t \<in> set have. \<exists>u \<in> set want. ToLower E t = ToLower E u)" for want "have"
    by (auto simp: anyTagMatches_def list_ex_iff)
  obtain out qv where out: "res = topResults (defaultTopK k) out"
    and sc: "fst (queryEmbedding (embedder (sm_store m)) c (fst (parseTagPrefix q)) w) = Inr qv"
      "\<forall>r \<in> set out. sr_Score r = semanticScore E m (heap w) (snd (parseTagPrefix q)) qv (sr_Item r)"
    and ms: "mset (map sr_Item out) = mset (filter (\<lambda>it. \<not> IsDisabled E (heap w) it
        \<and> (snd (parseTagPrefix q) = [] \<or> anyTagMatches E (snd (parseTagPrefix q)) (Tags it)))
      (map snd (items (sm_store m))))"
    using Semantic_Search_Inr [OF assms(3,2)] assms(1) by blast
  show ?thesis using ranked_results [OF assms(1) ms] ms sc unfolding out tags by blast
qed

theorem semantic_search_ranked_witness:
  "\<exists>res. fst (Semantic_Search sampleEnv sampleCtx ''old'' 3 sampleWorld sampleSemantic) = Inr res \<and> length res = 1
    \<and> map sr_Score res = [semanticScore sampleEnv sampleSemantic (heap sampleWorld) [] (Some [Fin 3, Fin 1]) (sampleItem ''k'' ''old'')]"
  (is "\<exists>res. fst ?S = _ \<and> _ \<and> _")
proof -
  have trim: "strings_TrimSpace ''old'' \<noteq> ''''" by code_simp
  have parse: "parseTagPrefix ''old'' = (''old'', [])" by code_simp
  obtain res where res: "fst ?S = Inr res"
    using trim by (auto simp: Semantic_Search_def Candidates_def inMemory_Candidates_def queryEmbedding_def
        sampleEmbedder_def Let_def split_beta)
  then have S: "?S = (Inr res, snd ?S)" by (metis prod.collapse)
  have items: "filter (\<lambda>it. \<not> IsDisabled sampleEnv (heap sampleWorld) it \<and> (([] :: string list) = [] \<or> Q it)) (map snd (items (sm_store sampleSemantic)))
      = [sampleItem ''k'' ''old'']" for Q
    by (simp add: IsDisabled_def meta_of_def sample_flag_def)
  have wf: "store_wf (sm_store sampleSemantic)" by (simp add: sampleStore_wf)
  have qv: "fst (queryEmbedding (embedder (sm_store sampleSemantic)) sampleCtx ''old'' sampleWorld) = Inr (Some [Fin 3, Fin 1])"
    by (simp add: queryEmbedding_def sampleEmbedder_def f_of_int_def)
  obtain out :: "SearchResult list" where out: "mset (map sr_Item out) = mset [sampleItem ''k'' ''old'']"
      "\<forall>r \<in> set out. sr_Score r = semanticScore sampleEnv sampleSemantic (heap sampleWorld) [] (Some [Fin 3, Fin 1]) (sr_Item r)"
      "set res \<subseteq> set out" "length res = min (nat (defaultTopK 3)) (length out)"
    using semantic_search_ranked [OF wf _ S] unfolding parse fst_conv snd_conv items qv by auto
  obtain r where r: "out = [r]" "sr_Item r = sampleItem ''k'' ''old''"
    using out(1) by (cases out) auto
  have "length res = 1" using out(4) r(1) by (simp add: defaultTopK_def)
  then obtain x where "res = [x]" by (metis One_nat_def length_0_conv length_Suc_conv)
  then show ?thesis using res r out(2,3) by simp
qed

text \<open>
  The tag prefix: a query without the prefix is searched as it is, with no tags; the
  tags a query names are trimmed and never empty.
\<close>

theorem parseTagPrefix_tags:
  "(\<not> strings_HasPrefix (strings_TrimSpace q) ''tag:'' \<longrightarrow> parseTagPrefix q = (q, []))
   \<and> (\<forall>t \<in> set (snd (parseTagPrefix q)). t \<noteq> '''' \<and> (\<exists>p. t = strings_TrimSpace p))
   \<and> (\<forall>ts rest. strings_TrimSpace q = ''tag:'' @ ts @ '' '' @ rest \<longrightarrow> CHR '' '' \<notin> set ts \<longrightarrow>
        parseTagPrefix q = (strings_TrimSpace rest, splitCSV ts))"
proof -
  have csv: "\<forall>t \<in> set (splitCSV s). t \<noteq> '''' \<and> (\<exists>p. t = strings_TrimSpace p)" for s
    by (auto simp: splitCSV_def)
  have idx: "CHR '' '' \<notin> set ts \<Longrightarrow> strings_IndexByte (ts @ CHR '' '' # rest) CHR '' '' = Some (length ts)" for ts rest
    by (induction ts) auto
  show ?thesis
    using csv idx by (auto simp: parseTagPrefix_def tagPrefix_def Let_def strings_HasPrefix_iff split: option.splits)
qed

theorem parseTagPrefix_tags_witness: "parseTagPrefix ''plain'' = (''plain'', [])"
proof -
  have "\<not> strings_HasPrefix (strings_TrimSpace ''plain'') ''tag:''" by code_simp
  then show ?thesis using parseTagPrefix_tags [of "''plain''"] by simp
qed

end
