(* ===== verification/Observer.thy ===== *)
theory Observer
  imports Contract
begin

text \<open>
  \<^verbatim>\<open>observer.go\<close>: event names, the guarded emitter and the functional options.
  An observer is a sink outside the package that only receives events; it is named by a
  number, and what it was sent is the log of the world. \<open>None\<close> is the nil observer.
\<close>


section \<open>Events\<close>

type_synonym Observer = "nat option"

definition EventAddTotal :: string where "EventAddTotal = ''memory_add_total''"
definition EventSearchTotal :: string where "EventSearchTotal = ''memory_search_total''"
definition EventSearchHits :: string where "EventSearchHits = ''memory_search_hits''"
definition EventConsolidatedTotal :: string where "EventConsolidatedTotal = ''memory_consolidated_total''"
definition EventForgottenTotal :: string where "EventForgottenTotal = ''memory_forgotten_total''"
definition EventSnapshotItems :: string where "EventSnapshotItems = ''memory_snapshot_items''"
definition EventSnapshotVectorsBytes :: string where
  "EventSnapshotVectorsBytes = ''memory_snapshot_vectors_bytes''"
definition EventWritePolicyDecided :: string where
  "EventWritePolicyDecided = ''memory_write_policy_decided''"

definition emit :: "Observer \<Rightarrow> string \<Rightarrow> (string \<times> any) list \<Rightarrow> 'z world_scheme \<Rightarrow> 'z world_scheme" where
  "emit ob name attrs w = (case ob of
       None \<Rightarrow> w
     | Some n \<Rightarrow> w\<lparr>events := events w @ [(n, \<lparr>ev_Name = name, ev_Attrs = attrs\<rparr>)]\<rparr>)"


section \<open>Options\<close>

record config =
  observer :: Observer

type_synonym Option = "config \<Rightarrow> config"

definition WithObserver :: "Observer \<Rightarrow> Option" where
  "WithObserver ob c = c\<lparr>observer := ob\<rparr>"

text \<open>The fold over the options; a nil option is skipped.\<close>

fun newConfig_loop :: "Option option list \<Rightarrow> config \<Rightarrow> config" where
  "newConfig_loop [] c = c"
| "newConfig_loop (None # opts) c = newConfig_loop opts c"
| "newConfig_loop (Some opt # opts) c = newConfig_loop opts (opt c)"

definition newConfig :: "Option option list \<Rightarrow> config" where
  "newConfig opts = newConfig_loop opts \<lparr>observer = None\<rparr>"


section \<open>Facts\<close>

lemma emit_world [frame_simps, simp]:
  "heap (emit ob name attrs w) = heap w" "tick (emit ob name attrs w) = tick w"
  "world.more (emit ob name attrs w) = world.more w"
  by (simp_all add: emit_def split: option.splits)

lemma emit_nil [simp]: "emit None name attrs w = w"
  by (simp add: emit_def)

lemma newConfig_loop_append: "newConfig_loop (xs @ ys) c = newConfig_loop ys (newConfig_loop xs c)"
  by (induction xs c rule: newConfig_loop.induct) simp_all

lemma newConfig_last: "observer (newConfig (opts @ [Some (WithObserver ob)])) = ob"
  by (simp add: newConfig_def newConfig_loop_append WithObserver_def)

end
