(* ===== verification/Manager.thy ===== *)
theory Manager
  imports Observer ItemHelpers
begin

text \<open>
  \<^verbatim>\<open>manager.go\<close>: the coordinator that dispatches on the kind of a memory. The
  interfaces of the contract are records of functions on a state \<open>'s\<close>; an optional
  interface that the code finds by a type assertion is an optional field. A method that
  returns a value beside its error returns both here too.
\<close>


section \<open>Interfaces\<close>

type_synonym 's Lister = "ctx \<Rightarrow> ListFilter \<Rightarrow> int \<Rightarrow> string \<Rightarrow> 's \<Rightarrow> (error + ListPage) \<times> 's"
type_synonym 's Exporter = "ctx \<Rightarrow> 's \<Rightarrow> (error + Snapshot) \<times> 's"
type_synonym 's Importer = "ctx \<Rightarrow> Snapshot \<Rightarrow> ImportMode \<Rightarrow> 's \<Rightarrow> (ImportReport \<times> error option) \<times> 's"

record 's Memory =
  mem_Type :: Kind
  mem_Add :: "ctx \<Rightarrow> MemoryItem \<Rightarrow> 's \<Rightarrow> (error + string) \<times> 's"
  mem_Search :: "ctx \<Rightarrow> string \<Rightarrow> int \<Rightarrow> 's \<Rightarrow> (error + SearchResult list) \<times> 's"
  mem_Get :: "ctx \<Rightarrow> string \<Rightarrow> 's \<Rightarrow> (error + MemoryItem) \<times> 's"
  mem_Update :: "ctx \<Rightarrow> string \<Rightarrow> updater \<Rightarrow> 's \<Rightarrow> (error + unit) \<times> 's"
  mem_Remove :: "ctx \<Rightarrow> string \<Rightarrow> 's \<Rightarrow> (error + unit) \<times> 's"
  mem_Stats :: "'s \<Rightarrow> Stats \<times> 's"
  mem_asLister :: "'s Lister option"
  mem_asExporter :: "'s Exporter option"
  mem_asImporter :: "'s Importer option"

record 's LifecycleMemory =
  lm_Consolidate :: "ctx \<Rightarrow> ConsolidateOptions \<Rightarrow> 's \<Rightarrow> (int \<times> error option) \<times> 's"
  lm_Forget :: "ctx \<Rightarrow> Kind \<Rightarrow> ForgetOptions \<Rightarrow> 's \<Rightarrow> (int \<times> error option) \<times> 's"

record 's SnapshotStore =
  ss_Save :: "ctx \<Rightarrow> string \<Rightarrow> Snapshot \<Rightarrow> 's \<Rightarrow> error option \<times> 's"
  ss_Load :: "ctx \<Rightarrow> string \<Rightarrow> 's \<Rightarrow> (error + Snapshot) \<times> 's"
  ss_asKindLoader :: "(ctx \<Rightarrow> string \<Rightarrow> Kind \<Rightarrow> 's \<Rightarrow> (error + Snapshot) \<times> 's) option"

record 's TierOptions =
  to_Memory :: "'s Memory option"
  to_Lister :: "'s Lister option"
  to_Exporter :: "'s Exporter option"
  to_Importer :: "'s Importer option"
  to_Lifecycle :: "'s LifecycleMemory option"

definition zeroTier :: "'s TierOptions" where
  "zeroTier = \<lparr>to_Memory = None, to_Lister = None, to_Exporter = None, to_Importer = None,
     to_Lifecycle = None\<rparr>"

record 's Options =
  o_Working :: "'s TierOptions"
  o_Episodic :: "'s TierOptions"
  o_Semantic :: "'s TierOptions"
  o_SnapshotStore :: "'s SnapshotStore option"

record 's Manager =
  m_opts :: "'s Options"


section \<open>Tiers\<close>

text \<open>
  Every value of the interface \<^verbatim>\<open>Memory\<close> has the seven methods the type switch asks
  for, so only nil is refused.
\<close>

definition asLocalMemory :: "'s Memory option \<Rightarrow> 's Memory option" where
  "asLocalMemory v = (case v of None \<Rightarrow> None | Some mem \<Rightarrow> Some mem)"

definition requireLocalMemory :: "'s Memory option \<Rightarrow> error + 's Memory" where
  "requireLocalMemory mem = (case asLocalMemory mem of
       None \<Rightarrow> Inl (ErrText ''memory: unsupported Memory implementation'')
     | Some local \<Rightarrow> Inr local)"

definition NewManager :: "'s Options \<Rightarrow> error + 's Manager" where
  "NewManager opts =
     (if to_Memory (o_Working opts) = None \<and> to_Memory (o_Episodic opts) = None
         \<and> to_Memory (o_Semantic opts) = None
      then Inl ErrNoTiers else Inr \<lparr>m_opts = opts\<rparr>)"

definition tierFor :: "'s Manager \<Rightarrow> Kind \<Rightarrow> 's TierOptions \<times> error option" where
  "tierFor m kind = (case kind of
       KindWorking \<Rightarrow> (o_Working (m_opts m), None)
     | KindEpisodic \<Rightarrow> (o_Episodic (m_opts m), None)
     | KindSemantic \<Rightarrow> (o_Semantic (m_opts m), None)
     | KindOther _ \<Rightarrow> (zeroTier, Some (ErrWrapKind '''' kind ErrUnknownKind)))"

abbreviation tierOf :: "'s Manager \<Rightarrow> Kind \<Rightarrow> 's TierOptions" where
  "tierOf m kind \<equiv> fst (tierFor m kind)"

definition HasKind :: "'s Manager \<Rightarrow> Kind \<Rightarrow> bool" where
  "HasKind m kind = (case kind of
       KindOther _ \<Rightarrow> False
     | _ \<Rightarrow> asLocalMemory (to_Memory (tierOf m kind)) \<noteq> None)"

definition requireMemory :: "'s Manager \<Rightarrow> Kind \<Rightarrow> error + 's Memory" where
  "requireMemory m kind = (case tierFor m kind of
       (t, Some err) \<Rightarrow> Inl err
     | (t, None) \<Rightarrow>
         if to_Memory t \<noteq> None then requireLocalMemory (to_Memory t)
         else Inl (ErrWrapKind ''memory: manager'' kind ErrTierDisabled))"


section \<open>Operations on one tier\<close>

definition Manager_Add :: "'s Manager \<Rightarrow> ctx \<Rightarrow> Kind \<Rightarrow> MemoryItem \<Rightarrow> 's \<Rightarrow> (error + string) \<times> 's" where
  "Manager_Add m c kind item w = (case requireMemory m kind of
       Inl err \<Rightarrow> (Inl err, w)
     | Inr mem \<Rightarrow> mem_Add mem c item w)"

definition Manager_Get :: "'s Manager \<Rightarrow> ctx \<Rightarrow> Kind \<Rightarrow> string \<Rightarrow> 's \<Rightarrow> (error + MemoryItem) \<times> 's" where
  "Manager_Get m c kind i w = (case requireMemory m kind of
       Inl err \<Rightarrow> (Inl err, w)
     | Inr mem \<Rightarrow> mem_Get mem c i w)"

definition Manager_Update :: "'s Manager \<Rightarrow> ctx \<Rightarrow> Kind \<Rightarrow> string \<Rightarrow> updater \<Rightarrow> 's
    \<Rightarrow> (error + unit) \<times> 's" where
  "Manager_Update m c kind i fn w = (case requireMemory m kind of
       Inl err \<Rightarrow> (Inl err, w)
     | Inr mem \<Rightarrow> mem_Update mem c i fn w)"

definition Manager_Remove :: "'s Manager \<Rightarrow> ctx \<Rightarrow> Kind \<Rightarrow> string \<Rightarrow> 's \<Rightarrow> (error + unit) \<times> 's" where
  "Manager_Remove m c kind i w = (case requireMemory m kind of
       Inl err \<Rightarrow> (Inl err, w)
     | Inr mem \<Rightarrow> mem_Remove mem c i w)"

definition Manager_Search :: "'s Manager \<Rightarrow> ctx \<Rightarrow> Kind \<Rightarrow> string \<Rightarrow> int \<Rightarrow> 's
    \<Rightarrow> (error + SearchResult list) \<times> 's" where
  "Manager_Search m c kind query topK w = (case requireMemory m kind of
       Inl err \<Rightarrow> (Inl err, w)
     | Inr mem \<Rightarrow> mem_Search mem c query topK w)"

definition Lookup :: "'s Manager \<Rightarrow> Kind \<Rightarrow> error + 's Memory" where
  "Lookup m kind = requireMemory m kind"


section \<open>Operations on every tier\<close>

fun StatsAll_loop :: "'s Manager \<Rightarrow> Kind list \<Rightarrow> (Kind, Stats) gomap \<Rightarrow> 's \<Rightarrow> (Kind, Stats) gomap \<times> 's" where
  "StatsAll_loop m [] out w = (out, w)"
| "StatsAll_loop m (kind # kinds) out w = (case asLocalMemory (to_Memory (tierOf m kind)) of
       None \<Rightarrow> StatsAll_loop m kinds out w
     | Some mem \<Rightarrow> (case requireLocalMemory (Some mem) of
         Inl err \<Rightarrow> StatsAll_loop m kinds out w
       | Inr typed \<Rightarrow>
           let (st, w) = mem_Stats typed w
           in StatsAll_loop m kinds (mput kind st out) w))"

definition StatsAll :: "'s Manager \<Rightarrow> 's \<Rightarrow> (Kind, Stats) gomap \<times> 's" where
  "StatsAll m w = StatsAll_loop m allKinds [] w"

fun SearchAll_loop :: "'s Manager \<Rightarrow> ctx \<Rightarrow> string \<Rightarrow> int \<Rightarrow> Kind list \<Rightarrow> (Kind, SearchResult list) gomap
    \<Rightarrow> 's \<Rightarrow> ((Kind, SearchResult list) gomap \<times> error option) \<times> 's" where
  "SearchAll_loop m c query topK [] out w = ((out, None), w)"
| "SearchAll_loop m c query topK (kind # kinds) out w =
     (case requireLocalMemory (to_Memory (tierOf m kind)) of
        Inl err \<Rightarrow> SearchAll_loop m c query topK kinds out w
      | Inr mem \<Rightarrow> (case mem_Search mem c query topK w of
          (Inl err, w) \<Rightarrow> ((out, Some (ErrWrapKind ''memory: manager search'' kind err)), w)
        | (Inr res, w) \<Rightarrow> SearchAll_loop m c query topK kinds (mput kind res out) w))"

definition SearchAll :: "'s Manager \<Rightarrow> ctx \<Rightarrow> string \<Rightarrow> int \<Rightarrow> 's
    \<Rightarrow> ((Kind, SearchResult list) gomap \<times> error option) \<times> 's" where
  "SearchAll m c query topK w = SearchAll_loop m c query topK allKinds [] w"

text \<open>The explicit capability first, then the one the memory itself has.\<close>

definition listerOf :: "'s TierOptions \<Rightarrow> 's Lister option" where
  "listerOf t = (case asLocalMemory (to_Memory t) of
       None \<Rightarrow> None
     | Some mem \<Rightarrow> (case to_Lister t of Some l \<Rightarrow> Some l | None \<Rightarrow> mem_asLister mem))"

definition exporterOf :: "'s TierOptions \<Rightarrow> 's Exporter option" where
  "exporterOf t = (case asLocalMemory (to_Memory t) of
       None \<Rightarrow> None
     | Some mem \<Rightarrow> (case to_Exporter t of Some x \<Rightarrow> Some x | None \<Rightarrow> mem_asExporter mem))"

definition importerOf :: "'s TierOptions \<Rightarrow> 's Importer option" where
  "importerOf t = (case asLocalMemory (to_Memory t) of
       None \<Rightarrow> None
     | Some mem \<Rightarrow> (case to_Importer t of Some i \<Rightarrow> Some i | None \<Rightarrow> mem_asImporter mem))"

text \<open>Indexing a map of strings; the nil map and a missing key give the empty string.\<close>

definition cursorFor :: "(Kind, string) gomap \<Rightarrow> Kind \<Rightarrow> string" where
  "cursorFor cursors kind = (case mget cursors kind of Some cur \<Rightarrow> cur | None \<Rightarrow> '''')"

fun ListAll_loop :: "'s Manager \<Rightarrow> ctx \<Rightarrow> ListFilter \<Rightarrow> int \<Rightarrow> (Kind, string) gomap \<Rightarrow> Kind list
    \<Rightarrow> (Kind, ListPage) gomap \<Rightarrow> 's \<Rightarrow> ((Kind, ListPage) gomap \<times> error option) \<times> 's" where
  "ListAll_loop m c f pageSize cursors [] out w = ((out, None), w)"
| "ListAll_loop m c f pageSize cursors (kind # kinds) out w = (case listerOf (tierOf m kind) of
       None \<Rightarrow> ListAll_loop m c f pageSize cursors kinds out w
     | Some lister \<Rightarrow> (case lister c f pageSize (cursorFor cursors kind) w of
         (Inl err, w) \<Rightarrow> ((out, Some (ErrWrapKind ''memory: manager list'' kind err)), w)
       | (Inr page, w) \<Rightarrow> ListAll_loop m c f pageSize cursors kinds (mput kind page out) w))"

definition ListAll :: "'s Manager \<Rightarrow> ctx \<Rightarrow> ListFilter \<Rightarrow> int \<Rightarrow> (Kind, string) gomap \<Rightarrow> 's
    \<Rightarrow> ((Kind, ListPage) gomap \<times> error option) \<times> 's" where
  "ListAll m c f pageSize cursors w = ListAll_loop m c f pageSize cursors allKinds [] w"

definition Manager_Consolidate :: "'s Manager \<Rightarrow> ctx \<Rightarrow> ConsolidateOptions \<Rightarrow> 's
    \<Rightarrow> (int \<times> error option) \<times> 's" where
  "Manager_Consolidate m c opts w = (case to_Lifecycle (o_Working (m_opts m)) of
       Some l \<Rightarrow> lm_Consolidate l c opts w
     | None \<Rightarrow> ((0, Some (ErrWrapKind ''.Lifecycle'' KindWorking ErrCapabilityMissing)), w))"

definition Manager_Forget :: "'s Manager \<Rightarrow> ctx \<Rightarrow> Kind \<Rightarrow> ForgetOptions \<Rightarrow> 's
    \<Rightarrow> (int \<times> error option) \<times> 's" where
  "Manager_Forget m c kind opts w = (case tierFor m kind of
       (t, Some err) \<Rightarrow> ((0, Some err), w)
     | (t, None) \<Rightarrow> (case to_Lifecycle t of
         Some l \<Rightarrow> lm_Forget l c kind opts w
       | None \<Rightarrow> ((0, Some (ErrWrapKind ''.Lifecycle'' kind ErrCapabilityMissing)), w)))"


section \<open>Export and import of every tier\<close>

fun export_tiers :: "'s Manager \<Rightarrow> ctx \<Rightarrow> Kind list \<Rightarrow> (Kind, Snapshot) gomap \<Rightarrow> 's
    \<Rightarrow> ((Kind, Snapshot) gomap \<times> error option) \<times> 's" where
  "export_tiers m c [] out w = ((out, None), w)"
| "export_tiers m c (kind # kinds) out w = (case exporterOf (tierOf m kind) of
       None \<Rightarrow> export_tiers m c kinds out w
     | Some ex \<Rightarrow> (case ex c w of
         (Inl err, w) \<Rightarrow> ((out, Some (ErrWrapKind ''memory: manager export'' kind err)), w)
       | (Inr snap, w) \<Rightarrow> export_tiers m c kinds (mput kind snap out) w))"

fun save_all :: "'s SnapshotStore \<Rightarrow> ctx \<Rightarrow> string \<Rightarrow> Snapshot list \<Rightarrow> 's \<Rightarrow> error option \<times> 's" where
  "save_all st c key [] w = (None, w)"
| "save_all st c key (snap # snaps) w = (case ss_Save st c key snap w of
       (Some err, w) \<Rightarrow> (Some err, w)
     | (None, w) \<Rightarrow> save_all st c key snaps w)"

definition Manager_ExportAll :: "env \<Rightarrow> 'z world_scheme Manager \<Rightarrow> ctx \<Rightarrow> string \<Rightarrow> 'z world_scheme
    \<Rightarrow> ((Kind, Snapshot) gomap \<times> error option) \<times> 'z world_scheme" where
  "Manager_ExportAll E m c persistKey w = (case export_tiers m c allKinds [] w of
       ((out, Some err), w) \<Rightarrow> ((out, Some err), w)
     | ((out, None), w) \<Rightarrow>
         if persistKey = '''' then ((out, None), w)
         else case o_SnapshotStore (m_opts m) of
                None \<Rightarrow> ((out, Some ErrSnapshotStoreNotConfigured), w)
              | Some st \<Rightarrow>
                  let (ordered, w) = go_range E out w;
                      (err, w) = save_all st c persistKey (map snd ordered) w
                  in ((out, err), w))"

fun load_loop :: "'s SnapshotStore \<Rightarrow> ctx \<Rightarrow> string \<Rightarrow> Kind list \<Rightarrow> (Kind, Snapshot) gomap \<Rightarrow> 's
    \<Rightarrow> (error + (Kind, Snapshot) gomap) \<times> 's" where
  "load_loop st c key [] out w = (Inr out, w)"
| "load_loop st c key (kind # kinds) out w =
     (case (case ss_asKindLoader st of
              Some lk \<Rightarrow> (let (r, w) = lk c key kind w in (r, False, w))
            | None \<Rightarrow> (let (r, w) = ss_Load st c key w
                       in (r, case r of Inr snap \<Rightarrow> sn_Kind snap \<noteq> kind | Inl _ \<Rightarrow> False, w))) of
        (r, otherKind, w) \<Rightarrow>
          if otherKind then load_loop st c key kinds out w
          else case r of
                 Inl err \<Rightarrow>
                   if errors_Is err ErrNotExist then load_loop st c key kinds out w
                   else (Inl (ErrWrapKind ''memory: manager import load'' kind err), w)
               | Inr snap \<Rightarrow> load_loop st c key kinds (mput kind snap out) w)"

definition loadAllFromStore :: "'s SnapshotStore \<Rightarrow> ctx \<Rightarrow> string \<Rightarrow> 's
    \<Rightarrow> (error + (Kind, Snapshot) gomap) \<times> 's" where
  "loadAllFromStore st c key w = load_loop st c key allKinds [] w"

fun import_tiers :: "'s Manager \<Rightarrow> ctx \<Rightarrow> ImportMode \<Rightarrow> (Kind \<times> Snapshot) list
    \<Rightarrow> (Kind, ImportReport) gomap \<Rightarrow> 's \<Rightarrow> ((Kind, ImportReport) gomap \<times> error option) \<times> 's" where
  "import_tiers m c mode [] out w = ((out, None), w)"
| "import_tiers m c mode ((kind, snap) # snaps) out w = (case importerOf (tierOf m kind) of
       None \<Rightarrow> import_tiers m c mode snaps out w
     | Some imp \<Rightarrow> (case imp c snap mode w of
         ((rpt, Some err), w) \<Rightarrow> ((out, Some (ErrWrapKind ''memory: manager import'' kind err)), w)
       | ((rpt, None), w) \<Rightarrow> import_tiers m c mode snaps (mput kind rpt out) w))"

text \<open>The argument \<open>snaps\<close> is \<open>None\<close> when the caller passes the nil map.\<close>

definition Manager_ImportAll :: "env \<Rightarrow> 'z world_scheme Manager \<Rightarrow> ctx \<Rightarrow> (Kind, Snapshot) gomap option
    \<Rightarrow> string \<Rightarrow> ImportMode \<Rightarrow> 'z world_scheme
    \<Rightarrow> ((Kind, ImportReport) gomap \<times> error option) \<times> 'z world_scheme" where
  "Manager_ImportAll E m c snaps persistKey mode w =
     (let (r, w) =
        (if snaps = None \<and> persistKey \<noteq> '''' then
           (case o_SnapshotStore (m_opts m) of
              None \<Rightarrow> (Inl ErrSnapshotStoreNotConfigured, w)
            | Some st \<Rightarrow> loadAllFromStore st c persistKey w)
         else (Inr (case snaps of None \<Rightarrow> [] | Some ss \<Rightarrow> ss), w))
      in case r of
           Inl err \<Rightarrow> (([], Some err), w)
         | Inr loaded \<Rightarrow>
             let (ordered, w) = go_range E loaded w
             in import_tiers m c mode ordered [] w)"

end
