(* ===== verification/Engines.thy ===== *)
theory Engines
  imports Working Episodic Semantic Manager
begin

text \<open>
  The three engines as memories of a manager: the state of a program that owns one engine of
  each kind, the engines' methods as records of functions on it, and the contract a manager's
  clients rely on (\<open>memory_tier\<close> for the operations on items, \<open>listed_tier\<close>
  for the pages). An engine whose items live in a store (\<open>stored_tier\<close>) keeps the contract,
  and each of the three is one.
\<close>


section \<open>State and method tables\<close>

record sys = world +
  wrk :: WorkingMemory
  epi :: EpisodicMemory
  sem :: SemanticMemory

definition workingMemory :: "env \<Rightarrow> 'z sys_scheme Memory" where
  "workingMemory E = \<lparr>
     mem_Type = KindWorking,
     mem_Add = (\<lambda>c it w. case Working_Add E c it w (wrk w) of (r, w, m) \<Rightarrow> (r, w\<lparr>wrk := m\<rparr>)),
     mem_Search = (\<lambda>c q k w. Working_Search E c q k w (wrk w)),
     mem_Get = (\<lambda>c i w. case Working_Get E i w (wrk w) of (r, w, m) \<Rightarrow> (r, w\<lparr>wrk := m\<rparr>)),
     mem_Update = (\<lambda>c i fn w. case Working_Update E c i fn w (wrk w) of (r, w, m) \<Rightarrow> (r, w\<lparr>wrk := m\<rparr>)),
     mem_Remove = (\<lambda>c i w. case Working_Remove i (wrk w) of (r, m) \<Rightarrow> (r, w\<lparr>wrk := m\<rparr>)),
     mem_Stats = (\<lambda>w. Working_Stats E w (wrk w)),
     mem_asLister = Some (\<lambda>c f n cur w. Working_List E f n cur w (wrk w)),
     mem_asExporter = Some (\<lambda>c w. case Working_Export E w (wrk w) of (s, w) \<Rightarrow> (Inr s, w)),
     mem_asImporter = Some (\<lambda>c s mode w. case Working_Import E s mode (wrk w) of (r, m) \<Rightarrow> (r, w\<lparr>wrk := m\<rparr>))\<rparr>"

definition episodicMemory :: "env \<Rightarrow> 'z sys_scheme Memory" where
  "episodicMemory E = \<lparr>
     mem_Type = KindEpisodic,
     mem_Add = (\<lambda>c it w. case Episodic_Add E c it w (epi w) of (r, w, m) \<Rightarrow> (r, w\<lparr>epi := m\<rparr>)),
     mem_Search = (\<lambda>c q k w. Episodic_Search E c q k w (epi w)),
     mem_Get = (\<lambda>c i w. case Episodic_Get E i w (epi w) of (r, w, m) \<Rightarrow> (r, w\<lparr>epi := m\<rparr>)),
     mem_Update = (\<lambda>c i fn w. case Episodic_Update E c i fn w (epi w) of (r, w, m) \<Rightarrow> (r, w\<lparr>epi := m\<rparr>)),
     mem_Remove = (\<lambda>c i w. case Episodic_Remove i (epi w) of (r, m) \<Rightarrow> (r, w\<lparr>epi := m\<rparr>)),
     mem_Stats = (\<lambda>w. Episodic_Stats E w (epi w)),
     mem_asLister = Some (\<lambda>c f n cur w. Episodic_List E f n cur w (epi w)),
     mem_asExporter = Some (\<lambda>c w. case Episodic_Export E w (epi w) of (s, w) \<Rightarrow> (Inr s, w)),
     mem_asImporter = Some (\<lambda>c s mode w. case Episodic_Import E s mode (epi w) of (r, m) \<Rightarrow> (r, w\<lparr>epi := m\<rparr>))\<rparr>"

definition semanticMemory :: "env \<Rightarrow> 'z sys_scheme Memory" where
  "semanticMemory E = \<lparr>
     mem_Type = KindSemantic,
     mem_Add = (\<lambda>c it w. case Semantic_Add E c it w (sem w) of (r, w, m) \<Rightarrow> (r, w\<lparr>sem := m\<rparr>)),
     mem_Search = (\<lambda>c q k w. Semantic_Search E c q k w (sem w)),
     mem_Get = (\<lambda>c i w. case Semantic_Get E i w (sem w) of (r, w, m) \<Rightarrow> (r, w\<lparr>sem := m\<rparr>)),
     mem_Update = (\<lambda>c i fn w. case Semantic_Update E c i fn w (sem w) of (r, w, m) \<Rightarrow> (r, w\<lparr>sem := m\<rparr>)),
     mem_Remove = (\<lambda>c i w. case Semantic_Remove i (sem w) of (r, m) \<Rightarrow> (r, w\<lparr>sem := m\<rparr>)),
     mem_Stats = (\<lambda>w. Semantic_Stats E w (sem w)),
     mem_asLister = Some (\<lambda>c f n cur w. Semantic_List E f n cur w (sem w)),
     mem_asExporter = Some (\<lambda>c w. case Semantic_Export E w (sem w) of (s, w) \<Rightarrow> (Inr s, w)),
     mem_asImporter = Some (\<lambda>c s mode w. case Semantic_Import E s mode (sem w) of (r, m) \<Rightarrow> (r, w\<lparr>sem := m\<rparr>))\<rparr>"

text \<open>A manager with the three engines, each filling its tier's memory.\<close>

definition tierWith :: "'s Memory \<Rightarrow> 's TierOptions" where
  "tierWith mem = zeroTier\<lparr>to_Memory := Some mem\<rparr>"

definition engineOptions :: "env \<Rightarrow> 'z sys_scheme Options" where
  "engineOptions E = \<lparr>o_Working = tierWith (workingMemory E), o_Episodic = tierWith (episodicMemory E),
     o_Semantic = tierWith (semanticMemory E), o_SnapshotStore = None\<rparr>"

definition engineManager :: "env \<Rightarrow> 'z sys_scheme Manager" where
  "engineManager E = \<lparr>m_opts = engineOptions E\<rparr>"


section \<open>The world after an engine's operation\<close>

text \<open>Apart from the updater of an update, which may write metadata, only the clock has moved.\<close>

lemma store_add_world:
  assumes "store_add E c item w s = (r, w', s')"
  shows "\<exists>n. w' = w\<lparr>tick := n\<rparr>"
  using assms
  by (auto simp: store_add_def assignID_cases time_Now_def queryEmbedding_def Let_def
      split: sum.splits list.splits if_splits)

lemma store_update_world:
  assumes "mget (items s) i = Some it" and "store_update E c i fn w s = (r, w', s')"
  shows "\<exists>n. w' = w\<lparr>heap := snd (fn it (heap w)), tick := n\<rparr>"
  using assms
  by (auto simp: store_update_def update_item_hit queryEmbedding_def split: sum.splits list.splits if_splits)

lemma evict_scores_tick: "snd (evict_scores E opts q qv vecs xs w) = w\<lparr>tick := tick w + length xs\<rparr>"
  by (induction xs arbitrary: w) (auto simp: Let_def split_beta)


lemma evict_world:
  assumes "evictIfOverCapacity E c q w wm = (w', wm')"
  shows "\<exists>n. w' = w\<lparr>tick := n\<rparr>"
proof -
  have id: "\<exists>n. w = w\<lparr>tick := n\<rparr>" by (intro exI [of _ "tick w"]) simp
  show ?thesis using assms id
    by (auto simp: evictIfOverCapacity_def evictOldest_def queryEmbedding_def go_range_def time_Now_def
        evict_scores_tick Let_def split_beta split: if_splits sum.splits list.splits prod.splits)
qed

lemma Candidates_tick: "\<exists>n. snd (Candidates E b c q its vecs e w) = w\<lparr>tick := n\<rparr>"
  by (auto simp: Candidates_def inMemory_Candidates_def queryEmbedding_def go_range_def
      split: VectorBackend.splits sum.splits list.splits)

lemma Working_Search_tick:
  assumes "Working_Search E c q k w wm = (r, w')"
  shows "\<exists>n. w' = w\<lparr>tick := n\<rparr>"
proof -
  have id: "\<exists>n. w = w\<lparr>tick := n\<rparr>" by (intro exI [of _ "tick w"]) simp
  have sc: "\<exists>n. snd (search_scores E opts q qv vecs xs (w\<lparr>tick := t\<rparr>)) = w\<lparr>tick := n\<rparr>" for opts qv vecs xs t
    using search_scores_tick [of E opts q qv vecs xs "w\<lparr>tick := t\<rparr>"] by auto
  show ?thesis using assms id sc
    by (auto simp: Working_Search_def queryEmbedding_def go_range_def snapshot_def Let_def split_beta
        split: if_splits sum.splits list.splits)
qed

lemma Episodic_Search_tick:
  assumes "Episodic_Search E c q k w m = (r, w')"
  shows "\<exists>n. w' = w\<lparr>tick := n\<rparr>"
proof (cases "strings_TrimSpace q = '''' \<or> eo_VectorBackend (em_opts m) = None")
  case True
  then have "w' = w" using assms by (auto simp: Episodic_Search_def Let_def split_beta split: if_splits)
  then show ?thesis by (intro exI [of _ "tick w"]) simp
next
  case False
  then obtain b where b: "eo_VectorBackend (em_opts m) = Some b" by auto
  obtain rc wc where c: "Candidates E b c q (items (em_store m)) (snd (snapshot (em_store m)))
      (embedder (em_store m)) w = (rc, wc)" by (cases "Candidates E b c q (items (em_store m))
      (snd (snapshot (em_store m))) (embedder (em_store m)) w")
  then obtain n where n: "wc = w\<lparr>tick := n\<rparr>"
    using Candidates_tick [of E b c q "items (em_store m)" "snd (snapshot (em_store m))" "embedder (em_store m)" w]
    by auto
  have sc: "\<exists>k. snd (episodic_scores E opts hl cs (w\<lparr>tick := n\<rparr>)) = w\<lparr>tick := k\<rparr>" for opts hl cs
    using episodic_scores_tick [of E opts hl cs "w\<lparr>tick := n\<rparr>"] by auto
  show ?thesis using assms False b c sc n
    by (auto simp: Episodic_Search_def Let_def split_beta split: sum.splits)
qed

lemma Semantic_Search_tick:
  assumes "Semantic_Search E c q k w m = (r, w')"
  shows "\<exists>n. w' = w\<lparr>tick := n\<rparr>"
proof (cases "strings_TrimSpace q = '''' \<or> so_VectorBackend (sm_opts m) = None")
  case True
  then have "w' = w" using assms by (auto simp: Semantic_Search_def Let_def split_beta split: if_splits)
  then show ?thesis by (intro exI [of _ "tick w"]) simp
next
  case False
  then obtain b where b: "so_VectorBackend (sm_opts m) = Some b" by auto
  let ?C = "Candidates E b c (fst (parseTagPrefix q)) (items (sm_store m)) (snd (snapshot (sm_store m)))
      (embedder (sm_store m)) w"
  have "w' = snd ?C" using assms False b
    by (auto simp: Semantic_Search_def Let_def split_beta split: sum.splits prod.splits)
  then show ?thesis using Candidates_tick by metis
qed


section \<open>The contract of a tier\<close>

text \<open>
  What a client of a manager may rely on: \<open>view\<close> is the tier's items by identifier,
  \<open>inv\<close> an invariant every operation keeps, and \<open>frame\<close> the rest of the state,
  which no operation touches.
\<close>

locale memory_tier =
  fixes mem :: "'z world_scheme Memory"
    and view :: "'z world_scheme \<Rightarrow> string \<rightharpoonup> MemoryItem"
    and inv :: "'z world_scheme \<Rightarrow> bool"
    and frame :: "'z world_scheme \<Rightarrow> 'r"
  assumes view_ID: "inv w \<Longrightarrow> view w i = Some it \<Longrightarrow> ID it = i \<and> i \<noteq> ''''"
    and get_hit: "inv w \<Longrightarrow> view w i = Some it \<Longrightarrow>
      \<exists>t w'. mem_Get mem c i w = (Inr (it\<lparr>AccessedAt := t\<rparr>), w')
        \<and> view w' = (view w)(i \<mapsto> it\<lparr>AccessedAt := t\<rparr>) \<and> heap w' = heap w \<and> frame w' = frame w \<and> inv w'"
    and get_miss: "inv w \<Longrightarrow> view w i = None \<Longrightarrow> mem_Get mem c i w = (Inl ErrNotFound, w)"
    and remove_hit: "inv w \<Longrightarrow> view w i = Some it \<Longrightarrow>
      \<exists>w'. mem_Remove mem c i w = (Inr (), w')
        \<and> view w' = (view w)(i := None) \<and> heap w' = heap w \<and> frame w' = frame w \<and> inv w'"
    and remove_miss: "inv w \<Longrightarrow> view w i = None \<Longrightarrow> mem_Remove mem c i w = (Inl ErrNotFound, w)"
    and update_hit: "inv w \<Longrightarrow> keepsID fn \<Longrightarrow> view w i = Some it \<Longrightarrow>
      \<exists>u t w'. mem_Update mem c i fn w = (u, w')
        \<and> view w' = (view w)(i \<mapsto> (fst (fn it (heap w)))\<lparr>AccessedAt := t,
            Importance := clampUnit (Importance (fst (fn it (heap w))))\<rparr>)
        \<and> heap w' = snd (fn it (heap w)) \<and> frame w' = frame w \<and> inv w'"
    and update_miss: "inv w \<Longrightarrow> view w i = None \<Longrightarrow> mem_Update mem c i fn w = (Inl ErrNotFound, w)"
    and add_result: "inv w \<Longrightarrow> mem_Add mem c item w = (r, w') \<Longrightarrow>
      heap w' = heap w \<and> frame w' = frame w \<and> inv w'
      \<and> (case r of Inl _ \<Rightarrow> view w' = view w
         | Inr i \<Rightarrow> i \<noteq> '''' \<and> (ID item \<noteq> '''' \<longrightarrow> i = ID item)
             \<and> (\<exists>now. view w' \<subseteq>\<^sub>m (view w)(i \<mapsto> (stampAdded now item)\<lparr>ID := i\<rparr>)))"
    and search_result: "inv w \<Longrightarrow> mem_Search mem c q k w = (rs, w') \<Longrightarrow>
      (\<exists>n. w' = w\<lparr>tick := n\<rparr>) \<and> (case rs of Inl _ \<Rightarrow> True | Inr res \<Rightarrow> sr_Item ` set res \<subseteq> ran (view w))"
    and tick_free: "inv (w\<lparr>tick := n\<rparr>) = inv w" "view (w\<lparr>tick := n\<rparr>) = view w" "frame (w\<lparr>tick := n\<rparr>) = frame w"
    and heap_free: "inv (w\<lparr>heap := h\<rparr>) = inv w" "view (w\<lparr>heap := h\<rparr>) = view w" "frame (w\<lparr>heap := h\<rparr>) = frame w"

text \<open>A tier without a capacity keeps every item it is given.\<close>

locale unbounded_tier = memory_tier +
  assumes add_stores: "inv w \<Longrightarrow> mem_Add mem c item w = (Inr i, w') \<Longrightarrow>
    \<exists>now. view w' = (view w)(i \<mapsto> (stampAdded now item)\<lparr>ID := i\<rparr>)"

text \<open>What a client of \<^verbatim>\<open>ListAll\<close> may rely on: the pages of a fixed sequence of items.\<close>

locale listed_tier =
  fixes E :: env
    and lister :: "'z world_scheme Lister"
    and contents :: "ListFilter \<Rightarrow> 'z world_scheme \<Rightarrow> MemoryItem list"
    and linv :: "'z world_scheme \<Rightarrow> bool"
  assumes page: "linv w \<Longrightarrow> codecs_ok E (contents f w) \<Longrightarrow> k \<le> length (contents f w) \<Longrightarrow> 0 < n \<Longrightarrow>
      int (length (contents f w)) + int n < 2 ^ 63 \<Longrightarrow>
      lister c f (int n) (cursorAt E (contents f w) k) w
        = (Inr (pageAt E (contents f w) n k), w\<lparr>tick := Suc (tick w)\<rparr>)"
    and contents_tick: "contents f (w\<lparr>tick := t\<rparr>) = contents f w"
    and linv_tick: "linv (w\<lparr>tick := t\<rparr>) = linv w"


section \<open>Every engine keeps the contract\<close>

definition working_view :: "sys \<Rightarrow> string \<rightharpoonup> MemoryItem" where
  "working_view w = mget (items (wm_store (wrk w)))"

definition working_inv :: "sys \<Rightarrow> bool" where
  "working_inv w \<longleftrightarrow> store_wf (wm_store (wrk w))"

definition episodic_view :: "sys \<Rightarrow> string \<rightharpoonup> MemoryItem" where
  "episodic_view w = mget (items (em_store (epi w)))"

definition episodic_inv :: "sys \<Rightarrow> bool" where
  "episodic_inv w \<longleftrightarrow> store_wf (em_store (epi w)) \<and> eo_VectorBackend (em_opts (epi w)) = Some inMemoryVectorBackend"

definition semantic_view :: "sys \<Rightarrow> string \<rightharpoonup> MemoryItem" where
  "semantic_view w = mget (items (sm_store (sem w)))"

definition semantic_inv :: "sys \<Rightarrow> bool" where
  "semantic_inv w \<longleftrightarrow> store_wf (sm_store (sem w)) \<and> so_VectorBackend (sm_opts (sem w)) = Some inMemoryVectorBackend"

text \<open>The store's part of the contract, once for the three engines.\<close>

lemma mget_mput_upd: "mget (mput k v m) = (mget m)(k \<mapsto> v)"
  by (rule ext) simp

lemma mget_mdel_upd: "mget (mdel k m) = (mget m)(k := None)"
  by (rule ext) simp

lemma store_update_contract:
  assumes "store_wf s" and "keepsID fn" and "mget (items s) i = Some it"
    and "store_update E c i fn w s = (r, w', s')"
  shows "\<exists>t n. mget (items s') = (mget (items s))(i \<mapsto> (fst (fn it (heap w)))\<lparr>AccessedAt := t,
      Importance := clampUnit (Importance (fst (fn it (heap w))))\<rparr>)
    \<and> w' = w\<lparr>heap := snd (fn it (heap w)), tick := n\<rparr> \<and> store_wf s'"
proof -
  obtain n where "w' = w\<lparr>heap := snd (fn it (heap w)), tick := n\<rparr>"
    using store_update_world [OF assms(3,4)] by blast
  moreover have "items s' = mput i (updatedItem E fn it w) (items s)"
    using store_update_hit [OF assms(3,4)] by blast
  then have "mget (items s') = (mget (items s))(i \<mapsto> updatedItem E fn it w)" by (simp only: mget_mput_upd)
  moreover have "updatedItem E fn it w = (fst (fn it (heap w)))\<lparr>AccessedAt := now_at E (tick w),
      Importance := clampUnit (Importance (fst (fn it (heap w))))\<rparr>"
    by (simp only: updatedItem_def Let_def)
  ultimately show ?thesis using store_update_wf [OF assms(1,2,4)] by metis
qed

lemma store_add_contract:
  assumes "store_wf s" and "store_add E c item w s = (r, w', s')"
  shows "(\<exists>n. w' = w\<lparr>tick := n\<rparr>) \<and> store_wf s'
    \<and> (case r of Inl _ \<Rightarrow> mget (items s') = mget (items s)
       | Inr i \<Rightarrow> i \<noteq> '''' \<and> (ID item \<noteq> '''' \<longrightarrow> i = ID item)
           \<and> (\<exists>now. mget (items s') = (mget (items s))(i \<mapsto> (stampAdded now item)\<lparr>ID := i\<rparr>)))"
proof (cases r)
  case (Inl e)
  then show ?thesis
    using store_add_world [OF assms(2)] store_add_wf [OF assms] store_add_Inl [OF assms(2) [unfolded Inl]]
    by simp
next
  case (Inr i)
  then show ?thesis
    using store_add_world [OF assms(2)] store_add_wf [OF assms] store_add_Inr [OF assms(2) [unfolded Inr]]
      addedID_given [of item E w s]
    by (auto simp: mget_mput_upd simp del: mget_mput)
qed

lemma store_add_contract_le:
  assumes "store_wf s" and "store_add E c item w s = (r, w', s')"
  shows "(\<exists>n. w' = w\<lparr>tick := n\<rparr>) \<and> store_wf s'
    \<and> (case r of Inl _ \<Rightarrow> mget (items s') = mget (items s)
       | Inr i \<Rightarrow> i \<noteq> '''' \<and> (ID item \<noteq> '''' \<longrightarrow> i = ID item)
           \<and> (\<exists>now. mget (items s') \<subseteq>\<^sub>m (mget (items s))(i \<mapsto> (stampAdded now item)\<lparr>ID := i\<rparr>)))"
proof -
  have eq: "f = g \<Longrightarrow> f \<subseteq>\<^sub>m g" for f g :: "string \<rightharpoonup> MemoryItem" by simp
  show ?thesis using store_add_contract [OF assms] by (cases r) (auto intro: eq simp del: fun_upd_apply)
qed

lemma ran_mget: "ran (mget m) \<subseteq> snd ` set m"
  by (auto simp: ran_def dest: mget_Some_in intro: rev_image_eqI)

lemma in_ran_mget: "mwf m \<Longrightarrow> snd ` set m \<subseteq> ran (mget m)"
proof
  fix v
  assume m: "mwf m" and "v \<in> snd ` set m"
  then obtain k where "(k, v) \<in> set m" by auto
  then have "mget m k = Some v" by (rule in_mget_Some [OF m])
  then show "v \<in> ran (mget m)" by (rule ranI)
qed

lemma ranked_from_store:
  assumes "store_wf s" and "mset (map sr_Item out) = mset (filter P (map snd (items s)))"
  shows "sr_Item ` set (topResults (defaultTopK k) out) \<subseteq> ran (mget (items s))"
proof -
  have "sr_Item ` set (topResults (defaultTopK k) out) \<subseteq> sr_Item ` set out"
    using set_topResults [OF defaultTopK_pos] by blast
  also have "\<dots> = set (filter P (map snd (items s)))"
    using arg_cong [OF assms(2), of set_mset] by simp
  also have "\<dots> \<subseteq> snd ` set (items s)" by auto
  also have "\<dots> \<subseteq> ran (mget (items s))" using in_ran_mget store_wfD(1) [OF assms(1)] by blast
  finally show ?thesis .
qed

lemma store_remove_sub: "mget (items (snd (store_remove i s))) \<subseteq>\<^sub>m mget (items s)"
  by (auto simp: store_remove_def map_le_def split: option.splits)

lemma evict_sub:
  assumes "evictIfOverCapacity E c q w wm = (w', wm')"
  shows "mget (items (wm_store wm')) \<subseteq>\<^sub>m mget (items (wm_store wm))"
  using assms store_remove_sub
  by (auto simp: evictIfOverCapacity_def evictOldest_def Let_def split_beta
      split: if_splits sum.splits list.splits prod.splits)

lemma Working_Add_contract:
  assumes "store_wf (wm_store wm)" and "Working_Add E c item w wm = (r, w', wm')"
  shows "(\<exists>n. w' = w\<lparr>tick := n\<rparr>) \<and> store_wf (wm_store wm')
    \<and> (case r of Inl _ \<Rightarrow> mget (items (wm_store wm')) = mget (items (wm_store wm))
       | Inr i \<Rightarrow> i \<noteq> '''' \<and> (ID item \<noteq> '''' \<longrightarrow> i = ID item)
           \<and> (\<exists>now. mget (items (wm_store wm')) \<subseteq>\<^sub>m
                (mget (items (wm_store wm)))(i \<mapsto> (stampAdded now item)\<lparr>ID := i\<rparr>)))"
proof -
  obtain r1 w1 s1 where sa: "store_add E c item w (wm_store wm) = (r1, w1, s1)"
    by (cases "store_add E c item w (wm_store wm)")
  note st = store_add_contract [OF assms(1) sa]
  show ?thesis
  proof (cases r1)
    case (Inl e)
    then show ?thesis using st sa assms(2) by (auto simp: Working_Add_def)
  next
    case (Inr i)
    obtain w2 wm2 where ev: "evictIfOverCapacity E c (Content item) w1 (wm\<lparr>wm_store := s1\<rparr>) = (w2, wm2)"
      by (cases "evictIfOverCapacity E c (Content item) w1 (wm\<lparr>wm_store := s1\<rparr>)")
    then have res: "r = Inr i" "w' = w2" "wm' = wm2"
      using assms(2) sa Inr by (simp_all add: Working_Add_def)
    obtain n1 n2 where "w1 = w\<lparr>tick := n1\<rparr>" "w2 = w1\<lparr>tick := n2\<rparr>" using st evict_world [OF ev] by blast
    then have "w2 = w\<lparr>tick := n2\<rparr>" by simp
    moreover have "store_wf (wm_store wm2)" using evictIfOverCapacity_wf [OF _ ev] st by simp
    moreover have "mget (items (wm_store wm2)) \<subseteq>\<^sub>m mget (items s1)" using evict_sub [OF ev] by simp
    ultimately show ?thesis using st Inr res by (auto simp del: fun_upd_apply)
  qed
qed

lemma Working_Add_opts:
  assumes "Working_Add E c item w wm = (r, w', wm')"
  shows "wm_opts wm' = wm_opts wm"
  using assms
  by (auto simp: Working_Add_def evictIfOverCapacity_def evictOldest_def Let_def split_beta
      split: if_splits sum.splits list.splits prod.splits)

lemmas engine_ops = workingMemory_def Working_Get_def Working_Update_def Working_Remove_def
  episodicMemory_def Episodic_Add_def Episodic_Get_def Episodic_Update_def Episodic_Remove_def
  semanticMemory_def Semantic_Add_def Semantic_Get_def Semantic_Update_def Semantic_Remove_def

lemmas store_hits = store_get_hit store_get_miss store_remove_hit store_remove_miss store_update_miss
  mget_mput_upd mget_mdel_upd

lemma store_touch_wf:
  assumes "store_wf s" and "mget (items s) i = Some it"
  shows "store_wf (s\<lparr>items := mput i (it\<lparr>AccessedAt := t\<rparr>) (items s)\<rparr>)"
  using store_wfD(4) [OF assms] by (intro store_wf_put_item [OF assms(1)]) simp_all

lemma store_removed_wf:
  assumes "store_wf s" and "mget (items s) i = Some it"
  shows "store_wf (s\<lparr>items := mdel i (items s), vectors := mdel i (vectors s)\<rparr>)"
  using store_remove_wf [OF assms(1)] store_remove_hit [OF assms(2)] by blast

section \<open>Engines that keep their items in a store\<close>

text \<open>
  The three engines read, update and remove through the store alone. \<open>store\<close> and
  \<open>set_store\<close> are the store within the state, \<open>ready\<close> is what the searches of the engine need
  of its options.
\<close>

locale stored_tier =
  fixes mem :: "'z world_scheme Memory" and E :: env
    and store :: "'z world_scheme \<Rightarrow> scoredStore"
    and set_store :: "scoredStore \<Rightarrow> 'z world_scheme \<Rightarrow> 'z world_scheme"
    and ready :: "'z world_scheme \<Rightarrow> bool"
    and frame :: "'z world_scheme \<Rightarrow> 'r"
  assumes lens: "store (set_store s w) = s" "set_store (store w) w = w" "heap (set_store s w) = heap w"
      "frame (set_store s w) = frame w" "ready (set_store s w) = ready w"
    and tick_free: "store (w\<lparr>tick := n\<rparr>) = store w" "frame (w\<lparr>tick := n\<rparr>) = frame w" "ready (w\<lparr>tick := n\<rparr>) = ready w"
    and heap_free: "store (w\<lparr>heap := h\<rparr>) = store w" "frame (w\<lparr>heap := h\<rparr>) = frame w" "ready (w\<lparr>heap := h\<rparr>) = ready w"
    and Get: "mem_Get mem c i w = (case store_get E i w (store w) of (r, w, s) \<Rightarrow> (r, set_store s w))"
    and Remove: "mem_Remove mem c i w = (case store_remove i (store w) of (r, s) \<Rightarrow> (r, set_store s w))"
    and Update: "mem_Update mem c i fn w = (case store_update E c i fn w (store w) of (r, w, s) \<Rightarrow> (r, set_store s w))"
    and Add: "store_wf (store w) \<Longrightarrow> mem_Add mem c item w = (r, w') \<Longrightarrow>
      (\<exists>n s. w' = set_store s (w\<lparr>tick := n\<rparr>) \<and> store_wf s
        \<and> (case r of Inl _ \<Rightarrow> mget (items s) = mget (items (store w))
           | Inr i \<Rightarrow> i \<noteq> '''' \<and> (ID item \<noteq> '''' \<longrightarrow> i = ID item)
               \<and> (\<exists>now. mget (items s) \<subseteq>\<^sub>m (mget (items (store w)))(i \<mapsto> (stampAdded now item)\<lparr>ID := i\<rparr>))))"
    and Search: "store_wf (store w) \<Longrightarrow> ready w \<Longrightarrow> mem_Search mem c q k w = (rs, w') \<Longrightarrow>
      (\<exists>n. w' = w\<lparr>tick := n\<rparr>) \<and> (case rs of Inl _ \<Rightarrow> True | Inr res \<Rightarrow> sr_Item ` set res \<subseteq> ran (mget (items (store w))))"

sublocale stored_tier \<subseteq> contract: memory_tier mem "\<lambda>w. mget (items (store w))" "\<lambda>w. store_wf (store w) \<and> ready w" frame
proof
  fix w :: "'z world_scheme" and i it c fn item r w' q k rs n h
  show "ID it = i \<and> i \<noteq> ''''" if "store_wf (store w) \<and> ready w" "mget (items (store w)) i = Some it"
    using store_wfD(4) that by blast
  show "\<exists>t w'. mem_Get mem c i w = (Inr (it\<lparr>AccessedAt := t\<rparr>), w')
      \<and> mget (items (store w')) = (mget (items (store w)))(i \<mapsto> it\<lparr>AccessedAt := t\<rparr>) \<and> heap w' = heap w
      \<and> frame w' = frame w \<and> store_wf (store w') \<and> ready w'"
    if "store_wf (store w) \<and> ready w" "mget (items (store w)) i = Some it"
    using that store_touch_wf by (auto simp: Get store_hits lens tick_free)
  show "\<exists>w'. mem_Remove mem c i w = (Inr (), w') \<and> mget (items (store w')) = (mget (items (store w)))(i := None)
      \<and> heap w' = heap w \<and> frame w' = frame w \<and> store_wf (store w') \<and> ready w'"
    if "store_wf (store w) \<and> ready w" "mget (items (store w)) i = Some it"
    using that store_removed_wf by (auto simp: Remove store_hits lens)
  show "\<exists>u t w'. mem_Update mem c i fn w = (u, w')
      \<and> mget (items (store w')) = (mget (items (store w)))(i \<mapsto> (fst (fn it (heap w)))\<lparr>AccessedAt := t,
          Importance := clampUnit (Importance (fst (fn it (heap w))))\<rparr>)
      \<and> heap w' = snd (fn it (heap w)) \<and> frame w' = frame w \<and> store_wf (store w') \<and> ready w'"
    if "store_wf (store w) \<and> ready w" "keepsID fn" "mget (items (store w)) i = Some it"
  proof -
    obtain u w1 s1 where su: "store_update E c i fn w (store w) = (u, w1, s1)" by (cases "store_update E c i fn w (store w)")
    from store_update_contract [OF _ that(2,3) su] that(1) show ?thesis
      by (auto simp: Update su lens tick_free heap_free)
  qed
  show "heap w' = heap w \<and> frame w' = frame w \<and> (store_wf (store w') \<and> ready w')
      \<and> (case r of Inl _ \<Rightarrow> mget (items (store w')) = mget (items (store w))
         | Inr i \<Rightarrow> i \<noteq> '''' \<and> (ID item \<noteq> '''' \<longrightarrow> i = ID item)
             \<and> (\<exists>now. mget (items (store w')) \<subseteq>\<^sub>m (mget (items (store w)))(i \<mapsto> (stampAdded now item)\<lparr>ID := i\<rparr>)))"
    if "store_wf (store w) \<and> ready w" "mem_Add mem c item w = (r, w')"
    using that Add [of w c item r w'] by (auto simp: lens tick_free simp del: fun_upd_apply split: sum.splits)
qed (simp_all add: Get Remove Update Search store_hits lens tick_free heap_free)

lemma store_get_world: "store_get E i w s = (r, w', s') \<Longrightarrow> \<exists>n. w' = w\<lparr>tick := n\<rparr>"
  by (cases "mget (items s) i") (auto simp: store_get_hit store_get_miss intro: exI [of _ "tick w"])

lemma store_update_moves: "store_update E c i fn w s = (r, w', s') \<Longrightarrow> \<exists>h n. w' = w\<lparr>heap := h, tick := n\<rparr>"
proof (cases "mget (items s) i")
  case None
  assume "store_update E c i fn w s = (r, w', s')"
  then have "w' = w\<lparr>heap := heap w, tick := tick w\<rparr>" using None by (simp add: store_update_miss)
  then show ?thesis by blast
qed (use store_update_world [of s i _ E c fn w r w' s'] in blast)

interpretation working_stored: stored_tier "workingMemory E" E "\<lambda>w :: sys. wm_store (wrk w)"
    "\<lambda>s w. w\<lparr>wrk := (wrk w)\<lparr>wm_store := s\<rparr>\<rparr>" "\<lambda>w. True" "\<lambda>w. (wm_opts (wrk w), epi w, sem w, events w)" for E
proof
  fix w :: sys and c item r w' q k rs
  show "\<exists>n s. w' = w\<lparr>tick := n, wrk := (wrk (w\<lparr>tick := n\<rparr>))\<lparr>wm_store := s\<rparr>\<rparr> \<and> store_wf s
      \<and> (case r of Inl _ \<Rightarrow> mget (items s) = mget (items (wm_store (wrk w)))
         | Inr i \<Rightarrow> i \<noteq> '''' \<and> (ID item \<noteq> '''' \<longrightarrow> i = ID item)
             \<and> (\<exists>now. mget (items s) \<subseteq>\<^sub>m (mget (items (wm_store (wrk w))))(i \<mapsto> (stampAdded now item)\<lparr>ID := i\<rparr>)))"
    if "store_wf (wm_store (wrk w))" "mem_Add (workingMemory E) c item w = (r, w')"
  proof -
    obtain r1 w1 m1 where sa: "Working_Add E c item w (wrk w) = (r1, w1, m1)" by (cases "Working_Add E c item w (wrk w)")
    have "m1 = (wrk w)\<lparr>wm_store := wm_store m1\<rparr>" using Working_Add_opts [OF sa] by simp
    with Working_Add_contract [OF that(1) sa] that(2) show ?thesis
      by (auto simp: engine_ops sa simp del: fun_upd_apply intro!: exI [of _ "wm_store m1"])
  qed
  show "(\<exists>n. w' = w\<lparr>tick := n\<rparr>)
      \<and> (case rs of Inl _ \<Rightarrow> True | Inr res \<Rightarrow> sr_Item ` set res \<subseteq> ran (mget (items (wm_store (wrk w)))))"
    if "store_wf (wm_store (wrk w))" "mem_Search (workingMemory E) c q k w = (rs, w')"
  proof -
    have s: "Working_Search E c q k w (wrk w) = (rs, w')" using that(2) by (simp add: engine_ops)
    show ?thesis using Working_Search_tick [OF s] Working_Search_Inr s ranked_from_store [OF that(1)]
      by (auto split: sum.splits) blast
  qed
qed (auto simp: engine_ops dest!: store_get_world store_update_moves split: prod.splits)

interpretation working_tier: memory_tier "workingMemory E" working_view working_inv
    "\<lambda>w. (wm_opts (wrk w), epi w, sem w, events w)" for E
  using working_stored.contract.memory_tier_axioms [of E]
  by (simp add: working_view_def [abs_def] working_inv_def [abs_def])

interpretation episodic_stored: stored_tier "episodicMemory E" E "\<lambda>w :: sys. em_store (epi w)"
    "\<lambda>s w. w\<lparr>epi := (epi w)\<lparr>em_store := s\<rparr>\<rparr>" "\<lambda>w. eo_VectorBackend (em_opts (epi w)) = Some inMemoryVectorBackend" "\<lambda>w. (wrk w, em_opts (epi w), sem w, events w)" for E
proof
  fix w :: sys and c item r w' q k rs
  show "\<exists>n s. w' = w\<lparr>tick := n, epi := (epi (w\<lparr>tick := n\<rparr>))\<lparr>em_store := s\<rparr>\<rparr> \<and> store_wf s
      \<and> (case r of Inl _ \<Rightarrow> mget (items s) = mget (items (em_store (epi w)))
         | Inr i \<Rightarrow> i \<noteq> '''' \<and> (ID item \<noteq> '''' \<longrightarrow> i = ID item)
             \<and> (\<exists>now. mget (items s) \<subseteq>\<^sub>m (mget (items (em_store (epi w))))(i \<mapsto> (stampAdded now item)\<lparr>ID := i\<rparr>)))"
    if "store_wf (em_store (epi w))" "mem_Add (episodicMemory E) c item w = (r, w')"
  proof -
    obtain r1 w1 s1 where sa: "store_add E c item w (em_store (epi w)) = (r1, w1, s1)" by (cases "store_add E c item w (em_store (epi w))")
    from store_add_contract_le [OF that(1) sa] that(2) show ?thesis
      by (auto simp: engine_ops sa simp del: fun_upd_apply intro!: exI [of _ s1])
  qed
  show "(\<exists>n. w' = w\<lparr>tick := n\<rparr>)
      \<and> (case rs of Inl _ \<Rightarrow> True | Inr res \<Rightarrow> sr_Item ` set res \<subseteq> ran (mget (items (em_store (epi w)))))"
    if "store_wf (em_store (epi w))" "eo_VectorBackend (em_opts (epi w)) = Some inMemoryVectorBackend"
      "mem_Search (episodicMemory E) c q k w = (rs, w')"
  proof -
    have s: "Episodic_Search E c q k w (epi w) = (rs, w')" using that(3) by (simp add: engine_ops)
    have "sr_Item ` set res \<subseteq> ran (mget (items (em_store (epi w))))" if "rs = Inr res" for res
      using Episodic_Search_Inr [OF s [unfolded that]] ranked_from_store \<open>store_wf (em_store (epi w))\<close>
        \<open>eo_VectorBackend (em_opts (epi w)) = Some inMemoryVectorBackend\<close> by blast
    then show ?thesis using Episodic_Search_tick [OF s] by (auto split: sum.splits)
  qed
qed (auto simp: engine_ops dest!: store_get_world store_update_moves split: prod.splits)

interpretation episodic_tier: memory_tier "episodicMemory E" episodic_view episodic_inv "\<lambda>w. (wrk w, em_opts (epi w), sem w, events w)" for E
  using episodic_stored.contract.memory_tier_axioms [of E]
  by (simp add: episodic_view_def [abs_def] episodic_inv_def [abs_def])

interpretation semantic_stored: stored_tier "semanticMemory E" E "\<lambda>w :: sys. sm_store (sem w)"
    "\<lambda>s w. w\<lparr>sem := (sem w)\<lparr>sm_store := s\<rparr>\<rparr>" "\<lambda>w. so_VectorBackend (sm_opts (sem w)) = Some inMemoryVectorBackend" "\<lambda>w. (wrk w, epi w, sm_opts (sem w), events w)" for E
proof
  fix w :: sys and c item r w' q k rs
  show "\<exists>n s. w' = w\<lparr>tick := n, sem := (sem (w\<lparr>tick := n\<rparr>))\<lparr>sm_store := s\<rparr>\<rparr> \<and> store_wf s
      \<and> (case r of Inl _ \<Rightarrow> mget (items s) = mget (items (sm_store (sem w)))
         | Inr i \<Rightarrow> i \<noteq> '''' \<and> (ID item \<noteq> '''' \<longrightarrow> i = ID item)
             \<and> (\<exists>now. mget (items s) \<subseteq>\<^sub>m (mget (items (sm_store (sem w))))(i \<mapsto> (stampAdded now item)\<lparr>ID := i\<rparr>)))"
    if "store_wf (sm_store (sem w))" "mem_Add (semanticMemory E) c item w = (r, w')"
  proof -
    obtain r1 w1 s1 where sa: "store_add E c item w (sm_store (sem w)) = (r1, w1, s1)" by (cases "store_add E c item w (sm_store (sem w))")
    from store_add_contract_le [OF that(1) sa] that(2) show ?thesis
      by (auto simp: engine_ops sa simp del: fun_upd_apply intro!: exI [of _ s1])
  qed
  show "(\<exists>n. w' = w\<lparr>tick := n\<rparr>)
      \<and> (case rs of Inl _ \<Rightarrow> True | Inr res \<Rightarrow> sr_Item ` set res \<subseteq> ran (mget (items (sm_store (sem w)))))"
    if "store_wf (sm_store (sem w))" "so_VectorBackend (sm_opts (sem w)) = Some inMemoryVectorBackend"
      "mem_Search (semanticMemory E) c q k w = (rs, w')"
  proof -
    have s: "Semantic_Search E c q k w (sem w) = (rs, w')" using that(3) by (simp add: engine_ops)
    have "sr_Item ` set res \<subseteq> ran (mget (items (sm_store (sem w))))" if "rs = Inr res" for res
      using Semantic_Search_Inr [OF s [unfolded that]] ranked_from_store \<open>store_wf (sm_store (sem w))\<close>
        \<open>so_VectorBackend (sm_opts (sem w)) = Some inMemoryVectorBackend\<close> by blast
    then show ?thesis using Semantic_Search_tick [OF s] by (auto split: sum.splits)
  qed
qed (auto simp: engine_ops dest!: store_get_world store_update_moves split: prod.splits)

interpretation semantic_tier: memory_tier "semanticMemory E" semantic_view semantic_inv "\<lambda>w. (wrk w, epi w, sm_opts (sem w), events w)" for E
  using semantic_stored.contract.memory_tier_axioms [of E]
  by (simp add: semantic_view_def [abs_def] semantic_inv_def [abs_def])


interpretation episodic_store: unbounded_tier "episodicMemory E" episodic_view episodic_inv
    "\<lambda>w. (wrk w, em_opts (epi w), sem w, events w)" for E
proof
  fix w :: sys and c item i w'
  assume inv: "episodic_inv w" and add: "mem_Add (episodicMemory E) c item w = (Inr i, w')"
  obtain r1 w1 s1 where sa: "store_add E c item w (em_store (epi w)) = (r1, w1, s1)"
    by (cases "store_add E c item w (em_store (epi w))")
  show "\<exists>now. episodic_view w' = (episodic_view w)(i \<mapsto> (stampAdded now item)\<lparr>ID := i\<rparr>)"
    using store_add_contract [OF _ sa] inv add unfolding episodic_inv_def episodic_view_def
    by (auto simp: engine_ops sa simp del: fun_upd_apply)
qed

interpretation semantic_store: unbounded_tier "semanticMemory E" semantic_view semantic_inv
    "\<lambda>w. (wrk w, epi w, sm_opts (sem w), events w)" for E
proof
  fix w :: sys and c item i w'
  assume inv: "semantic_inv w" and add: "mem_Add (semanticMemory E) c item w = (Inr i, w')"
  obtain r1 w1 s1 where sa: "store_add E c item w (sm_store (sem w)) = (r1, w1, s1)"
    by (cases "store_add E c item w (sm_store (sem w))")
  show "\<exists>now. semantic_view w' = (semantic_view w)(i \<mapsto> (stampAdded now item)\<lparr>ID := i\<rparr>)"
    using store_add_contract [OF _ sa] inv add unfolding semantic_inv_def semantic_view_def
    by (auto simp: engine_ops sa simp del: fun_upd_apply)
qed

interpretation working_pages: listed_tier E "\<lambda>c f n cur w. Working_List E f n cur w (wrk w)"
    "\<lambda>f (w :: sys). listing E f (heap w) (wm_store (wrk w))" working_inv for E
  by unfold_locales
    (simp_all add: Working_List_def listFromStore_page working_inv_def del: of_nat_add)

interpretation episodic_pages: listed_tier E "\<lambda>c f n cur w. Episodic_List E f n cur w (epi w)"
    "\<lambda>f (w :: sys). listing E f (heap w) (em_store (epi w))" episodic_inv for E
  by unfold_locales
    (simp_all add: Episodic_List_def listFromStore_page episodic_inv_def del: of_nat_add)

interpretation semantic_pages: listed_tier E "\<lambda>c f n cur w. Semantic_List E f n cur w (sem w)"
    "\<lambda>f (w :: sys). listing E f (heap w) (sm_store (sem w))" semantic_inv for E
  by unfold_locales
    (simp_all add: Semantic_List_def listFromStore_page semantic_inv_def del: of_nat_add)

end
