(* ===== verification/Scoped.thy ===== *)
theory Scoped
  imports Engines
begin

text \<open>
  \<^verbatim>\<open>scoped_manager_local.go\<close>: a manager whose operations act under the scope of
  their context. The operations on one item are correct for every tier that keeps the
  contract \<open>memory_tier\<close>; the properties instantiate that to the three engines.
\<close>


section \<open>Operations\<close>

record 's ScopedManager =
  sc_inner :: "'s Manager"

definition NewScopedManager :: "'s Manager option \<Rightarrow> error + 's ScopedManager" where
  "NewScopedManager inner = (case inner of
       None \<Rightarrow> Inl ErrManagerRequired
     | Some m \<Rightarrow> Inr \<lparr>sc_inner = m\<rparr>)"

definition Inner :: "'s ScopedManager \<Rightarrow> 's Manager" where
  "Inner sm = sc_inner sm"

definition Scoped_Add :: "env \<Rightarrow> 'z world_scheme ScopedManager \<Rightarrow> ctx \<Rightarrow> Kind \<Rightarrow> MemoryItem
    \<Rightarrow> 'z world_scheme \<Rightarrow> (error + string) \<times> 'z world_scheme" where
  "Scoped_Add E sm c kind item w =
     (let (item, h) = stampScope E (ScopeFrom c) item (heap w)
      in Manager_Add (sc_inner sm) c kind item (w\<lparr>heap := h\<rparr>))"

definition Scoped_Get :: "env \<Rightarrow> 'z world_scheme ScopedManager \<Rightarrow> ctx \<Rightarrow> Kind \<Rightarrow> string
    \<Rightarrow> 'z world_scheme \<Rightarrow> (error + MemoryItem) \<times> 'z world_scheme" where
  "Scoped_Get E sm c kind i w = (case Manager_Get (sc_inner sm) c kind i w of
       (Inl err, w) \<Rightarrow> (Inl err, w)
     | (Inr it, w) \<Rightarrow>
         if \<not> c_Scope_Matches E (ScopeFrom c) (readScope (heap w) it) then (Inl ErrNotFound, w)
         else (Inr it, w))"

definition Scoped_Update :: "env \<Rightarrow> 'z world_scheme ScopedManager \<Rightarrow> ctx \<Rightarrow> Kind \<Rightarrow> string \<Rightarrow> updater
    \<Rightarrow> 'z world_scheme \<Rightarrow> (error + unit) \<times> 'z world_scheme" where
  "Scoped_Update E sm c kind i fn w = (case Manager_Get (sc_inner sm) c kind i w of
       (Inl err, w) \<Rightarrow> (Inl err, w)
     | (Inr it, w) \<Rightarrow>
         if \<not> c_Scope_Matches E (ScopeFrom c) (readScope (heap w) it) then (Inl ErrNotFound, w)
         else Manager_Update (sc_inner sm) c kind i fn w)"

definition Scoped_Remove :: "env \<Rightarrow> 'z world_scheme ScopedManager \<Rightarrow> ctx \<Rightarrow> Kind \<Rightarrow> string
    \<Rightarrow> 'z world_scheme \<Rightarrow> (error + unit) \<times> 'z world_scheme" where
  "Scoped_Remove E sm c kind i w = (case Manager_Get (sc_inner sm) c kind i w of
       (Inl err, w) \<Rightarrow> (Inl err, w)
     | (Inr it, w) \<Rightarrow>
         if \<not> c_Scope_Matches E (ScopeFrom c) (readScope (heap w) it) then (Inl ErrNotFound, w)
         else Manager_Remove (sc_inner sm) c kind i w)"

definition filterByScope :: "env \<Rightarrow> meta list \<Rightarrow> SearchResult list \<Rightarrow> Scope \<Rightarrow> SearchResult list" where
  "filterByScope E h results s =
     (if c_Scope_IsZero E s then results
      else filter (\<lambda>r. c_Scope_Matches E s (readScope h (sr_Item r))) results)"

definition Scoped_Search :: "env \<Rightarrow> 'z world_scheme ScopedManager \<Rightarrow> ctx \<Rightarrow> Kind \<Rightarrow> string \<Rightarrow> int
    \<Rightarrow> 'z world_scheme \<Rightarrow> (error + SearchResult list) \<times> 'z world_scheme" where
  "Scoped_Search E sm c kind query topK w = (case Manager_Search (sc_inner sm) c kind query topK w of
       (Inl err, w) \<Rightarrow> (Inl err, w)
     | (Inr raw, w) \<Rightarrow> (Inr (filterByScope E (heap w) raw (ScopeFrom c)), w))"

definition Scoped_SearchAll :: "env \<Rightarrow> 'z world_scheme ScopedManager \<Rightarrow> ctx \<Rightarrow> string \<Rightarrow> int
    \<Rightarrow> 'z world_scheme \<Rightarrow> (error + (Kind, SearchResult list) gomap) \<times> 'z world_scheme" where
  "Scoped_SearchAll E sm c query topK w = (case SearchAll (sc_inner sm) c query topK w of
       ((raw, Some err), w) \<Rightarrow> (Inl err, w)
     | ((raw, None), w) \<Rightarrow>
         (Inr (map (\<lambda>(kind, results). (kind, filterByScope E (heap w) results (ScopeFrom c))) raw), w))"

definition Scoped_ListAll :: "env \<Rightarrow> 'z world_scheme ScopedManager \<Rightarrow> ctx \<Rightarrow> ListFilter \<Rightarrow> int
    \<Rightarrow> (Kind, string) gomap \<Rightarrow> 'z world_scheme \<Rightarrow> ((Kind, ListPage) gomap \<times> error option) \<times> 'z world_scheme" where
  "Scoped_ListAll E sm c f pageSize cursors w =
     (let s = ScopeFrom c; f = (if \<not> c_Scope_IsZero E s then f\<lparr>f_Scope := s\<rparr> else f)
      in ListAll (sc_inner sm) c f pageSize cursors w)"

definition Scoped_Consolidate :: "'s ScopedManager \<Rightarrow> ctx \<Rightarrow> ConsolidateOptions \<Rightarrow> 's
    \<Rightarrow> (int \<times> error option) \<times> 's" where
  "Scoped_Consolidate sm c opts w = Manager_Consolidate (sc_inner sm) c opts w"

definition Scoped_Forget :: "'s ScopedManager \<Rightarrow> ctx \<Rightarrow> Kind \<Rightarrow> ForgetOptions \<Rightarrow> 's
    \<Rightarrow> (int \<times> error option) \<times> 's" where
  "Scoped_Forget sm c kind opts w = Manager_Forget (sc_inner sm) c kind opts w"

definition Scoped_StatsAll :: "'s ScopedManager \<Rightarrow> 's \<Rightarrow> (Kind, Stats) gomap \<times> 's" where
  "Scoped_StatsAll sm w = StatsAll (sc_inner sm) w"


section \<open>Any tier\<close>

context memory_tier
begin

lemma scoped_get:
  assumes "inv w" and "requireMemory (sc_inner sm) kind = Inr mem"
    and "Scoped_Get E sm c kind i w = (r, w')"
  shows "(case view w i of
       None \<Rightarrow> r = Inl ErrNotFound \<and> w' = w
     | Some it \<Rightarrow> (\<exists>t. view w' = (view w)(i \<mapsto> it\<lparr>AccessedAt := t\<rparr>)
         \<and> r = (if c_Scope_Matches E (ScopeFrom c) (readScope (heap w) it)
                then Inr (it\<lparr>AccessedAt := t\<rparr>) else Inl ErrNotFound)))
    \<and> heap w' = heap w \<and> frame w' = frame w \<and> inv w'"
proof (cases "view w i")
  case None
  then show ?thesis using assms get_miss [OF assms(1) None]
    by (simp add: Scoped_Get_def Manager_Get_def)
next
  case (Some it)
  obtain t w1 where g: "mem_Get mem c i w = (Inr (it\<lparr>AccessedAt := t\<rparr>), w1)"
      "view w1 = (view w)(i \<mapsto> it\<lparr>AccessedAt := t\<rparr>)" "heap w1 = heap w" "frame w1 = frame w" "inv w1"
    using get_hit [OF assms(1) Some] by blast
  have rs: "readScope h (it\<lparr>AccessedAt := t\<rparr>) = readScope h it" for h
    by (rule readScope_cong) (simp add: meta_of_def)
  show ?thesis using assms(2,3) g Some rs
    by (auto simp: Scoped_Get_def Manager_Get_def simp del: fun_upd_apply split: if_splits)
qed

lemma scoped_remove:
  assumes "inv w" and "requireMemory (sc_inner sm) kind = Inr mem"
    and "Scoped_Remove E sm c kind i w = (r, w')"
  shows "(case view w i of
       None \<Rightarrow> r = Inl ErrNotFound \<and> w' = w
     | Some it \<Rightarrow>
         if c_Scope_Matches E (ScopeFrom c) (readScope (heap w) it)
         then r = Inr () \<and> view w' = (view w)(i := None)
         else r = Inl ErrNotFound \<and> (\<exists>t. view w' = (view w)(i \<mapsto> it\<lparr>AccessedAt := t\<rparr>)))
    \<and> heap w' = heap w \<and> frame w' = frame w \<and> inv w'"
proof (cases "view w i")
  case None
  then show ?thesis using assms get_miss [OF assms(1) None]
    by (simp add: Scoped_Remove_def Manager_Get_def)
next
  case (Some it)
  obtain t w1 where g: "mem_Get mem c i w = (Inr (it\<lparr>AccessedAt := t\<rparr>), w1)"
      "view w1 = (view w)(i \<mapsto> it\<lparr>AccessedAt := t\<rparr>)" "heap w1 = heap w" "frame w1 = frame w" "inv w1"
    using get_hit [OF assms(1) Some] by blast
  obtain w2 where d: "mem_Remove mem c i w1 = (Inr (), w2)" "view w2 = (view w1)(i := None)"
      "heap w2 = heap w1" "frame w2 = frame w1" "inv w2"
    using remove_hit [OF g(5), of i "it\<lparr>AccessedAt := t\<rparr>"] g(2) by auto
  have rs: "readScope h (it\<lparr>AccessedAt := t\<rparr>) = readScope h it" for h
    by (rule readScope_cong) (simp add: meta_of_def)
  have gone: "view w2 = (view w)(i := None)" using d(2) g(2) by simp
  show ?thesis using assms(2,3) g(1,3,4) d(1,3,4,5) Some rs gone g(2,5)
    by (auto simp: Scoped_Remove_def Manager_Get_def Manager_Remove_def simp del: fun_upd_apply split: if_splits)
qed

lemma scoped_update:
  assumes "inv w" and "keepsID fn" and "requireMemory (sc_inner sm) kind = Inr mem"
    and "Scoped_Update E sm c kind i fn w = (r, w')"
  shows "(case view w i of
       None \<Rightarrow> r = Inl ErrNotFound \<and> w' = w
     | Some it \<Rightarrow>
         if c_Scope_Matches E (ScopeFrom c) (readScope (heap w) it)
         then (\<exists>t t' new h. fn (it\<lparr>AccessedAt := t\<rparr>) (heap w) = (new, h) \<and> heap w' = h
               \<and> view w' = (view w)(i \<mapsto> new\<lparr>AccessedAt := t', Importance := clampUnit (Importance new)\<rparr>))
         else r = Inl ErrNotFound \<and> heap w' = heap w \<and> (\<exists>t. view w' = (view w)(i \<mapsto> it\<lparr>AccessedAt := t\<rparr>)))
    \<and> frame w' = frame w \<and> inv w'"
proof (cases "view w i")
  case None
  then show ?thesis using assms get_miss [OF assms(1) None]
    by (simp add: Scoped_Update_def Manager_Get_def)
next
  case (Some it)
  obtain t w1 where g: "mem_Get mem c i w = (Inr (it\<lparr>AccessedAt := t\<rparr>), w1)"
      "view w1 = (view w)(i \<mapsto> it\<lparr>AccessedAt := t\<rparr>)" "heap w1 = heap w" "frame w1 = frame w" "inv w1"
    using get_hit [OF assms(1) Some] by blast
  obtain new h where f: "fn (it\<lparr>AccessedAt := t\<rparr>) (heap w) = (new, h)" by fastforce
  have "view w1 i = Some (it\<lparr>AccessedAt := t\<rparr>)" using g(2) by simp
  from update_hit [OF g(5) assms(2) this, of c] f g(3)
  obtain u t' w2 where d: "mem_Update mem c i fn w1 = (u, w2)"
      "view w2 = (view w1)(i \<mapsto> new\<lparr>AccessedAt := t', Importance := clampUnit (Importance new)\<rparr>)"
      "frame w2 = frame w1" "inv w2" "heap w2 = h" by auto
  have rs: "readScope h (it\<lparr>AccessedAt := t\<rparr>) = readScope h it" for h
    by (rule readScope_cong) (simp add: meta_of_def)
  have upd: "\<exists>t t' new h. fn (it\<lparr>AccessedAt := t\<rparr>) (heap w) = (new, h) \<and> heap w2 = h
      \<and> view w2 = (view w)(i \<mapsto> new\<lparr>AccessedAt := t', Importance := clampUnit (Importance new)\<rparr>)"
    using d(2,5) f unfolding g(2) fun_upd_upd by blast
  show ?thesis
  proof (cases "c_Scope_Matches E (ScopeFrom c) (readScope (heap w) it)")
    case True
    then have "w' = w2" using assms(3,4) g(1,3) d(1) rs by (simp add: Scoped_Update_def Manager_Get_def Manager_Update_def)
    then show ?thesis using True Some upd d(3,4) g(4) by simp
  next
    case False
    then have "r = Inl ErrNotFound" "w' = w1" using assms(3,4) g(1,3) rs by (simp_all add: Scoped_Update_def Manager_Get_def)
    then show ?thesis using False Some g(2-5) by auto
  qed
qed

lemma scoped_search:
  assumes "inv w" and "requireMemory (sc_inner sm) kind = Inr mem"
    and "Scoped_Search E sm c kind q k w = (Inr res, w')"
  shows "(\<exists>n. w' = w\<lparr>tick := n\<rparr>) \<and> sr_Item ` set res \<subseteq> ran (view w)
    \<and> (\<not> c_Scope_IsZero E (ScopeFrom c) \<longrightarrow>
        (\<forall>x \<in> set res. c_Scope_Matches E (ScopeFrom c) (readScope (heap w) (sr_Item x))))"
proof -
  obtain rs w1 where s: "mem_Search mem c q k w = (rs, w1)" by (cases "mem_Search mem c q k w")
  note law = search_result [OF assms(1) s]
  obtain raw where "rs = Inr raw" "w' = w1" "res = filterByScope E (heap w1) raw (ScopeFrom c)"
    using assms(2,3) s by (auto simp: Scoped_Search_def Manager_Search_def split: sum.splits)
  then show ?thesis using law by (auto simp: filterByScope_def)
qed

end


context unbounded_tier
begin

text \<open>What a scoped addition stores, and the scope read back from it.\<close>

lemma scoped_add_stores:
  assumes "inv w" and "requireMemory (sc_inner sm) kind = Inr mem" and "valid_ref (heap w) item"
    and "\<not> c_Scope_IsZero E (ScopeFrom c)" and "Scoped_Add E sm c kind item w = (Inr i, w')"
  shows "\<exists>it. view w' = (view w)(i \<mapsto> it) \<and> readScope (heap w') it = ScopeFrom c
    \<and> Content it = Content item \<and> (Metadata item \<noteq> None \<longrightarrow> Metadata it = Metadata item)
    \<and> valid_ref (heap w') it \<and> heap w' = snd (stampScope E (ScopeFrom c) item (heap w))
    \<and> frame w' = frame w \<and> inv w'"
proof -
  obtain item' h' where st: "stampScope E (ScopeFrom c) item (heap w) = (item', h')"
    by (cases "stampScope E (ScopeFrom c) item (heap w)")
  have add: "mem_Add mem c item' (w\<lparr>heap := h'\<rparr>) = (Inr i, w')"
    using assms(2,5) st by (simp add: Scoped_Add_def Manager_Add_def)
  have inv': "inv (w\<lparr>heap := h'\<rparr>)" using assms(1) by (simp add: heap_free)
  obtain now where v: "view w' = (view w)(i \<mapsto> (stampAdded now item')\<lparr>ID := i\<rparr>)"
    using add_stores [OF inv' add] by (auto simp: heap_free)
  have rest: "heap w' = h'" "frame w' = frame w" "inv w'" using add_result [OF inv' add] by (simp_all add: heap_free)
  have "readScope h' ((stampAdded now item')\<lparr>ID := i\<rparr>) = readScope h' item'"
    by (rule readScope_cong) (simp add: meta_of_def)
  also have "\<dots> = ScopeFrom c" by (rule stampScope_self [OF assms(3,4) st])
  finally have rs: "readScope h' ((stampAdded now item')\<lparr>ID := i\<rparr>) = ScopeFrom c" .
  have m: "Content item' = Content item" "Metadata item \<noteq> None \<longrightarrow> Metadata item' = Metadata item"
      "valid_ref h' item'"
    using st assms(3,4) by (auto simp: stampScope_def meta_put_def valid_ref_def split: option.splits)
  have "valid_ref h' ((stampAdded now item')\<lparr>ID := i\<rparr>)" using m(3) by (simp add: valid_ref_def)
  then show ?thesis using v rs m rest st by (intro exI [of _ "(stampAdded now item')\<lparr>ID := i\<rparr>"]) simp
qed

end


section \<open>The three engines\<close>

definition tier_view :: "Kind \<Rightarrow> sys \<Rightarrow> string \<rightharpoonup> MemoryItem" where
  "tier_view kind = (case kind of
       KindWorking \<Rightarrow> working_view | KindEpisodic \<Rightarrow> episodic_view | KindSemantic \<Rightarrow> semantic_view
     | KindOther _ \<Rightarrow> (\<lambda>_. Map.empty))"

definition sys_inv :: "sys \<Rightarrow> bool" where
  "sys_inv w \<longleftrightarrow> working_inv w \<and> episodic_inv w \<and> semantic_inv w"

definition engineScoped :: "env \<Rightarrow> sys ScopedManager" where
  "engineScoped E = \<lparr>sc_inner = engineManager E\<rparr>"

lemma engineManager_tiers [simp]:
  "requireMemory (engineManager E) KindWorking = Inr (workingMemory E)"
  "requireMemory (engineManager E) KindEpisodic = Inr (episodicMemory E)"
  "requireMemory (engineManager E) KindSemantic = Inr (semanticMemory E)"
  "sc_inner (engineScoped E) = engineManager E"
  by (simp_all add: requireMemory_def tierFor_def engineManager_def engineOptions_def tierWith_def
      requireLocalMemory_def asLocalMemory_def engineScoped_def)

lemma tier_view_simps [simp]:
  "tier_view KindWorking = working_view" "tier_view KindEpisodic = episodic_view"
  "tier_view KindSemantic = semantic_view" "tier_view (KindOther s) = (\<lambda>_. Map.empty)"
  by (simp_all add: tier_view_def)

text \<open>An operation on one engine leaves the views and the invariants of the others.\<close>

lemma working_frame:
  "(wm_opts (wrk w'), epi w', sem w', events w') = (wm_opts (wrk w), epi w, sem w, events w) \<Longrightarrow> sys_inv w \<Longrightarrow>
    working_inv w' \<Longrightarrow> sys_inv w' \<and> (\<forall>k. k \<noteq> KindWorking \<longrightarrow> tier_view k w' = tier_view k w)"
  by (auto simp: sys_inv_def episodic_inv_def semantic_inv_def tier_view_def episodic_view_def
      semantic_view_def split: Kind.splits)

lemma episodic_frame:
  "(wrk w', em_opts (epi w'), sem w', events w') = (wrk w, em_opts (epi w), sem w, events w) \<Longrightarrow> sys_inv w \<Longrightarrow>
    episodic_inv w' \<Longrightarrow> sys_inv w' \<and> (\<forall>k. k \<noteq> KindEpisodic \<longrightarrow> tier_view k w' = tier_view k w)"
  by (auto simp: sys_inv_def working_inv_def semantic_inv_def tier_view_def working_view_def
      semantic_view_def split: Kind.splits)

lemma semantic_frame:
  "(wrk w', epi w', sm_opts (sem w'), events w') = (wrk w, epi w, sm_opts (sem w), events w) \<Longrightarrow> sys_inv w \<Longrightarrow>
    semantic_inv w' \<Longrightarrow> sys_inv w' \<and> (\<forall>k. k \<noteq> KindSemantic \<longrightarrow> tier_view k w' = tier_view k w)"
  by (auto simp: sys_inv_def working_inv_def episodic_inv_def tier_view_def working_view_def
      episodic_view_def split: Kind.splits)

text \<open>An addition to any of the engines, seen on the three views.\<close>

lemma engine_add:
  assumes "sys_inv w" and "kind \<in> set allKinds" and "Manager_Add (engineManager E) c kind item w = (r, w')"
  shows "sys_inv w' \<and> heap w' = heap w \<and> (\<forall>k. k \<noteq> kind \<longrightarrow> tier_view k w' = tier_view k w) \<and> events w' = events w
    \<and> (case r of Inl _ \<Rightarrow> tier_view kind w' = tier_view kind w
       | Inr i \<Rightarrow> i \<noteq> '''' \<and> (ID item \<noteq> '''' \<longrightarrow> i = ID item)
           \<and> (\<exists>now. tier_view kind w' \<subseteq>\<^sub>m (tier_view kind w)(i \<mapsto> (stampAdded now item)\<lparr>ID := i\<rparr>)))"
proof -
  have inv: "working_inv w" "episodic_inv w" "semantic_inv w" using assms(1) by (simp_all add: sys_inv_def)
  consider "kind = KindWorking" | "kind = KindEpisodic" | "kind = KindSemantic"
    using assms(2) by (auto simp: allKinds_def)
  then show ?thesis
  proof cases
    case 1
    then have "mem_Add (workingMemory E) c item w = (r, w')" using assms(3) by (simp add: Manager_Add_def)
    note law = working_tier.add_result [OF inv(1) this]
    show ?thesis unfolding 1 tier_view_simps using law working_frame [OF _ assms(1)] by (auto simp: 1)
  next
    case 2
    then have "mem_Add (episodicMemory E) c item w = (r, w')" using assms(3) by (simp add: Manager_Add_def)
    note law = episodic_tier.add_result [OF inv(2) this]
    show ?thesis unfolding 2 tier_view_simps using law episodic_frame [OF _ assms(1)] by (auto simp: 2)
  next
    case 3
    then have "mem_Add (semanticMemory E) c item w = (r, w')" using assms(3) by (simp add: Manager_Add_def)
    note law = semantic_tier.add_result [OF inv(3) this]
    show ?thesis unfolding 3 tier_view_simps using law semantic_frame [OF _ assms(1)] by (auto simp: 3)
  qed
qed

text \<open>
  What an addition that succeeds leaves, exactly: the tier with the item, from which the
  working memory, and only when it is over its capacity, has dropped at most one.
\<close>

definition added :: "Kind \<Rightarrow> string \<Rightarrow> MemoryItem \<Rightarrow> sys \<Rightarrow> sys \<Rightarrow> bool" where
  "added kind i it w w' \<longleftrightarrow> tier_view kind w' = (tier_view kind w)(i \<mapsto> it)
     \<or> (kind = KindWorking \<and> 0 < wo_Capacity (wm_opts (wrk w))
        \<and> wo_Capacity (wm_opts (wrk w)) < int (card (dom ((tier_view kind w)(i \<mapsto> it))))
        \<and> (\<exists>j \<in> dom ((tier_view kind w)(i \<mapsto> it)). tier_view kind w' = (tier_view kind w)(i \<mapsto> it, j := None)))"

lemma card_dom_mget: "mwf m \<Longrightarrow> card (dom (mget m)) = length m"
proof -
  assume m: "mwf m"
  have "x \<in> dom (mget m) \<longleftrightarrow> x \<in> mkeys m" for x using mget_None_iff [of m x] by (simp only: domIff) blast
  then have "dom (mget m) = mkeys m" by blast
  then show ?thesis using m by (metis distinct_card length_map list.set_map mwf_def)
qed

lemma evict_exact:
  assumes "evictIfOverCapacity E c q w wm = (w', wm')"
  shows "wm' = wm \<or> (0 < wo_Capacity (wm_opts wm) \<and> wo_Capacity (wm_opts wm) < int (length (items (wm_store wm)))
    \<and> (\<exists>j. wm' = wm\<lparr>wm_store := snd (store_remove j (wm_store wm))\<rparr>))"
  using assms
  by (auto simp: evictIfOverCapacity_def evictOldest_def Let_def split_beta split: if_splits sum.splits list.splits prod.splits)

lemma working_added:
  assumes "working_inv w" and "mem_Add (workingMemory E) c item w = (Inr i, w')"
  shows "\<exists>now. added KindWorking i ((stampAdded now item)\<lparr>ID := i\<rparr>) w w'"
proof -
  let ?s = "wm_store (wrk w)"
  obtain r w1 s1 where sa: "store_add E c item w ?s = (r, w1, s1)" by (cases "store_add E c item w ?s")
  have r: "r = Inr i" using assms(2) sa by (cases r) (auto simp: workingMemory_def Working_Add_def split: prod.splits)
  have wf: "store_wf ?s" using assms(1) by (simp add: working_inv_def)
  obtain now vec where s1: "items s1 = mput i ((stampAdded now item)\<lparr>ID := i\<rparr>) (items ?s)"
    using store_add_Inr [OF sa [unfolded r]] by blast
  let ?M = "(tier_view KindWorking w)(i \<mapsto> (stampAdded now item)\<lparr>ID := i\<rparr>)"
  have M: "mget (items s1) = ?M" using s1 by (simp add: working_view_def fun_eq_iff)
  have wf1: "store_wf s1" by (rule store_add_wf [OF wf sa])
  then have len: "int (length (items s1)) = int (card (dom ?M))" using card_dom_mget [of "items s1"] unfolding M store_wf_def by presburger
  obtain w2 wm2 where ev: "evictIfOverCapacity E c (Content item) w1 ((wrk w)\<lparr>wm_store := s1\<rparr>) = (w2, wm2)"
    by (cases "evictIfOverCapacity E c (Content item) w1 ((wrk w)\<lparr>wm_store := s1\<rparr>)")
  have w': "tier_view KindWorking w' = mget (items (wm_store wm2))"
    using assms(2) sa r ev by (auto simp: workingMemory_def Working_Add_def working_view_def split: prod.splits)
  show ?thesis
  proof (cases "wm2 = (wrk w)\<lparr>wm_store := s1\<rparr>")
    case True
    then have "tier_view KindWorking w' = ?M" unfolding w' M [symmetric] by simp
    then show ?thesis unfolding added_def by blast
  next
    case False
    then obtain j where j: "0 < wo_Capacity (wm_opts (wrk w))" "wo_Capacity (wm_opts (wrk w)) < int (length (items s1))"
        "wm2 = (wrk w)\<lparr>wm_store := snd (store_remove j s1)\<rparr>"
      using evict_exact [OF ev] by auto
    have "j \<in> dom ?M"
    proof (rule ccontr)
      assume "j \<notin> dom ?M"
      then have "mget (items s1) j = None" using M by (simp only: domIff not_not)
      then show False using False j(3) by (simp add: store_remove_miss)
    qed
    moreover from this obtain x where "mget (items s1) j = Some x" unfolding M by blast
    then have "tier_view KindWorking w' = ?M(j := None)" unfolding w' j(3) M [symmetric]
      by (simp add: store_remove_hit mget_mdel_upd)
    ultimately show ?thesis unfolding added_def using j(1,2) len by (intro exI [of _ now]) auto
  qed
qed

lemma engine_added:
  assumes "sys_inv w" and "kind \<in> set allKinds" and "Manager_Add (engineManager E) c kind item w = (Inr i, w')"
  shows "\<exists>now. added kind i ((stampAdded now item)\<lparr>ID := i\<rparr>) w w'"
proof -
  have inv: "working_inv w" "episodic_inv w" "semantic_inv w" using assms(1) by (simp_all add: sys_inv_def)
  consider "kind = KindWorking" | "kind = KindEpisodic" | "kind = KindSemantic"
    using assms(2) by (auto simp: allKinds_def)
  then show ?thesis
  proof cases
    case 1
    then show ?thesis using working_added [OF inv(1)] assms(3) by (simp add: Manager_Add_def)
  next
    case 2
    then show ?thesis using episodic_store.add_stores [OF inv(2)] assms(3) by (simp add: Manager_Add_def added_def)
  next
    case 3
    then show ?thesis using semantic_store.add_stores [OF inv(3)] assms(3) by (simp add: Manager_Add_def added_def)
  qed
qed

text \<open>Emitting an event changes nothing a view or an invariant looks at.\<close>

lemma emit_views [simp]:
  "tier_view k (emit ob n a w) = tier_view k w" "sys_inv (emit ob n a w) = sys_inv w"
  "heap (emit ob n a w) = heap w"
  by (simp_all add: emit_def tier_view_def working_view_def episodic_view_def semantic_view_def sys_inv_def
      working_inv_def episodic_inv_def semantic_inv_def split: option.splits Kind.splits)

lemma emit_events [simp]: "events (emit (Some n) name attrs w) = events w @ [(n, \<lparr>ev_Name = name, ev_Attrs = attrs\<rparr>)]"
  by (simp add: emit_def)


section \<open>Properties\<close>

definition sampleSys :: sys where
  "sampleSys = \<lparr>tick = 0, heap = [Map.empty(metaKeyScope \<mapsto> scopeValue \<lparr>User = ''ann'', Project = '''', Session = ''''\<rparr>)],
     events = [],
     wrk = sampleWorking\<lparr>wm_store := (sampleStore sampleEmbedder)
       \<lparr>items := [(''k'', (sampleItem ''k'' ''old'')\<lparr>Metadata := Some 0\<rparr>)]\<rparr>\<rparr>,
     epi = sampleEpisodic, sem = sampleSemantic\<rparr>"

lemma sampleSys_inv: "sys_inv sampleSys"
  by (simp add: sys_inv_def working_inv_def episodic_inv_def semantic_inv_def sampleSys_def sampleStore_wf)
    (simp add: store_wf_def mwf_def)

lemma sampleSys_scope:
  "readScope (heap sampleSys) ((sampleItem ''k'' ''old'')\<lparr>Metadata := Some 0\<rparr>) = \<lparr>User = ''ann'', Project = '''', Session = ''''\<rparr>"
  by (simp add: sampleSys_def readScope_def meta_of_def meta_at_def scopeValue_def strAt_def)

definition annCtx :: ctx where "annCtx = WithScope sampleCtx \<lparr>User = ''ann'', Project = '''', Session = ''''\<rparr>"
definition bobCtx :: ctx where "bobCtx = WithScope sampleCtx \<lparr>User = ''bob'', Project = '''', Session = ''''\<rparr>"

lemma scoped_get_any:
  assumes "sys_inv w" and "kind \<in> set allKinds" and "Scoped_Get E (engineScoped E) c kind i w = (r, w')"
  shows "(case tier_view kind w i of
       None \<Rightarrow> r = Inl ErrNotFound \<and> w' = w
     | Some it \<Rightarrow> (\<exists>t. tier_view kind w' = (tier_view kind w)(i \<mapsto> it\<lparr>AccessedAt := t\<rparr>)
         \<and> r = (if c_Scope_Matches E (ScopeFrom c) (readScope (heap w) it)
                then Inr (it\<lparr>AccessedAt := t\<rparr>) else Inl ErrNotFound)))
    \<and> heap w' = heap w \<and> (\<forall>k. k \<noteq> kind \<longrightarrow> tier_view k w' = tier_view k w) \<and> sys_inv w'"
proof -
  have inv: "working_inv w" "episodic_inv w" "semantic_inv w" using assms(1) by (simp_all add: sys_inv_def)
  consider "kind = KindWorking" | "kind = KindEpisodic" | "kind = KindSemantic"
    using assms(2) by (auto simp: allKinds_def)
  then show ?thesis
  proof cases
    case 1
    have tier: "requireMemory (sc_inner (engineScoped E)) kind = Inr (workingMemory E)" using 1 by simp
    show ?thesis unfolding 1 tier_view_simps
      using working_tier.scoped_get [OF inv(1) tier assms(3)] working_frame [OF _ assms(1), of w'] by blast
  next
    case 2
    have tier: "requireMemory (sc_inner (engineScoped E)) kind = Inr (episodicMemory E)" using 2 by simp
    show ?thesis unfolding 2 tier_view_simps
      using episodic_tier.scoped_get [OF inv(2) tier assms(3)] episodic_frame [OF _ assms(1), of w'] by blast
  next
    case 3
    have tier: "requireMemory (sc_inner (engineScoped E)) kind = Inr (semanticMemory E)" using 3 by simp
    show ?thesis unfolding 3 tier_view_simps
      using semantic_tier.scoped_get [OF inv(3) tier assms(3)] semantic_frame [OF _ assms(1), of w'] by blast
  qed
qed

text \<open>
  C4. A scoped lookup is isolated, on every engine: an item is returned exactly when it is
  stored and its stamp matches the scope of the context; otherwise the answer is the same
  as for an unknown identifier. At most the access time of that one item changes.
\<close>

theorem scoped_get_isolated:
  assumes "sys_inv w" and "kind \<in> set allKinds" and "Scoped_Get E (engineScoped E) c kind i w = (r, w')"
  shows "(case tier_view kind w i of
       None \<Rightarrow> r = Inl ErrNotFound \<and> w' = w
     | Some it \<Rightarrow> (\<exists>t. tier_view kind w' = (tier_view kind w)(i \<mapsto> it\<lparr>AccessedAt := t\<rparr>)
         \<and> r = (if c_Scope_Matches E (ScopeFrom c) (readScope (heap w) it)
                then Inr (it\<lparr>AccessedAt := t\<rparr>) else Inl ErrNotFound)))
    \<and> heap w' = heap w \<and> (\<forall>k. k \<noteq> kind \<longrightarrow> tier_view k w' = tier_view k w) \<and> sys_inv w'"
  by (rule scoped_get_any [OF assms])

theorem scoped_get_isolated_witness:
  "fst (Scoped_Get sampleEnv (engineScoped sampleEnv) bobCtx KindWorking ''k'' sampleSys) = Inl ErrNotFound"
  (is "fst ?G = _")
proof -
  have "working_view sampleSys ''k'' = Some ((sampleItem ''k'' ''old'')\<lparr>Metadata := Some 0\<rparr>)"
    by (simp add: working_view_def sampleSys_def)
  then show ?thesis
    using scoped_get_isolated [OF sampleSys_inv, of KindWorking sampleEnv bobCtx "''k''" "fst ?G" "snd ?G"]
    by (auto simp: allKinds_def sampleSys_scope bobCtx_def sample_field_def)
qed

text \<open>
  C27. A scoped removal is isolated, on every engine: it removes an item exactly when the
  item's stamp matches the scope of the context, and then only that item; an item of
  another scope survives with at most a new access time, and the caller cannot tell it from
  a missing one.
\<close>

theorem scoped_remove_isolated:
  assumes "sys_inv w" and "kind \<in> set allKinds" and "Scoped_Remove E (engineScoped E) c kind i w = (r, w')"
  shows "(case tier_view kind w i of
       None \<Rightarrow> r = Inl ErrNotFound \<and> w' = w
     | Some it \<Rightarrow>
         if c_Scope_Matches E (ScopeFrom c) (readScope (heap w) it)
         then r = Inr () \<and> tier_view kind w' = (tier_view kind w)(i := None)
         else r = Inl ErrNotFound \<and> (\<exists>t. tier_view kind w' = (tier_view kind w)(i \<mapsto> it\<lparr>AccessedAt := t\<rparr>)))
    \<and> heap w' = heap w \<and> (\<forall>k. k \<noteq> kind \<longrightarrow> tier_view k w' = tier_view k w) \<and> sys_inv w'"
proof -
  have inv: "working_inv w" "episodic_inv w" "semantic_inv w" using assms(1) by (simp_all add: sys_inv_def)
  consider "kind = KindWorking" | "kind = KindEpisodic" | "kind = KindSemantic"
    using assms(2) by (auto simp: allKinds_def)
  then show ?thesis
  proof cases
    case 1
    have tier: "requireMemory (sc_inner (engineScoped E)) kind = Inr (workingMemory E)" using 1 by simp
    show ?thesis unfolding 1 tier_view_simps
      using working_tier.scoped_remove [OF inv(1) tier assms(3)] working_frame [OF _ assms(1), of w'] by blast
  next
    case 2
    have tier: "requireMemory (sc_inner (engineScoped E)) kind = Inr (episodicMemory E)" using 2 by simp
    show ?thesis unfolding 2 tier_view_simps
      using episodic_tier.scoped_remove [OF inv(2) tier assms(3)] episodic_frame [OF _ assms(1), of w'] by blast
  next
    case 3
    have tier: "requireMemory (sc_inner (engineScoped E)) kind = Inr (semanticMemory E)" using 3 by simp
    show ?thesis unfolding 3 tier_view_simps
      using semantic_tier.scoped_remove [OF inv(3) tier assms(3)] semantic_frame [OF _ assms(1), of w'] by blast
  qed
qed

theorem scoped_remove_isolated_witness:
  "fst (Scoped_Remove sampleEnv (engineScoped sampleEnv) annCtx KindWorking ''k'' sampleSys) = Inr ()"
  (is "fst ?G = _")
proof -
  have "working_view sampleSys ''k'' = Some ((sampleItem ''k'' ''old'')\<lparr>Metadata := Some 0\<rparr>)"
    by (simp add: working_view_def sampleSys_def)
  then show ?thesis
    using scoped_remove_isolated [OF sampleSys_inv, of KindWorking sampleEnv annCtx "''k''" "fst ?G" "snd ?G"]
    by (auto simp: allKinds_def sampleSys_scope annCtx_def sample_field_def)
qed

text \<open>
  C28. A scoped update is isolated, on every engine: when the stamp of the item matches the
  scope of the context, the item becomes what the caller's function, which keeps the
  identifier, makes of it, with a new access time and its importance clamped; when it does not
  match, the answer is that of an unknown identifier, the function does not run (the metadata
  maps are unchanged) and the item keeps everything but its access time; in every case no other
  item and no other engine changes.
\<close>

theorem scoped_update_isolated:
  assumes "sys_inv w" and "keepsID fn" and "kind \<in> set allKinds"
    and "Scoped_Update E (engineScoped E) c kind i fn w = (r, w')"
  shows "(case tier_view kind w i of
       None \<Rightarrow> r = Inl ErrNotFound \<and> w' = w
     | Some it \<Rightarrow>
         if c_Scope_Matches E (ScopeFrom c) (readScope (heap w) it)
         then (\<exists>t t' new h. fn (it\<lparr>AccessedAt := t\<rparr>) (heap w) = (new, h) \<and> heap w' = h
               \<and> tier_view kind w' = (tier_view kind w)(i \<mapsto> new\<lparr>AccessedAt := t', Importance := clampUnit (Importance new)\<rparr>))
         else r = Inl ErrNotFound \<and> heap w' = heap w
              \<and> (\<exists>t. tier_view kind w' = (tier_view kind w)(i \<mapsto> it\<lparr>AccessedAt := t\<rparr>)))
    \<and> (\<forall>k. k \<noteq> kind \<longrightarrow> tier_view k w' = tier_view k w) \<and> sys_inv w'"
proof -
  have inv: "working_inv w" "episodic_inv w" "semantic_inv w" using assms(1) by (simp_all add: sys_inv_def)
  consider "kind = KindWorking" | "kind = KindEpisodic" | "kind = KindSemantic"
    using assms(3) by (auto simp: allKinds_def)
  then show ?thesis
  proof cases
    case 1
    have tier: "requireMemory (sc_inner (engineScoped E)) kind = Inr (workingMemory E)" using 1 by simp
    show ?thesis unfolding 1 tier_view_simps
      using working_tier.scoped_update [OF inv(1) assms(2) tier assms(4)] working_frame [OF _ assms(1), of w'] by blast
  next
    case 2
    have tier: "requireMemory (sc_inner (engineScoped E)) kind = Inr (episodicMemory E)" using 2 by simp
    show ?thesis unfolding 2 tier_view_simps
      using episodic_tier.scoped_update [OF inv(2) assms(2) tier assms(4)] episodic_frame [OF _ assms(1), of w'] by blast
  next
    case 3
    have tier: "requireMemory (sc_inner (engineScoped E)) kind = Inr (semanticMemory E)" using 3 by simp
    show ?thesis unfolding 3 tier_view_simps
      using semantic_tier.scoped_update [OF inv(3) assms(2) tier assms(4)] semantic_frame [OF _ assms(1), of w'] by blast
  qed
qed

theorem scoped_update_isolated_witness:
  "heap (snd (Scoped_Update sampleEnv (engineScoped sampleEnv) bobCtx KindWorking ''k''
     (\<lambda>it h. (it, [])) sampleSys)) = heap sampleSys"
  (is "heap (snd ?G) = _")
proof -
  have "working_view sampleSys ''k'' = Some ((sampleItem ''k'' ''old'')\<lparr>Metadata := Some 0\<rparr>)"
    by (simp add: working_view_def sampleSys_def)
  then show ?thesis
    using scoped_update_isolated [OF sampleSys_inv, of "\<lambda>it h. (it, [])" KindWorking sampleEnv bobCtx "''k''" "fst ?G" "snd ?G"]
    by (auto simp: keepsID_def allKinds_def sampleSys_scope bobCtx_def sample_field_def)
qed

text \<open>
  C29. A scoped search returns only stored items of the scope: under a context whose scope is
  not zero, every result is an item of the searched engine whose stamp matches, and the
  search changes nothing but the clock.
\<close>

theorem scoped_search_isolated:
  assumes "sys_inv w" and "kind \<in> set allKinds" and "Scoped_Search E (engineScoped E) c kind q k w = (Inr res, w')"
  shows "(\<exists>n. w' = w\<lparr>tick := n\<rparr>) \<and> sr_Item ` set res \<subseteq> ran (tier_view kind w)
    \<and> (\<not> c_Scope_IsZero E (ScopeFrom c) \<longrightarrow>
        (\<forall>x \<in> set res. c_Scope_Matches E (ScopeFrom c) (readScope (heap w) (sr_Item x))))"
proof -
  have inv: "working_inv w" "episodic_inv w" "semantic_inv w" using assms(1) by (simp_all add: sys_inv_def)
  consider "kind = KindWorking" | "kind = KindEpisodic" | "kind = KindSemantic"
    using assms(2) by (auto simp: allKinds_def)
  then show ?thesis
  proof cases
    case 1
    then have tier: "requireMemory (sc_inner (engineScoped E)) kind = Inr (workingMemory E)" by simp
    show ?thesis using working_tier.scoped_search [OF inv(1) tier assms(3)] 1 by simp
  next
    case 2
    then have tier: "requireMemory (sc_inner (engineScoped E)) kind = Inr (episodicMemory E)" by simp
    show ?thesis using episodic_tier.scoped_search [OF inv(2) tier assms(3)] 2 by simp
  next
    case 3
    then have tier: "requireMemory (sc_inner (engineScoped E)) kind = Inr (semanticMemory E)" by simp
    show ?thesis using semantic_tier.scoped_search [OF inv(3) tier assms(3)] 3 by simp
  qed
qed

theorem scoped_search_isolated_witness:
  "fst (Scoped_Search sampleEnv (engineScoped sampleEnv) bobCtx KindWorking ''old'' 3 sampleSys) = Inr []"
  (is "fst ?S = _")
proof -
  have trim: "strings_TrimSpace ''old'' \<noteq> ''''" by code_simp
  obtain res where res: "fst ?S = Inr res"
    using trim by (auto simp: Scoped_Search_def Manager_Search_def workingMemory_def Working_Search_def
        queryEmbedding_def sampleEmbedder_def sampleSys_def Let_def split_beta)
  then have S: "?S = (Inr res, snd ?S)" by (metis prod.collapse)
  have view: "working_view sampleSys = [''k'' \<mapsto> (sampleItem ''k'' ''old'')\<lparr>Metadata := Some 0\<rparr>]"
    by (rule ext) (simp add: working_view_def sampleSys_def)
  have "x \<notin> set res" for x
    using scoped_search_isolated [OF sampleSys_inv _ S] view sampleSys_scope
    by (auto simp: allKinds_def bobCtx_def zeroScope_def sample_field_def image_subset_iff)
  then show ?thesis using res by (cases res) auto
qed

text \<open>
  C30. What is added under a scope is found under it: an item added with a context of scope
  \<open>s\<close>, not zero, to any of the three memories is afterwards returned to exactly the callers
  whose scope matches \<open>s\<close>, with its content and that scope; all others are told it does not
  exist. The one exception is the working memory over its capacity, which may have evicted
  the very item that was added: then nobody finds it.
\<close>

theorem scoped_add_then_get:
  assumes "sys_inv w" and "kind \<in> set allKinds" and "valid_ref (heap w) item"
    and "\<not> c_Scope_IsZero E (ScopeFrom c)"
    and "Scoped_Add E (engineScoped E) c kind item w = (Inr i, w1)"
    and "Scoped_Get E (engineScoped E) c' kind i w1 = (r, w2)"
  shows "(tier_view kind w1 i = None \<longrightarrow> r = Inl ErrNotFound \<and> kind = KindWorking
      \<and> 0 < wo_Capacity (wm_opts (wrk w)) \<and> wo_Capacity (wm_opts (wrk w)) < int (card (insert i (dom (tier_view kind w)))))
    \<and> (tier_view kind w1 i \<noteq> None \<longrightarrow>
        (if c_Scope_Matches E (ScopeFrom c') (ScopeFrom c)
         then \<exists>it. r = Inr it \<and> ID it = i \<and> Content it = Content item \<and> readScope (heap w2) it = ScopeFrom c
         else r = Inl ErrNotFound))"
proof -
  obtain item' h' where st: "stampScope E (ScopeFrom c) item (heap w) = (item', h')"
    by (cases "stampScope E (ScopeFrom c) item (heap w)")
  let ?w = "w\<lparr>heap := h'\<rparr>"
  have add: "Manager_Add (engineManager E) c kind item' ?w = (Inr i, w1)"
    using assms(5) st by (simp add: Scoped_Add_def)
  have inv: "sys_inv ?w" and view: "tier_view kind ?w = tier_view kind w"
    using assms(1) by (simp_all add: sys_inv_def working_inv_def episodic_inv_def semantic_inv_def tier_view_def
        working_view_def episodic_view_def semantic_view_def split: Kind.splits)
  have law: "sys_inv w1" "heap w1 = h'" using engine_add [OF inv assms(2) add] by simp_all
  obtain now where ad: "added kind i ((stampAdded now item')\<lparr>ID := i\<rparr>) ?w w1" using engine_added [OF inv assms(2) add] by blast
  let ?it = "(stampAdded now item')\<lparr>ID := i\<rparr>"
  have it: "tier_view kind w1 i = Some ?it \<or> tier_view kind w1 i = None" using ad by (auto simp: added_def split: if_splits)
  have gone: "kind = KindWorking \<and> 0 < wo_Capacity (wm_opts (wrk w)) \<and> wo_Capacity (wm_opts (wrk w)) < int (card (insert i (dom (tier_view kind w))))"
    if "tier_view kind w1 i = None"
    using ad that unfolding added_def view by (auto simp del: tier_view_simps)
  have "readScope h' ?it = readScope h' item'" by (rule readScope_cong) (simp add: meta_of_def)
  also have "\<dots> = ScopeFrom c" by (rule stampScope_self [OF assms(3,4) st])
  finally have rs: "readScope h' ?it = ScopeFrom c" .
  have upd: "readScope h (x\<lparr>AccessedAt := t\<rparr>) = readScope h x" for h x t
    by (rule readScope_cong) (simp add: meta_of_def)
  have content: "Content ?it = Content item" using stampScope_fields(2) [of E "ScopeFrom c" item "heap w"] st by simp
  note get = scoped_get_any [OF law(1) assms(2,6)]
  show ?thesis
  proof (cases "tier_view kind w1 i")
    case None
    then show ?thesis using get gone [OF None] by (simp only: option.case simp_thms) blast
  next
    case (Some x)
    then have "x = ?it" using it by simp
    then show ?thesis using get Some rs upd law(2) content by (auto split: if_splits)
  qed
qed

lemma sample_scoped_add:
  "\<exists>w1. Scoped_Add sampleEnv (engineScoped sampleEnv) annCtx KindEpisodic (sampleItem ''x'' ''hi'') sampleSys
    = (Inr ''x'', w1)"
  by (simp add: Scoped_Add_def Manager_Add_def engine_ops stampScope_def meta_put_def annCtx_def zeroScope_def
      sampleSys_def store_add_def assignID_def time_Now_def queryEmbedding_def sampleEmbedder_def Let_def)

theorem scoped_add_then_get_witness:
  "\<exists>w1. Scoped_Add sampleEnv (engineScoped sampleEnv) annCtx KindEpisodic (sampleItem ''x'' ''hi'') sampleSys
      = (Inr ''x'', w1)
    \<and> (\<exists>it. fst (Scoped_Get sampleEnv (engineScoped sampleEnv) annCtx KindEpisodic ''x'' w1) = Inr it)
    \<and> fst (Scoped_Get sampleEnv (engineScoped sampleEnv) bobCtx KindEpisodic ''x'' w1) = Inl ErrNotFound"
proof -
  obtain w1 where a: "Scoped_Add sampleEnv (engineScoped sampleEnv) annCtx KindEpisodic (sampleItem ''x'' ''hi'')
      sampleSys = (Inr ''x'', w1)" using sample_scoped_add by blast
  have v: "valid_ref (heap sampleSys) (sampleItem ''x'' ''hi'')" by (simp add: valid_ref_def)
  have z: "\<not> c_Scope_IsZero sampleEnv (ScopeFrom annCtx)" by (simp add: annCtx_def zeroScope_def)
  have k: "KindEpisodic \<in> set allKinds" by (simp add: allKinds_def)
  note get = scoped_add_then_get [OF sampleSys_inv k v z a prod.collapse [symmetric]]
  have "tier_view KindEpisodic w1 ''x'' \<noteq> None" using get [of annCtx] by auto
  then show ?thesis using a get [of annCtx] get [of bobCtx] by (auto simp: annCtx_def bobCtx_def sample_field_def)
qed

text \<open>
  The stamp is written into the caller's metadata map, which items may share: when two
  items with the same map are added under scopes that do not match, the second addition
  moves the first item to the second scope, and its owner no longer finds it.
\<close>

theorem shared_metadata_rescopes:
  assumes "sys_inv w" and "Metadata item = Some p" and "Metadata item2 = Some p" and "p < length (heap w)"
    and "\<not> c_Scope_IsZero E (ScopeFrom c1)" and "\<not> c_Scope_IsZero E (ScopeFrom c2)"
    and "\<not> c_Scope_Matches E (ScopeFrom c1) (ScopeFrom c2)"
    and "Scoped_Add E (engineScoped E) c1 KindEpisodic item w = (Inr i, w1)"
    and "Scoped_Add E (engineScoped E) c2 KindSemantic item2 w1 = (Inr j, w2)"
    and "Scoped_Get E (engineScoped E) c1 KindEpisodic i w2 = (r, w3)"
  shows "r = Inl ErrNotFound"
proof -
  have inv: "episodic_inv w" "semantic_inv w" using assms(1) by (simp_all add: sys_inv_def)
  have te: "requireMemory (sc_inner (engineScoped E)) KindEpisodic = Inr (episodicMemory E)"
    and ts: "requireMemory (sc_inner (engineScoped E)) KindSemantic = Inr (semanticMemory E)" by simp_all
  have v: "valid_ref (heap w) item" using assms(2,4) by (simp add: valid_ref_def)
  obtain it where it: "episodic_view w1 = (episodic_view w)(i \<mapsto> it)" "Metadata it = Some p"
      "valid_ref (heap w1) it" "wrk w1 = wrk w" "sem w1 = sem w" "episodic_inv w1"
    using episodic_store.scoped_add_stores [OF inv(1) te v assms(5,8)] assms(2) by auto
  have v2: "valid_ref (heap w1) item2" using it(2,3) assms(3) by (simp add: valid_ref_def)
  have "semantic_inv w1" using inv(2) it(5) by (simp add: semantic_inv_def)
  then obtain jt where jt: "readScope (heap w2) jt = ScopeFrom c2" "Metadata jt = Some p" "epi w2 = epi w1"
    using semantic_store.scoped_add_stores [OF _ ts v2 assms(6,9)] assms(3) by auto
  have "readScope (heap w2) it = readScope (heap w2) jt"
    using it(2) jt(2) by (intro readScope_cong) (simp add: meta_of_def)
  then have rs: "readScope (heap w2) it = ScopeFrom c2" using jt(1) by simp
  have "episodic_view w2 i = Some it" "episodic_inv w2"
    using it(1,6) jt(3) by (simp_all add: episodic_view_def episodic_inv_def)
  then show ?thesis using episodic_tier.scoped_get [OF _ te assms(10)] rs assms(7) by auto
qed

theorem shared_metadata_rescopes_witness:
  "\<exists>w1 w2. Scoped_Add sampleEnv (engineScoped sampleEnv) annCtx KindEpisodic
        ((sampleItem ''x'' ''hi'')\<lparr>Metadata := Some 0\<rparr>) sampleSys = (Inr ''x'', w1)
    \<and> Scoped_Add sampleEnv (engineScoped sampleEnv) bobCtx KindSemantic
        ((sampleItem ''y'' ''ho'')\<lparr>Metadata := Some 0\<rparr>) w1 = (Inr ''y'', w2)
    \<and> fst (Scoped_Get sampleEnv (engineScoped sampleEnv) annCtx KindEpisodic ''x'' w2) = Inl ErrNotFound"
proof -
  let ?x = "(sampleItem ''x'' ''hi'')\<lparr>Metadata := Some 0\<rparr>" and ?y = "(sampleItem ''y'' ''ho'')\<lparr>Metadata := Some 0\<rparr>"
  obtain w1 where a: "Scoped_Add sampleEnv (engineScoped sampleEnv) annCtx KindEpisodic ?x sampleSys = (Inr ''x'', w1)"
    and w1: "sem w1 = sampleSemantic"
    by (simp add: Scoped_Add_def Manager_Add_def engine_ops stampScope_def meta_put_def annCtx_def zeroScope_def
      sampleSys_def store_add_def assignID_def time_Now_def queryEmbedding_def sampleEmbedder_def Let_def)
  obtain w2 where b: "Scoped_Add sampleEnv (engineScoped sampleEnv) bobCtx KindSemantic ?y w1 = (Inr ''y'', w2)"
    using w1 by (simp add: Scoped_Add_def Manager_Add_def engine_ops stampScope_def meta_put_def bobCtx_def zeroScope_def
      store_add_def assignID_def time_Now_def queryEmbedding_def sampleEmbedder_def Let_def)
  note r = shared_metadata_rescopes [OF sampleSys_inv _ _ _ _ _ _ a b prod.collapse [symmetric]]
  show ?thesis using a b r [of 0] by (simp add: annCtx_def bobCtx_def zeroScope_def sample_field_def sampleSys_def)
qed

end
