(* ===== verification/Paging.thy ===== *)
theory Paging
  imports Scoped
begin

text \<open>
  The loop of \<^verbatim>\<open>listAllPaged\<close> (\<^verbatim>\<open>consolidator.go\<close>) and
  \<^verbatim>\<open>listAllScoped\<close> (\<^verbatim>\<open>scoped_lifecycle.go\<close>), which differ only in the
  \<^verbatim>\<open>ListAll\<close> they call. A kind whose listing has ended is missing from the cursors
  of the next round, so it is listed again from the start until all kinds end in the same
  round: after the least common multiple of the page counts.
\<close>


section \<open>The loop\<close>

definition itemsFor :: "(Kind, MemoryItem list) gomap \<Rightarrow> Kind \<Rightarrow> MemoryItem list" where
  "itemsFor out kind = (case mget out kind of Some its \<Rightarrow> its | None \<Rightarrow> [])"

fun collect_pages :: "(Kind \<times> ListPage) list \<Rightarrow> (Kind, MemoryItem list) gomap \<Rightarrow> (Kind, string) gomap \<Rightarrow> bool
    \<Rightarrow> (Kind, MemoryItem list) gomap \<times> (Kind, string) gomap \<times> bool" where
  "collect_pages [] out nextCursors anyMore = (out, nextCursors, anyMore)"
| "collect_pages ((kind, page) # pages) out nextCursors anyMore =
     (let out = mput kind (itemsFor out kind @ lp_Items page) out
      in if lp_NextCursor page \<noteq> ''''
         then collect_pages pages out (mput kind (lp_NextCursor page) nextCursors) True
         else collect_pages pages out nextCursors anyMore)"

text \<open>A loop without a bound: not returning is the value \<open>None\<close>.\<close>

partial_function (option) paged_loop :: "env
    \<Rightarrow> ((Kind, string) gomap \<Rightarrow> 'z world_scheme \<Rightarrow> ((Kind, ListPage) gomap \<times> error option) \<times> 'z world_scheme)
    \<Rightarrow> (Kind, string) gomap \<Rightarrow> (Kind, MemoryItem list) gomap \<Rightarrow> 'z world_scheme
    \<Rightarrow> ((error + (Kind, MemoryItem list) gomap) \<times> 'z world_scheme) option" where
  "paged_loop E listAll cursors out w = (case listAll cursors w of
       ((pages, Some err), w) \<Rightarrow> Some (Inl (ErrWrap ''paged list'' err), w)
     | ((pages, None), w) \<Rightarrow>
         (case go_range E pages w of (ordered, w) \<Rightarrow>
            (case collect_pages ordered out [] False of (out, nextCursors, anyMore) \<Rightarrow>
               if \<not> anyMore then Some (Inr out, w)
               else paged_loop E listAll nextCursors out w)))"

declare paged_loop.simps [code]


section \<open>Page counts\<close>

definition pageCount :: "nat \<Rightarrow> nat \<Rightarrow> nat" where
  "pageCount n len = (if len = 0 then 1 else (len - 1) div n + 1)"

lemma pageCount_pos [simp]: "0 < pageCount n len"
  by (simp add: pageCount_def)

lemma pageCount_nonzero [simp]: "pageCount n len \<noteq> 0"
  by (simp add: pageCount_def)

lemma pageCount_more: "0 < n \<Longrightarrow> n * j + n < len \<longleftrightarrow> j + 1 < pageCount n len"
proof -
  assume n: "0 < n"
  have "n * j + n < len \<longleftrightarrow> len \<noteq> 0 \<and> (j + 1) * n \<le> len - 1" by (auto simp: algebra_simps)
  also have "\<dots> \<longleftrightarrow> len \<noteq> 0 \<and> j + 1 \<le> (len - 1) div n" using n by (simp add: less_eq_div_iff_mult_less_eq)
  also have "\<dots> \<longleftrightarrow> j + 1 < pageCount n len" by (auto simp: pageCount_def)
  finally show ?thesis .
qed

lemma pageCount_start:
  assumes "0 < n" and "j < pageCount n len"
  shows "n * j \<le> len"
proof (cases j)
  case (Suc i)
  then have "n * i + n < len" using pageCount_more [OF assms(1), of i len] assms(2) by simp
  then show ?thesis using Suc by simp
qed simp

lemma pageCount_end: "0 < n \<Longrightarrow> len \<le> n * pageCount n len"
proof -
  assume n: "0 < n"
  obtain j where j: "pageCount n len = Suc j" using pageCount_pos [of n len] by (cases "pageCount n len") auto
  then have "\<not> n * j + n < len" using pageCount_more [OF n, of j len] by simp
  then show ?thesis using j by simp
qed

lemma pageCount_one: "0 < n \<Longrightarrow> len \<le> n \<Longrightarrow> pageCount n len = 1"
  by (auto simp: pageCount_def)

text \<open>What is collected of a listing after \<open>t\<close> rounds.\<close>

definition collected :: "nat \<Rightarrow> 'a list \<Rightarrow> nat \<Rightarrow> 'a list" where
  "collected n C t = (let p = pageCount n (length C) in
     concat (replicate (t div p) C) @ take (n * (t mod p)) C)"

lemma collected_0 [simp]: "collected n C 0 = []"
  by (simp add: collected_def)

lemma collected_Suc:
  assumes "0 < n"
  shows "collected n C (Suc t) =
    collected n C t @ take n (drop (n * (t mod pageCount n (length C))) C)"
proof -
  define p where "p = pageCount n (length C)"
  have p: "0 < p" by (simp add: p_def)
  have split: "take (n * j) C @ take n (drop (n * j) C) = take (n * Suc j) C" for j
    by (simp add: take_add [symmetric] add.commute)
  show ?thesis
  proof (cases "Suc (t mod p) = p")
    case True
    have all: "take (n * Suc (t mod p)) C = C" using True pageCount_end [OF assms, of "length C"] by (simp add: p_def)
    then have all': "take (n + n * (t mod p)) C = C" by simp
    have "Suc t mod p = 0" "Suc t div p = Suc (t div p)" using True p by (simp_all add: mod_Suc div_Suc)
    moreover have "concat (replicate (Suc k) C) = concat (replicate k C) @ C" for k
      by (simp add: replicate_append_same [symmetric])
    ultimately show ?thesis
      unfolding collected_def Let_def p_def [symmetric] by (simp add: split all')
  next
    case False
    then have "Suc t mod p = Suc (t mod p)" "Suc t div p = t div p" using p by (simp_all add: mod_Suc div_Suc)
    then show ?thesis unfolding collected_def Let_def p_def [symmetric] by (simp only: append_assoc split)
  qed
qed

lemma collected_whole:
  "pageCount n (length C) dvd t \<Longrightarrow> collected n C t = concat (replicate (t div pageCount n (length C)) C)"
  by (simp add: collected_def Let_def mod_eq_0_iff_dvd)

section \<open>The loop over any source of pages\<close>

text \<open>
  The loop relies on \<^verbatim>\<open>ListAll\<close> for this: given for every kind the cursor of some
  position of its listing, it returns the page at that position, for exactly the kinds
  that have a lister, and keeps the state in which this holds.
\<close>

locale paged_source =
  fixes E :: env
    and listAll :: "(Kind, string) gomap \<Rightarrow> 'z world_scheme \<Rightarrow> ((Kind, ListPage) gomap \<times> error option) \<times> 'z world_scheme"
    and kinds :: "Kind set"
    and C :: "Kind \<Rightarrow> MemoryItem list"
    and n :: nat
    and ok :: "'z world_scheme \<Rightarrow> bool"
  assumes kinds_finite: "finite kinds"
    and n_pos: "0 < n"
    and list_all: "ok w \<Longrightarrow> (\<And>k. k \<in> kinds \<Longrightarrow> pos k \<le> length (C k) \<and> cursorFor cursors k = cursorAt E (C k) (pos k)) \<Longrightarrow>
      \<exists>pages w'. listAll cursors w = ((pages, None), w') \<and> mwf pages \<and> ok w'
        \<and> (\<forall>k. mget pages k = (if k \<in> kinds then Some (pageAt E (C k) n (pos k)) else None))"
    and cursor_set: "ok w \<Longrightarrow> k \<in> kinds \<Longrightarrow> 0 < i \<Longrightarrow> i < length (C k) \<Longrightarrow> cursorAt E (C k) i \<noteq> ''''"
    and ok_tick: "ok w \<Longrightarrow> ok (w\<lparr>tick := t\<rparr>)"
begin

definition pages_of :: "Kind \<Rightarrow> nat" where
  "pages_of k = pageCount n (length (C k))"

definition rounds :: nat where
  "rounds = Lcm (pages_of ` kinds)"

lemma rounds_pos: "0 < rounds"
  using kinds_finite by (auto simp: rounds_def pages_of_def intro!: Nat.gr0I)

lemma pages_dvd_rounds: "k \<in> kinds \<Longrightarrow> pages_of k dvd rounds"
  by (simp add: rounds_def)

text \<open>The state before round \<open>t\<close>.\<close>

definition at_round :: "nat \<Rightarrow> (Kind, string) gomap \<Rightarrow> (Kind, MemoryItem list) gomap \<Rightarrow> bool" where
  "at_round t cursors out \<longleftrightarrow>
     (\<forall>k \<in> kinds. cursorFor cursors k = cursorAt E (C k) (n * (t mod pages_of k))
        \<and> itemsFor out k = collected n (C k) t)
     \<and> mkeys out = (if t = 0 then {} else kinds) \<and> mwf out"

end

lemma collect_pages_mwf: "mwf out \<Longrightarrow> collect_pages ps out nx am = (out', nx', am') \<Longrightarrow> mwf out'"
proof (induction ps arbitrary: out nx am)
  case (Cons x ps)
  obtain kind page where x: "x = (kind, page)" by (cases x)
  have wf: "mwf (mput kind (itemsFor out kind @ lp_Items page) out)" using Cons.prems(1) by simp
  show ?case
    using Cons.IH [OF wf] Cons.prems(2) x by (cases "lp_NextCursor page = ''''") simp_all
qed simp

lemma collect_pages_result:
  assumes "collect_pages ps out nx am = (out', nx', am')" and "mwf ps"
  shows "(\<forall>k. itemsFor out' k = itemsFor out k @ (case mget ps k of None \<Rightarrow> [] | Some page \<Rightarrow> lp_Items page))
    \<and> (\<forall>k. mget nx' k = (case mget ps k of None \<Rightarrow> mget nx k
          | Some page \<Rightarrow> if lp_NextCursor page \<noteq> '''' then Some (lp_NextCursor page) else mget nx k))
    \<and> mkeys out' = mkeys out \<union> mkeys ps
    \<and> (am' \<longleftrightarrow> am \<or> (\<exists>k page. mget ps k = Some page \<and> lp_NextCursor page \<noteq> ''''))"
  using assms
proof (induction ps arbitrary: out nx am)
  case Nil
  then show ?case by simp
next
  case (Cons x ps)
  obtain kind page where x: "x = (kind, page)" by (cases x)
  have wf: "mwf ps" "mget ps kind = None" using Cons.prems(2) x by (simp_all add: mwf_def map_of_eq_None_iff)
  let ?out = "mput kind (itemsFor out kind @ lp_Items page) out"
  have it: "itemsFor ?out k = itemsFor out k @ (if k = kind then lp_Items page else [])" for k
    by (simp add: itemsFor_def)
  have keys: "mkeys ?out \<union> mkeys ps = mkeys out \<union> mkeys (x # ps)" unfolding x mkeys_mput by auto
  have ex: "(\<exists>k pg. mget (x # ps) k = Some pg \<and> Q pg) \<longleftrightarrow> Q page \<or> (\<exists>k pg. mget ps k = Some pg \<and> Q pg)" for Q
    using wf(2) unfolding x by (auto split: if_splits) (metis option.distinct(1))
  show ?case
  proof (cases "lp_NextCursor page = ''''")
    case True
    then have "collect_pages ps ?out nx am = (out', nx', am')" using Cons.prems(1) x by simp
    note ih = Cons.IH [OF this wf(1)]
    show ?thesis
    proof (intro conjI allI)
      fix k
      show "itemsFor out' k = itemsFor out k @ (case mget (x # ps) k of None \<Rightarrow> [] | Some page \<Rightarrow> lp_Items page)"
        using spec [OF conjunct1 [OF ih], of k] it [of k] wf(2) by (cases "k = kind") (simp_all add: x)
      show "mget nx' k = (case mget (x # ps) k of None \<Rightarrow> mget nx k
          | Some page \<Rightarrow> if lp_NextCursor page \<noteq> '''' then Some (lp_NextCursor page) else mget nx k)"
        using spec [OF conjunct1 [OF conjunct2 [OF ih]], of k] wf(2) True by (cases "k = kind") (simp_all add: x)
      show "mkeys out' = mkeys out \<union> mkeys (x # ps)"
        unfolding keys [symmetric] by (rule conjunct1 [OF conjunct2 [OF conjunct2 [OF ih]]])
      show "am' \<longleftrightarrow> am \<or> (\<exists>k page. mget (x # ps) k = Some page \<and> lp_NextCursor page \<noteq> '''')"
        unfolding ex using conjunct2 [OF conjunct2 [OF conjunct2 [OF ih]]] True by simp
    qed
  next
    case False
    then have "collect_pages ps ?out (mput kind (lp_NextCursor page) nx) True = (out', nx', am')"
      using Cons.prems(1) x by simp
    note ih = Cons.IH [OF this wf(1)]
    show ?thesis
    proof (intro conjI allI)
      fix k
      show "itemsFor out' k = itemsFor out k @ (case mget (x # ps) k of None \<Rightarrow> [] | Some page \<Rightarrow> lp_Items page)"
        using spec [OF conjunct1 [OF ih], of k] it [of k] wf(2) by (cases "k = kind") (simp_all add: x)
      show "mget nx' k = (case mget (x # ps) k of None \<Rightarrow> mget nx k
          | Some page \<Rightarrow> if lp_NextCursor page \<noteq> '''' then Some (lp_NextCursor page) else mget nx k)"
        using spec [OF conjunct1 [OF conjunct2 [OF ih]], of k] wf(2) False by (cases "k = kind") (simp_all add: x split: option.splits)
      show "mkeys out' = mkeys out \<union> mkeys (x # ps)"
        unfolding keys [symmetric] by (rule conjunct1 [OF conjunct2 [OF conjunct2 [OF ih]]])
      show "am' \<longleftrightarrow> am \<or> (\<exists>k page. mget (x # ps) k = Some page \<and> lp_NextCursor page \<noteq> '''')"
        unfolding ex using conjunct2 [OF conjunct2 [OF conjunct2 [OF ih]]] False by simp
    qed
  qed
qed

context paged_source
begin

lemma position:
  assumes "k \<in> kinds"
  shows "n * (t mod pages_of k) \<le> length (C k)"
  unfolding pages_of_def by (rule pageCount_start [OF n_pos]) simp

lemma next_position:
  "n * (t mod pages_of k) + n < length (C k) \<longleftrightarrow> Suc t mod pages_of k \<noteq> 0"
proof -
  have "n * (t mod pages_of k) + n < length (C k) \<longleftrightarrow> t mod pages_of k + 1 < pages_of k"
    unfolding pages_of_def by (rule pageCount_more [OF n_pos])
  moreover have "t mod pages_of k < pages_of k" by (simp add: pages_of_def)
  ultimately show ?thesis by (auto simp: mod_Suc)
qed

text \<open>One round.\<close>

lemma one_round:
  assumes "ok w" and "at_round t cursors out"
  shows "\<exists>pages w' out' nx am. listAll cursors w = ((pages, None), w')
    \<and> collect_pages (fst (go_range E pages w')) out [] False = (out', nx, am)
    \<and> at_round (Suc t) nx out' \<and> ok (snd (go_range E pages w'))
    \<and> (am \<longleftrightarrow> (\<exists>k \<in> kinds. Suc t mod pages_of k \<noteq> 0))"
proof -
  let ?pos = "\<lambda>k. n * (t mod pages_of k)"
  obtain pages w' where la: "listAll cursors w = ((pages, None), w')" "mwf pages" "ok w'"
    and pg: "mget pages k = (if k \<in> kinds then Some (pageAt E (C k) n (?pos k)) else None)" for k
    using list_all [OF assms(1), of ?pos cursors] assms(2) position unfolding at_round_def by blast
  let ?o = "fst (go_range E pages w')"
  obtain out' nx am where cp: "collect_pages ?o out [] False = (out', nx, am)"
    by (cases "collect_pages ?o out [] False")
  have wfo: "mwf ?o" using la(2) by (simp add: go_range_def)
  have mgo: "mget ?o k = mget pages k" for k
    by (rule fun_cong [OF mget_eq_mset [OF wfo la(2)]]) simp
  note r = collect_pages_result [OF cp wfo]
  have items: "itemsFor out' k = collected n (C k) (Suc t)" if k: "k \<in> kinds" for k
    using conjunct1 [OF r] k assms(2) pg [of k]
    by (simp add: mgo at_round_def pageAt_def collected_Suc [OF n_pos] pages_of_def)
  have nxt: "lp_NextCursor (pageAt E (C k) n (?pos k)) =
      (if Suc t mod pages_of k \<noteq> 0 then cursorAt E (C k) (?pos k + n) else '''')" for k
    by (simp add: pageAt_def next_position)
  have nonempty: "cursorAt E (C k) (?pos k + n) \<noteq> ''''" if "k \<in> kinds" "Suc t mod pages_of k \<noteq> 0" for k
    using cursor_set [OF assms(1) that(1), of "?pos k + n"] n_pos next_position [of t k] that(2) by simp
  have curs: "cursorFor nx k = cursorAt E (C k) (n * (Suc t mod pages_of k))" if k: "k \<in> kinds" for k
  proof (cases "Suc t mod pages_of k = 0")
    case True
    then have "mget nx k = None" using conjunct1 [OF conjunct2 [OF r]] k pg [of k] nxt [of k] by (simp add: mgo)
    then show ?thesis using True by (simp add: cursorFor_def cursorAt_def)
  next
    case False
    then have "n * (Suc t mod pages_of k) = ?pos k + n" by (simp add: mod_Suc split: if_splits)
    moreover have "mget nx k = Some (cursorAt E (C k) (?pos k + n))"
      using conjunct1 [OF conjunct2 [OF r]] k pg [of k] nxt [of k] False nonempty [OF k False] by (simp add: mgo)
    ultimately show ?thesis by (simp add: cursorFor_def)
  qed
  have "mkeys ?o = kinds"
    using pg mgo mget_None_iff [of ?o] by (metis option.distinct(1) set_eqI)
  then have keys: "mkeys out' = kinds" using conjunct1 [OF conjunct2 [OF conjunct2 [OF r]]] assms(2)
    unfolding at_round_def by (auto split: if_splits)
  have am: "am \<longleftrightarrow> (\<exists>k \<in> kinds. Suc t mod pages_of k \<noteq> 0)"
    using conjunct2 [OF conjunct2 [OF conjunct2 [OF r]]] pg nxt nonempty by (auto simp: mgo split: if_splits)
  have "mwf out'" using collect_pages_mwf [OF _ cp] assms(2) unfolding at_round_def by blast
  then have "at_round (Suc t) nx out'" unfolding at_round_def using items curs keys by simp
  then show ?thesis using la cp am ok_tick [OF la(3)] by (auto simp: go_range_def)
qed

lemma loop_from:
  assumes "ok w" and "at_round t cursors out" and "t < rounds"
  shows "\<exists>out' w'. paged_loop E listAll cursors out w = Some (Inr out', w') \<and> ok w'
    \<and> (\<forall>k \<in> kinds. itemsFor out' k = collected n (C k) rounds) \<and> mkeys out' = kinds \<and> mwf out'"
  using assms
proof (induction "rounds - t" arbitrary: t cursors out w)
  case 0
  then show ?case by simp
next
  case (Suc m)
  obtain pages w' out' nx am where s: "listAll cursors w = ((pages, None), w')"
      "collect_pages (fst (go_range E pages w')) out [] False = (out', nx, am)"
      "at_round (Suc t) nx out'" "ok (snd (go_range E pages w'))"
      "am \<longleftrightarrow> (\<exists>k \<in> kinds. Suc t mod pages_of k \<noteq> 0)"
    using one_round [OF Suc.prems(1,2)] by blast
  show ?case
  proof (cases am)
    case False
    then have "rounds dvd Suc t" using s(5) by (auto simp: rounds_def Lcm_dvd_iff mod_eq_0_iff_dvd)
    then have "rounds = Suc t" using Suc.prems(3) by (meson Suc_leI dvd_imp_le le_antisym zero_less_Suc)
    then show ?thesis using s False
      by (subst paged_loop.simps) (auto simp: split_beta at_round_def)
  next
    case True
    then have "\<exists>k \<in> kinds. \<not> pages_of k dvd Suc t" using s(5) by (simp add: mod_eq_0_iff_dvd)
    then have "Suc t \<noteq> rounds" using pages_dvd_rounds by metis
    then have "Suc t < rounds" using Suc.prems(3) by simp
    moreover have "m = rounds - Suc t" using Suc.hyps(2) by simp
    ultimately have "\<exists>out'' w''. paged_loop E listAll nx out' (snd (go_range E pages w')) = Some (Inr out'', w'')
        \<and> ok w'' \<and> (\<forall>k \<in> kinds. itemsFor out'' k = collected n (C k) rounds) \<and> mkeys out'' = kinds \<and> mwf out''"
      using Suc.hyps(1) s(3,4) by blast
    then show ?thesis using s(1,2) True by (subst paged_loop.simps) (simp add: split_beta)
  qed
qed

text \<open>The loop ends, and every kind has been listed a whole number of times.\<close>

theorem loop_result:
  assumes "ok w"
  shows "\<exists>out w'. paged_loop E listAll [] [] w = Some (Inr out, w') \<and> ok w' \<and> mwf out
    \<and> (\<forall>k. mget out k = (if k \<in> kinds then Some (concat (replicate (rounds div pages_of k) (C k))) else None))"
proof -
  have "at_round 0 [] []" by (simp add: at_round_def cursorFor_def cursorAt_def itemsFor_def)
  then obtain out w' where l: "paged_loop E listAll [] [] w = Some (Inr out, w')" "ok w'"
      "\<forall>k \<in> kinds. itemsFor out k = collected n (C k) rounds" "mkeys out = kinds" "mwf out"
    using loop_from [OF assms _ rounds_pos] by blast
  have "mget out k = Some (concat (replicate (rounds div pages_of k) (C k)))" if k: "k \<in> kinds" for k
  proof -
    obtain its where "mget out k = Some its"
      using k l(4) mget_None_iff [of out k] by (cases "mget out k") auto
    then show ?thesis
      using bspec [OF l(3) k] collected_whole [of n "C k" rounds] pages_dvd_rounds [OF k]
      by (simp add: itemsFor_def pages_of_def)
  qed
  moreover have "mget out k = None" if "k \<notin> kinds" for k using that l(4) mget_None_iff [of out k] by simp
  ultimately show ?thesis using l(1,2,5) by auto
qed

end


section \<open>The three engines as a source of pages\<close>

definition tier_listing :: "env \<Rightarrow> Kind \<Rightarrow> ListFilter \<Rightarrow> sys \<Rightarrow> MemoryItem list" where
  "tier_listing E kind f w = (case kind of
       KindWorking \<Rightarrow> listing E f (heap w) (wm_store (wrk w))
     | KindEpisodic \<Rightarrow> listing E f (heap w) (em_store (epi w))
     | KindSemantic \<Rightarrow> listing E f (heap w) (sm_store (sem w))
     | KindOther _ \<Rightarrow> [])"

text \<open>The engines are well-formed, and every listing can be cut into pages of \<open>n\<close> items.\<close>

definition list_ready :: "env \<Rightarrow> ListFilter \<Rightarrow> nat \<Rightarrow> (Kind \<Rightarrow> MemoryItem list) \<Rightarrow> sys \<Rightarrow> bool" where
  "list_ready E f n C w \<longleftrightarrow> sys_inv w \<and> (\<forall>k \<in> set allKinds. tier_listing E k f w = C k
     \<and> codecs_ok E (C k) \<and> int (length (C k)) + int n < 2 ^ 63)"

lemma tier_listing_tick [simp]: "tier_listing E k f (w\<lparr>tick := t\<rparr>) = tier_listing E k f w"
  by (simp add: tier_listing_def split: Kind.splits)

lemma sys_inv_tick [simp]: "sys_inv (w\<lparr>tick := t\<rparr>) = sys_inv w"
  by (simp add: sys_inv_def working_inv_def episodic_inv_def semantic_inv_def)

lemma list_ready_tick [simp]: "list_ready E f n C (w\<lparr>tick := t\<rparr>) = list_ready E f n C w"
  by (simp add: list_ready_def)

lemma engine_listers:
  "listerOf (tierOf (engineManager E) KindWorking) = Some (\<lambda>c f n cur w. Working_List E f n cur w (wrk w))"
  "listerOf (tierOf (engineManager E) KindEpisodic) = Some (\<lambda>c f n cur w. Episodic_List E f n cur w (epi w))"
  "listerOf (tierOf (engineManager E) KindSemantic) = Some (\<lambda>c f n cur w. Semantic_List E f n cur w (sem w))"
  by (simp_all add: listerOf_def asLocalMemory_def tierFor_def engineManager_def engineOptions_def tierWith_def
      zeroTier_def workingMemory_def episodicMemory_def semanticMemory_def)

lemma ListAll_engines:
  assumes r: "list_ready E f n C w" and n: "0 < n"
    and p: "\<And>k. k \<in> set allKinds \<Longrightarrow> pos k \<le> length (C k) \<and> cursorFor cursors k = cursorAt E (C k) (pos k)"
  shows "ListAll (engineManager E) c f (int n) cursors w =
    (([(KindWorking, pageAt E (C KindWorking) n (pos KindWorking)),
       (KindEpisodic, pageAt E (C KindEpisodic) n (pos KindEpisodic)),
       (KindSemantic, pageAt E (C KindSemantic) n (pos KindSemantic))], None), w\<lparr>tick := Suc (Suc (Suc (tick w)))\<rparr>)"
proof -
  have W: "Working_List E f (int n) (cursorFor cursors KindWorking) w (wrk w)
      = (Inr (pageAt E (C KindWorking) n (pos KindWorking)), w\<lparr>tick := Suc (tick w)\<rparr>)"
    using working_pages.page [where f = f and w = w and k = "pos KindWorking" and n = n and E = E] r n p [of KindWorking]
    by (simp add: list_ready_def sys_inv_def allKinds_def tier_listing_def)
  have P: "Episodic_List E f (int n) (cursorFor cursors KindEpisodic) (w\<lparr>tick := t\<rparr>) (epi w)
      = (Inr (pageAt E (C KindEpisodic) n (pos KindEpisodic)), w\<lparr>tick := Suc t\<rparr>)" for t
    using episodic_pages.page [where f = f and w = "w\<lparr>tick := t\<rparr>" and k = "pos KindEpisodic" and n = n and E = E] r n p [of KindEpisodic]
    by (simp add: list_ready_def sys_inv_def allKinds_def tier_listing_def episodic_inv_def)
  have S: "Semantic_List E f (int n) (cursorFor cursors KindSemantic) (w\<lparr>tick := t\<rparr>) (sem w)
      = (Inr (pageAt E (C KindSemantic) n (pos KindSemantic)), w\<lparr>tick := Suc t\<rparr>)" for t
    using semantic_pages.page [where f = f and w = "w\<lparr>tick := t\<rparr>" and k = "pos KindSemantic" and n = n and E = E] r n p [of KindSemantic]
    by (simp add: list_ready_def sys_inv_def allKinds_def tier_listing_def semantic_inv_def)
  show ?thesis by (simp add: ListAll_def allKinds_def engine_listers W P S)
qed

text \<open>Paging moves nothing but the clock of the state \<open>w0\<close> it starts in.\<close>

interpretation engine_pages: paged_source E
    "\<lambda>cursors w. ListAll (engineManager E) c f (int (Suc m)) cursors w" "set allKinds" C "Suc m"
    "\<lambda>w. list_ready E f (Suc m) C w \<and> (\<exists>t. w = w0\<lparr>tick := t\<rparr>)" for E c f m C w0
proof
  show "finite (set allKinds)" "0 < Suc m" by simp_all
  fix w :: sys and pos cursors k i t
  show "\<exists>pages w'. ListAll (engineManager E) c f (int (Suc m)) cursors w = ((pages, None), w') \<and> mwf pages
      \<and> (list_ready E f (Suc m) C w' \<and> (\<exists>t. w' = w0\<lparr>tick := t\<rparr>))
      \<and> (\<forall>k. mget pages k = (if k \<in> set allKinds then Some (pageAt E (C k) (Suc m) (pos k)) else None))"
    if a: "list_ready E f (Suc m) C w \<and> (\<exists>t. w = w0\<lparr>tick := t\<rparr>)"
      and p: "\<And>k. k \<in> set allKinds \<Longrightarrow> pos k \<le> length (C k) \<and> cursorFor cursors k = cursorAt E (C k) (pos k)"
    using ListAll_engines [OF conjunct1 [OF a] _ p] a by (auto simp: mwf_def allKinds_def)
  show "cursorAt E (C k) i \<noteq> ''''"
    if "list_ready E f (Suc m) C w \<and> (\<exists>t. w = w0\<lparr>tick := t\<rparr>)" "k \<in> set allKinds" "0 < i" "i < length (C k)"
    using cursorAt_decode(2) [of E "C k" i] that by (simp add: list_ready_def)
  show "list_ready E f (Suc m) C (w\<lparr>tick := t\<rparr>) \<and> (\<exists>t'. w\<lparr>tick := t\<rparr> = w0\<lparr>tick := t'\<rparr>)"
    if "list_ready E f (Suc m) C w \<and> (\<exists>t. w = w0\<lparr>tick := t\<rparr>)" using that by auto
qed

text \<open>How often the listing of a kind is repeated when all kinds are paged together.\<close>

definition repeats :: "nat \<Rightarrow> (Kind \<Rightarrow> MemoryItem list) \<Rightarrow> Kind \<Rightarrow> nat" where
  "repeats n C k = Lcm ((\<lambda>k. pageCount n (length (C k))) ` set allKinds) div pageCount n (length (C k))"

lemma engine_paged_loop:
  assumes "list_ready E f n C w" and "0 < n"
  shows "\<exists>out t. paged_loop E (\<lambda>cursors w. ListAll (engineManager E) c f (int n) cursors w) [] [] w
      = Some (Inr out, w\<lparr>tick := t\<rparr>) \<and> mwf out
    \<and> (\<forall>k. mget out k = (if k \<in> set allKinds then Some (concat (replicate (repeats n C k) (C k))) else None))"
proof -
  obtain m where m: "n = Suc m" using assms(2) by (cases n) auto
  have "w = w\<lparr>tick := tick w\<rparr>" by simp
  then have ok: "list_ready E f (Suc m) C w \<and> (\<exists>t. w = w\<lparr>tick := t\<rparr>)" using assms(1) m by blast
  show ?thesis
    using engine_pages.loop_result [OF ok, of c]
    unfolding m engine_pages.rounds_def engine_pages.pages_of_def repeats_def by blast
qed

lemma repeats_pos: "k \<in> set allKinds \<Longrightarrow> 0 < repeats n C k"
proof -
  assume k: "k \<in> set allKinds"
  let ?L = "Lcm ((\<lambda>k. pageCount n (length (C k))) ` set allKinds)"
  have nz: "0 < ?L"
  proof (rule Nat.gr0I)
    assume "?L = 0"
    then show False by (auto simp: Lcm_0_iff)
  qed
  have "pageCount n (length (C k)) dvd ?L" using k by simp
  then have "pageCount n (length (C k)) \<le> ?L" using nz by (rule dvd_imp_le)
  then show ?thesis by (simp add: repeats_def div_greater_zero_iff)
qed

lemma repeats_one:
  assumes "0 < n" and "\<forall>k \<in> set allKinds. length (C k) \<le> n" and "k \<in> set allKinds"
  shows "repeats n C k = 1"
proof -
  have "(\<lambda>k. pageCount n (length (C k))) ` set allKinds = {1}"
    using assms(1,2) by (auto simp: pageCount_one allKinds_def)
  then show ?thesis using assms by (simp add: repeats_def pageCount_one)
qed

end
