(* ===== verification/ScopedLifecycle.thy ===== *)
theory ScopedLifecycle
  imports Paging
begin

text \<open>
  \<^verbatim>\<open>scoped_lifecycle.go\<close>: consolidation, forgetting and statistics of the items
  of a scope. Each enumerates the items with the paging loop and then acts on them one by
  one. A result of \<open>None\<close> means that the paging loop does not end.
\<close>


section \<open>Construction and enumeration\<close>

record 's ScopedLifecycleManager =
  sl_sm :: "'s ScopedManager"
  sl_cfg :: config

definition NewScopedLifecycleManager :: "'s ScopedManager option \<Rightarrow> Option option list
    \<Rightarrow> error + 's ScopedLifecycleManager" where
  "NewScopedLifecycleManager inner opts = (case inner of
       None \<Rightarrow> Inl ErrScopedManagerRequired
     | Some sm \<Rightarrow> Inr \<lparr>sl_sm = sm, sl_cfg = newConfig opts\<rparr>)"

definition lifecycle_observer :: "'s ScopedLifecycleManager \<Rightarrow> Observer" where
  "lifecycle_observer s = observer (sl_cfg s)"

definition listAllScoped :: "env \<Rightarrow> 'z world_scheme ScopedLifecycleManager \<Rightarrow> ctx \<Rightarrow> int \<Rightarrow> 'z world_scheme
    \<Rightarrow> ((error + (Kind, MemoryItem list) gomap) \<times> 'z world_scheme) option" where
  "listAllScoped E s c pageSize w =
     (let pageSize = (if pageSize \<le> 0 then 200 else pageSize)
      in paged_loop E (\<lambda>cursors w. Scoped_ListAll E (sl_sm s) c zeroFilter pageSize cursors w) [] [] w)"


section \<open>Consolidation\<close>

definition defaultThreshold :: "ConsolidateOptions \<Rightarrow> ConsolidateOptions" where
  "defaultThreshold opts =
     (if f_le (co_Threshold opts) (Fin 0) then opts\<lparr>co_Threshold := Fin (7/10)\<rparr> else opts)"

text \<open>Whether an item is old enough; the clock is read only when there is a minimum age and a creation time.\<close>

definition oldEnough :: "env \<Rightarrow> duration \<Rightarrow> MemoryItem \<Rightarrow> 'z world_scheme \<Rightarrow> bool \<times> 'z world_scheme" where
  "oldEnough E minAge it w =
     (if minAge > 0 then
        (if time_IsZero (CreatedAt it) then (False, w)
         else let (now, w) = time_Now E w in (CreatedAt it + minAge < now, w))
      else (True, w))"

fun consolidate_scoped_loop :: "env \<Rightarrow> 'z world_scheme Manager \<Rightarrow> ctx \<Rightarrow> ConsolidateOptions \<Rightarrow> MemoryItem list
    \<Rightarrow> int \<Rightarrow> 'z world_scheme \<Rightarrow> (int \<times> error option) \<times> 'z world_scheme" where
  "consolidate_scoped_loop E mgr c opts [] cnt w = ((cnt, None), w)"
| "consolidate_scoped_loop E mgr c opts (it # its) cnt w =
     (if f_lt (Importance it) (co_Threshold opts) then consolidate_scoped_loop E mgr c opts its cnt w
      else
        let (old, w) = oldEnough E (co_MinAge opts) it w
        in if \<not> old then consolidate_scoped_loop E mgr c opts its cnt w
           else
             let clone = it\<lparr>ID := ''''\<rparr>
             in case Manager_Add mgr c KindEpisodic clone w of
                  (Inl err, w) \<Rightarrow> ((cnt, Some (ErrWrap ''memory: consolidate-scoped add'' err)), w)
                | (Inr _, w) \<Rightarrow> consolidate_scoped_loop E mgr c opts its (cnt + 1) w)"

definition ConsolidateScoped :: "env \<Rightarrow> 'z world_scheme ScopedLifecycleManager \<Rightarrow> ctx \<Rightarrow> ConsolidateOptions
    \<Rightarrow> 'z world_scheme \<Rightarrow> ((int \<times> error option) \<times> 'z world_scheme) option" where
  "ConsolidateScoped E s c opts w =
     (let opts = defaultThreshold opts; mgr = Inner (sl_sm s)
      in case listAllScoped E s c 200 w of
           None \<Rightarrow> None
         | Some (Inl err, w) \<Rightarrow> Some ((0, Some (ErrWrap ''memory: list working'' err)), w)
         | Some (Inr allItems, w) \<Rightarrow>
             (case consolidate_scoped_loop E mgr c opts (itemsFor allItems KindWorking) 0 w of
                ((cnt, Some err), w) \<Rightarrow> Some ((cnt, Some err), w)
              | ((cnt, None), w) \<Rightarrow>
                  Some ((cnt, None), emit (lifecycle_observer s) EventConsolidatedTotal [(''n'', AInt cnt)] w)))"


section \<open>Forgetting\<close>

fun forget_loop :: "env \<Rightarrow> 'z world_scheme Manager \<Rightarrow> ctx \<Rightarrow> Kind \<Rightarrow> (MemoryItem \<Rightarrow> bool) \<Rightarrow> MemoryItem list
    \<Rightarrow> int \<Rightarrow> 'z world_scheme \<Rightarrow> int \<times> 'z world_scheme" where
  "forget_loop E mgr c kind P [] cnt w = (cnt, w)"
| "forget_loop E mgr c kind P (it # its) cnt w =
     (if IsPinned E (heap w) it then forget_loop E mgr c kind P its cnt w
      else if P it then
        (case Manager_Remove mgr c kind (ID it) w of
           (Inr _, w) \<Rightarrow> forget_loop E mgr c kind P its (cnt + 1) w
         | (Inl _, w) \<Rightarrow> forget_loop E mgr c kind P its cnt w)
      else forget_loop E mgr c kind P its cnt w)"

text \<open>
  The insertion sort of the pairs: the element at position \<open>j\<close> is swapped down while
  its predecessor has a greater importance.
\<close>

fun sink :: "(string \<times> float64) list \<Rightarrow> nat \<Rightarrow> (string \<times> float64) list" where
  "sink pairs 0 = pairs"
| "sink pairs (Suc j) =
     (if f_gt (snd (pairs ! j)) (snd (pairs ! Suc j))
      then sink (pairs[j := pairs ! Suc j, Suc j := pairs ! j]) j
      else pairs)"

definition sortPairsByImpAsc :: "(string \<times> float64) list \<Rightarrow> (string \<times> float64) list" where
  "sortPairsByImpAsc pairs = foldl sink pairs [1..<length pairs]"

fun evict_loop :: "'s Manager \<Rightarrow> ctx \<Rightarrow> Kind \<Rightarrow> string list \<Rightarrow> int \<Rightarrow> 's \<Rightarrow> int \<times> 's" where
  "evict_loop mgr c kind [] cnt w = (cnt, w)"
| "evict_loop mgr c kind (i # ids) cnt w = (case Manager_Remove mgr c kind i w of
       (Inr _, w) \<Rightarrow> evict_loop mgr c kind ids (cnt + 1) w
     | (Inl _, w) \<Rightarrow> evict_loop mgr c kind ids cnt w)"

definition emitForgotten :: "'s ScopedLifecycleManager \<Rightarrow> Kind \<Rightarrow> int \<times> 'z world_scheme
    \<Rightarrow> (int \<times> error option) \<times> 'z world_scheme" where
  "emitForgotten s kind r =
     ((fst r, None), emit (lifecycle_observer s) EventForgottenTotal [(''kind'', AKind kind), (''n'', AInt (fst r))] (snd r))"

definition forget_candidates :: "env \<Rightarrow> 'z world_scheme ScopedLifecycleManager \<Rightarrow> ctx \<Rightarrow> Kind \<Rightarrow> ForgetOptions
    \<Rightarrow> MemoryItem list \<Rightarrow> 'z world_scheme \<Rightarrow> (int \<times> error option) \<times> 'z world_scheme" where
  "forget_candidates E s c kind opts candidates w =
     (let mgr = Inner (sl_sm s)
      in case fo_Strategy opts of
           ForgetByImportance \<Rightarrow>
             emitForgotten s kind (forget_loop E mgr c kind (\<lambda>it. f_lt (Importance it) (fo_Threshold opts)) candidates 0 w)
         | ForgetByAge \<Rightarrow>
             if fo_MaxAge opts \<le> 0 then ((0, Some (ErrText ''memory: forget by age requires MaxAge > 0'')), w)
             else
               let (now, w) = time_Now E w
               in emitForgotten s kind
                    (forget_loop E mgr c kind (\<lambda>it. time_Sub now (CreatedAt it) > fo_MaxAge opts) candidates 0 w)
         | ForgetByCapacity \<Rightarrow>
             if fo_Keep opts \<le> 0 then ((0, None), w)
             else
               let all = map (\<lambda>it. (ID it, Importance it)) (filter (\<lambda>it. \<not> IsPinned E (heap w) it) candidates)
               in if int (length all) \<le> fo_Keep opts then ((0, None), w)
                  else
                    let toEvict = length all - nat (fo_Keep opts)
                    in emitForgotten s kind
                         (evict_loop mgr c kind (take toEvict (map fst (sortPairsByImpAsc all))) 0 w)
         | ForgetOther st \<Rightarrow> ((0, Some (ErrText (''memory: unknown forget strategy '' @ st))), w))"

definition ForgetScoped :: "env \<Rightarrow> 'z world_scheme ScopedLifecycleManager \<Rightarrow> ctx \<Rightarrow> Kind \<Rightarrow> ForgetOptions
    \<Rightarrow> 'z world_scheme \<Rightarrow> ((int \<times> error option) \<times> 'z world_scheme) option" where
  "ForgetScoped E s c kind opts w = (case listAllScoped E s c 200 w of
       None \<Rightarrow> None
     | Some (Inl err, w) \<Rightarrow> Some ((0, Some (ErrWrapKind ''memory: list'' kind err)), w)
     | Some (Inr allItems, w) \<Rightarrow> Some (forget_candidates E s c kind opts (itemsFor allItems kind) w))"


section \<open>Statistics\<close>

fun oldest_of :: "MemoryItem list \<Rightarrow> time option \<Rightarrow> time option" where
  "oldest_of [] oldest = oldest"
| "oldest_of (it # its) oldest =
     oldest_of its (case oldest of
         None \<Rightarrow> Some (CreatedAt it)
       | Some t \<Rightarrow> if CreatedAt it < t then Some (CreatedAt it) else Some t)"

definition scopedStats :: "time \<Rightarrow> int \<Rightarrow> MemoryItem list \<Rightarrow> Stats" where
  "scopedStats now capacity its =
     (let impSum = foldl (\<lambda>acc it. f_add acc (Importance it)) (Fin 0) its
      in \<lparr>st_Count = length its, st_Capacity = capacity,
          st_AvgImportance = (if length its > 0 then f_div impSum (f_of_nat (length its)) else Fin 0),
          st_OldestAge = (case oldest_of its None of Some t \<Rightarrow> time_Sub now t | None \<Rightarrow> 0)\<rparr>)"

definition StatsScoped :: "env \<Rightarrow> 'z world_scheme ScopedLifecycleManager \<Rightarrow> ctx \<Rightarrow> 'z world_scheme
    \<Rightarrow> ((error + (Kind, Stats) gomap) \<times> 'z world_scheme) option" where
  "StatsScoped E s c w = (case listAllScoped E s c 200 w of
       None \<Rightarrow> None
     | Some (Inl err, w) \<Rightarrow> Some (Inl (ErrWrap ''memory: stats list'' err), w)
     | Some (Inr allItems, w) \<Rightarrow>
         (let (innerStats, w) = StatsAll (Inner (sl_sm s)) w;
              (now, w) = time_Now E w;
              (ordered, w) = go_range E allItems w
          in Some (Inr (map (\<lambda>(kind, its). (kind,
               scopedStats now (case mget innerStats kind of Some st \<Rightarrow> st_Capacity st | None \<Rightarrow> 0) its)) ordered), w)))"


section \<open>The sort of the pairs\<close>

text \<open>The sort inserts each element, from the right, into the sorted prefix before it.\<close>

fun insert_right :: "(string \<times> float64) \<Rightarrow> (string \<times> float64) list \<Rightarrow> (string \<times> float64) list" where
  "insert_right y [] = [y]"
| "insert_right y (x # xs) = (if pair_less y x then x # insert_right y xs else y # x # xs)"

lemma sink_append:
  "sink (rev xs @ y # ys) (length xs) = rev (insert_right y xs) @ ys"
proof (induction xs arbitrary: y ys)
  case (Cons x xs)
  have swap: "(rev (x # xs) @ y # ys)[length xs := y, Suc (length xs) := x] = rev xs @ y # x # ys"
    by (simp add: list_update_append)
  show ?case using Cons [of y "x # ys"] swap by (simp add: nth_append pair_less_def)
qed simp

lemma set_insert_right [simp]: "set (insert_right y xs) = insert y (set xs)"
  by (induction xs) auto

lemma mset_insert_right [simp]: "mset (insert_right y xs) = add_mset y (mset xs)"
  by (induction xs) auto

lemma insert_right_sorted:
  assumes "sorted_wrt (\<lambda>a b. \<not> pair_less a b) xs" and "\<forall>x \<in> insert y (set xs). snd x \<noteq> NaN"
  shows "sorted_wrt (\<lambda>a b. \<not> pair_less a b) (insert_right y xs)"
  using assms
proof (induction xs)
  case (Cons x xs)
  show ?case
  proof (cases "pair_less y x")
    case True
    then have "\<not> pair_less x y" by (auto simp: pair_less_def dest: f_lt_asym)
    then show ?thesis using Cons True by auto
  next
    case False
    have "\<not> pair_less y z" if "z \<in> set xs" for z
    proof -
      have "\<not> pair_less x z" using Cons.prems(1) that by simp
      then show ?thesis using False Cons.prems(2) that f_lt_neg_trans [of "snd x" "snd y" "snd z"]
        by (auto simp: pair_less_def)
    qed
    then show ?thesis using False Cons.prems(1) by simp
  qed
qed simp

lemma sort_prefix:
  assumes "k \<le> length pairs"
  shows "\<exists>xs. foldl sink pairs [1..<k] = rev xs @ drop (max 1 k) pairs
    \<and> mset xs = mset (take (max 1 k) pairs)
    \<and> ((\<forall>p \<in> set pairs. snd p \<noteq> NaN) \<longrightarrow> sorted_wrt (\<lambda>a b. \<not> pair_less a b) xs)"
  using assms
proof (induction k)
  case 0
  then show ?case by (intro exI [of _ "rev (take 1 pairs)"]) (cases pairs; simp)
next
  case (Suc k)
  then obtain xs where xs: "foldl sink pairs [1..<k] = rev xs @ drop (max 1 k) pairs"
      "mset xs = mset (take (max 1 k) pairs)"
      "(\<forall>p \<in> set pairs. snd p \<noteq> NaN) \<longrightarrow> sorted_wrt (\<lambda>a b. \<not> pair_less a b) xs"
    by auto
  show ?case
  proof (cases "k = 0")
    case True
    then show ?thesis using xs by auto
  next
    case False
    then have m: "max 1 k = k" "max 1 (Suc k) = Suc k" by simp_all
    let ?y = "pairs ! k"
    have dr: "drop k pairs = ?y # drop (Suc k) pairs" using Suc.prems by (simp add: Cons_nth_drop_Suc)
    have len: "length xs = k" using arg_cong [OF xs(2), of size] Suc.prems m by simp
    have "foldl sink pairs [1..<Suc k] = sink (rev xs @ ?y # drop (Suc k) pairs) (length xs)"
      using False xs(1) m dr len by simp
    then have f: "foldl sink pairs [1..<Suc k] = rev (insert_right ?y xs) @ drop (max 1 (Suc k)) pairs"
      by (simp add: sink_append)
    have ms: "mset (insert_right ?y xs) = mset (take (max 1 (Suc k)) pairs)"
      using xs(2) m Suc.prems by (simp add: take_Suc_conv_app_nth)
    have sub: "insert ?y (set xs) \<subseteq> set pairs"
      using arg_cong [OF ms, of set_mset] set_take_subset [of "max 1 (Suc k)" pairs] by simp
    have "sorted_wrt (\<lambda>a b. \<not> pair_less a b) (insert_right ?y xs)" if "\<forall>p \<in> set pairs. snd p \<noteq> NaN"
      using insert_right_sorted [of xs ?y] xs(3) that sub by blast
    then show ?thesis using f ms by blast
  qed
qed

lemma sortPairs_result:
  "mset (sortPairsByImpAsc pairs) = mset pairs
   \<and> ((\<forall>p \<in> set pairs. snd p \<noteq> NaN) \<longrightarrow> sorted_wrt (\<lambda>a b. \<not> pair_less b a) (sortPairsByImpAsc pairs))"
proof -
  obtain xs where xs: "sortPairsByImpAsc pairs = rev xs @ drop (max 1 (length pairs)) pairs"
      "mset xs = mset (take (max 1 (length pairs)) pairs)"
      "(\<forall>p \<in> set pairs. snd p \<noteq> NaN) \<longrightarrow> sorted_wrt (\<lambda>a b. \<not> pair_less a b) xs"
    using sort_prefix [of "length pairs" pairs] unfolding sortPairsByImpAsc_def by auto
  then have "sortPairsByImpAsc pairs = rev xs" "mset xs = mset pairs" by simp_all
  then show ?thesis using xs(3) by (simp add: sorted_wrt_rev)
qed


section \<open>Removing many items of any tier\<close>

context memory_tier
begin

lemma evict_loop_result:
  assumes "inv w" and "requireMemory mgr kind = Inr mem" and "evict_loop mgr c kind ids cnt w = (cnt', w')"
  shows "heap w' = heap w \<and> frame w' = frame w \<and> inv w'
    \<and> view w' = (\<lambda>i. if i \<in> set ids then None else view w i)
    \<and> cnt' = cnt + int (card (set ids \<inter> dom (view w)))"
  using assms(1,3)
proof (induction ids arbitrary: cnt w)
  case Nil
  then show ?case by simp
next
  case (Cons i ids)
  show ?case
  proof (cases "view w i")
    case None
    then have "evict_loop mgr c kind ids cnt w = (cnt', w')"
      using Cons.prems assms(2) remove_miss [OF Cons.prems(1) None] by (simp add: Manager_Remove_def)
    note ih = Cons.IH [OF Cons.prems(1) this]
    have "set (i # ids) \<inter> dom (view w) = set ids \<inter> dom (view w)" using None by auto
    moreover have "(\<lambda>j. if j \<in> set (i # ids) then None else view w j) = (\<lambda>j. if j \<in> set ids then None else view w j)"
      using None by auto
    ultimately show ?thesis using ih by simp
  next
    case (Some it)
    obtain w1 where r: "mem_Remove mem c i w = (Inr (), w1)" "view w1 = (view w)(i := None)"
        "heap w1 = heap w" "frame w1 = frame w" "inv w1"
      using remove_hit [OF Cons.prems(1) Some] by blast
    then have "evict_loop mgr c kind ids (cnt + 1) w1 = (cnt', w')"
      using Cons.prems assms(2) by (simp add: Manager_Remove_def)
    note ih = Cons.IH [OF r(5) this]
    have "set (i # ids) \<inter> dom (view w) = insert i (set ids \<inter> dom (view w1))"
      using Some r(2) by (auto split: if_splits)
    moreover have "i \<notin> set ids \<inter> dom (view w1)" using r(2) by simp
    ultimately have "card (set (i # ids) \<inter> dom (view w)) = Suc (card (set ids \<inter> dom (view w1)))" by simp
    moreover have "(\<lambda>j. if j \<in> set ids then None else view w1 j) = (\<lambda>j. if j \<in> set (i # ids) then None else view w j)"
      using r(2) by auto
    ultimately show ?thesis using ih r(3,4) by simp
  qed
qed

text \<open>No metadata changes on the way, so whether an item is pinned can be decided at the start.\<close>

lemma forget_loop_eq:
  assumes "inv w" and "requireMemory mgr kind = Inr mem"
  shows "forget_loop E mgr c kind P its cnt w =
    evict_loop mgr c kind (map ID (filter (\<lambda>it. \<not> IsPinned E (heap w) it \<and> P it) its)) cnt w"
  using assms(1)
proof (induction its arbitrary: cnt w)
  case Nil
  then show ?case by simp
next
  case (Cons it its)
  have step: "heap w' = heap w \<and> inv w'" if "Manager_Remove mgr c kind (ID it) w = (r, w')" for r w'
    using that assms(2) remove_miss [OF Cons.prems, of "ID it" c] remove_hit [OF Cons.prems, of "ID it" _ c] Cons.prems
    by (cases "view w (ID it)") (auto simp: Manager_Remove_def)
  show ?case using Cons.IH [OF Cons.prems] step Cons.IH
    by (auto split: sum.splits prod.splits)
qed

end


section \<open>The three engines\<close>

definition engineLifecycle :: "env \<Rightarrow> config \<Rightarrow> sys ScopedLifecycleManager" where
  "engineLifecycle E cfg = \<lparr>sl_sm = engineScoped E, sl_cfg = cfg\<rparr>"

definition scopedFilter :: "env \<Rightarrow> ctx \<Rightarrow> ListFilter" where
  "scopedFilter E c = (if \<not> c_Scope_IsZero E (ScopeFrom c) then zeroFilter\<lparr>f_Scope := ScopeFrom c\<rparr> else zeroFilter)"

text \<open>The items an operation of the lifecycle acts on: enabled, and of the context's scope unless that is zero.\<close>

definition eligible :: "env \<Rightarrow> ctx \<Rightarrow> meta list \<Rightarrow> MemoryItem \<Rightarrow> bool" where
  "eligible E c h it \<longleftrightarrow> \<not> IsDisabled E h it
     \<and> (\<not> c_Scope_IsZero E (ScopeFrom c) \<longrightarrow> c_Scope_Matches E (ScopeFrom c) (readScope h it))"

lemma scopedFilter_eligible:
  assumes "c_Scope_IsZero E zeroScope"
  shows "matchesFilter E h it (scopedFilter E c) = eligible E c h it"
  using assms by (auto simp: matchesFilter_def scopedFilter_def eligible_def zeroFilter_def)

lemma listAllScoped_engines:
  assumes "list_ready E (scopedFilter E c) n C w" and "0 < n"
  shows "\<exists>out t. listAllScoped E (engineLifecycle E cfg) c (int n) w = Some (Inr out, w\<lparr>tick := t\<rparr>) \<and> mwf out
    \<and> (\<forall>k. mget out k = (if k \<in> set allKinds then Some (concat (replicate (repeats n C k) (C k))) else None))"
proof -
  have "(\<lambda>cursors w. Scoped_ListAll E (engineScoped E) c zeroFilter (int n) cursors w)
      = (\<lambda>cursors w. ListAll (engineManager E) c (scopedFilter E c) (int n) cursors w)"
    by (intro ext) (simp add: Scoped_ListAll_def scopedFilter_def Let_def)
  then show ?thesis using engine_paged_loop [OF assms, of c] assms(2)
    by (simp add: listAllScoped_def engineLifecycle_def)
qed

lemma tier_view_ID:
  assumes "sys_inv w" and "tier_view kind w i = Some it"
  shows "ID it = i \<and> i \<noteq> ''''"
proof (cases kind)
  case KindWorking
  then show ?thesis using working_tier.view_ID [of w i it] assms by (simp add: sys_inv_def)
next
  case KindEpisodic
  then show ?thesis using episodic_tier.view_ID [of w i it] assms by (simp add: sys_inv_def)
next
  case KindSemantic
  then show ?thesis using semantic_tier.view_ID [of w i it] assms by (simp add: sys_inv_def)
next
  case (KindOther s)
  then show ?thesis using assms by simp
qed

lemma ran_store: "store_wf s \<Longrightarrow> ran (mget (items s)) = snd ` set (items s)"
  by (intro subset_antisym ran_mget in_ran_mget store_wfD(1))

lemma set_tier_listing:
  assumes "sys_inv w" and "kind \<in> set allKinds"
  shows "set (tier_listing E kind f w) = {it \<in> ran (tier_view kind w). matchesFilter E (heap w) it f}"
proof -
  have "store_wf (wm_store (wrk w))" "store_wf (em_store (epi w))" "store_wf (sm_store (sem w))"
    using assms(1) by (simp_all add: sys_inv_def working_inv_def episodic_inv_def semantic_inv_def)
  then show ?thesis using assms(2)
    by (auto simp: allKinds_def tier_listing_def set_listing working_view_def episodic_view_def
        semantic_view_def ran_store)
qed

lemma engine_evict:
  assumes "sys_inv w" and "kind \<in> set allKinds" and "evict_loop (engineManager E) c kind ids cnt w = (cnt', w')"
  shows "heap w' = heap w \<and> sys_inv w'
    \<and> tier_view kind w' = (\<lambda>i. if i \<in> set ids then None else tier_view kind w i)
    \<and> (\<forall>k. k \<noteq> kind \<longrightarrow> tier_view k w' = tier_view k w)
    \<and> cnt' = cnt + int (card (set ids \<inter> dom (tier_view kind w)))"
proof -
  have inv: "working_inv w" "episodic_inv w" "semantic_inv w" using assms(1) by (simp_all add: sys_inv_def)
  consider "kind = KindWorking" | "kind = KindEpisodic" | "kind = KindSemantic"
    using assms(2) by (auto simp: allKinds_def)
  then show ?thesis
  proof cases
    case 1
    then have tier: "requireMemory (engineManager E) kind = Inr (workingMemory E)" by simp
    show ?thesis unfolding 1 tier_view_simps
      using working_tier.evict_loop_result [OF inv(1) tier assms(3)] working_frame [OF _ assms(1), of w'] by blast
  next
    case 2
    then have tier: "requireMemory (engineManager E) kind = Inr (episodicMemory E)" by simp
    show ?thesis unfolding 2 tier_view_simps
      using episodic_tier.evict_loop_result [OF inv(2) tier assms(3)] episodic_frame [OF _ assms(1), of w'] by blast
  next
    case 3
    then have tier: "requireMemory (engineManager E) kind = Inr (semanticMemory E)" by simp
    show ?thesis unfolding 3 tier_view_simps
      using semantic_tier.evict_loop_result [OF inv(3) tier assms(3)] semantic_frame [OF _ assms(1), of w'] by blast
  qed
qed

lemma engine_forget:
  assumes "sys_inv w" and "kind \<in> set allKinds"
  shows "forget_loop E (engineManager E) c kind P its cnt w =
    evict_loop (engineManager E) c kind (map ID (filter (\<lambda>it. \<not> IsPinned E (heap w) it \<and> P it) its)) cnt w"
proof -
  have inv: "working_inv w" "episodic_inv w" "semantic_inv w" using assms(1) by (simp_all add: sys_inv_def)
  consider "kind = KindWorking" | "kind = KindEpisodic" | "kind = KindSemantic"
    using assms(2) by (auto simp: allKinds_def)
  then show ?thesis
  proof cases
    case 1
    then show ?thesis by (intro working_tier.forget_loop_eq [OF inv(1)]) simp
  next
    case 2
    then show ?thesis by (intro episodic_tier.forget_loop_eq [OF inv(2)]) simp
  next
    case 3
    then show ?thesis by (intro semantic_tier.forget_loop_eq [OF inv(3)]) simp
  qed
qed

lemma engine_add_episodic:
  assumes "sys_inv w" and "Manager_Add (engineManager E) c KindEpisodic it w = (r, w')"
  shows "heap w' = heap w \<and> sys_inv w' \<and> (\<forall>k. k \<noteq> KindEpisodic \<longrightarrow> tier_view k w' = tier_view k w)"
proof -
  have inv: "episodic_inv w" using assms(1) by (simp add: sys_inv_def)
  have add: "mem_Add (episodicMemory E) c it w = (r, w')" using assms(2) by (simp add: Manager_Add_def)
  show ?thesis using episodic_tier.add_result [OF inv add] episodic_frame [OF _ assms(1), of w'] by blast
qed

lemma consolidate_loop_count:
  assumes "sys_inv w" and "co_MinAge opts \<le> 0"
    and "consolidate_scoped_loop E (engineManager E) c opts its cnt w = ((n, None), w')"
  shows "n = cnt + int (length (filter (\<lambda>it. \<not> f_lt (Importance it) (co_Threshold opts)) its))
    \<and> heap w' = heap w \<and> sys_inv w' \<and> (\<forall>k. k \<noteq> KindEpisodic \<longrightarrow> tier_view k w' = tier_view k w)"
  using assms(1,3)
proof (induction its arbitrary: cnt w)
  case Nil
  then show ?case by simp
next
  case (Cons it its)
  show ?case
  proof (cases "f_lt (Importance it) (co_Threshold opts)")
    case True
    then show ?thesis using Cons by simp
  next
    case False
    obtain r w1 where a: "Manager_Add (engineManager E) c KindEpisodic (it\<lparr>ID := ''''\<rparr>) w = (r, w1)"
      by (cases "Manager_Add (engineManager E) c KindEpisodic (it\<lparr>ID := ''''\<rparr>) w")
    note st = engine_add_episodic [OF Cons.prems(1) a]
    obtain i where "r = Inr i" and rest: "consolidate_scoped_loop E (engineManager E) c opts its (cnt + 1) w1 = ((n, None), w')"
      using Cons.prems(2) False a assms(2) by (cases r) (auto simp: oldEnough_def)
    from Cons.IH [OF _ rest] st False show ?thesis by auto
  qed
qed

lemma tier_view_tick [simp]: "tier_view k (w\<lparr>tick := t\<rparr>) = tier_view k w"
  by (simp add: tier_view_def working_view_def episodic_view_def semantic_view_def split: Kind.splits)

text \<open>A run of the forgetting loops, seen on the engines: the identifiers it removes.\<close>

lemma ForgetScoped_engines:
  assumes "list_ready E (scopedFilter E c) 200 C w" and "kind \<in> set allKinds"
  shows "\<exists>al t. listAllScoped E (engineLifecycle E cfg) c 200 w = Some (Inr al, w\<lparr>tick := t\<rparr>)
    \<and> ForgetScoped E (engineLifecycle E cfg) c kind opts w = Some (forget_candidates E (engineLifecycle E cfg) c kind opts
      (concat (replicate (repeats 200 C kind) (C kind))) (w\<lparr>tick := t\<rparr>))"
proof -
  obtain out t where "listAllScoped E (engineLifecycle E cfg) c 200 w = Some (Inr out, w\<lparr>tick := t\<rparr>)"
      "mget out kind = Some (concat (replicate (repeats 200 C kind) (C kind)))"
    using listAllScoped_engines [OF assms(1), of cfg] assms(2) by auto
  then show ?thesis by (auto simp: ForgetScoped_def itemsFor_def)
qed

lemma Inner_engine [simp]: "Inner (sl_sm (engineLifecycle E cfg)) = engineManager E"
  by (simp add: Inner_def engineLifecycle_def)

lemma set_concat_replicate: "0 < n \<Longrightarrow> set (concat (replicate n xs)) = set xs"
  by (cases n) auto


section \<open>Properties\<close>

definition twoSys :: sys where
  "twoSys = \<lparr>tick = 0, heap = [], events = [], wrk = sampleWorking\<lparr>wm_store := listStore\<rparr>,
     epi = sampleEpisodic, sem = sampleSemantic\<rparr>"

lemma twoSys_inv: "sys_inv twoSys"
  by (simp add: sys_inv_def working_inv_def episodic_inv_def semantic_inv_def twoSys_def sampleStore_wf listStore_wf)

lemma twoSys_listing:
  "tier_listing sampleEnv KindWorking zeroFilter twoSys =
     [(sampleItem ''b'' ''y'')\<lparr>CreatedAt := 9\<rparr>, (sampleItem ''a'' ''x'')\<lparr>CreatedAt := 5\<rparr>]"
  "tier_listing sampleEnv KindEpisodic zeroFilter twoSys = [sampleItem ''k'' ''old'']"
  "tier_listing sampleEnv KindSemantic zeroFilter twoSys = [sampleItem ''k'' ''old'']"
  by (simp_all add: tier_listing_def listing_def twoSys_def listStore_def matchesFilter_def zeroFilter_def
      IsDisabled_def meta_of_def sample_flag_def list_less_def)

lemma twoSys_filter: "scopedFilter sampleEnv sampleCtx = zeroFilter"
  by (simp add: scopedFilter_def sampleCtx_def ScopeFrom_def)

lemma twoSys_ready:
  assumes "int n < 2 ^ 62"
  shows "list_ready sampleEnv (scopedFilter sampleEnv sampleCtx) n
    (\<lambda>k. tier_listing sampleEnv k zeroFilter twoSys) twoSys"
  using assms unfolding list_ready_def twoSys_filter
  by (auto simp: twoSys_inv allKinds_def twoSys_listing intro!: sample_codecs)

text \<open>
  C21. The enumeration of the items of a scope ends, without an error, and lists for each kind
  the matching items in order, but as often as the least common multiple of the three page
  counts exceeds the kind's own: exactly once when every kind fits into one page, and
  otherwise possibly several times.
\<close>

theorem scoped_enumeration_repeats:
  assumes "list_ready E (scopedFilter E c) n C w" and "0 < n"
  shows "\<exists>out t. listAllScoped E (engineLifecycle E cfg) c (int n) w = Some (Inr out, w\<lparr>tick := t\<rparr>)
    \<and> (\<forall>k \<in> set allKinds. itemsFor out k = concat (replicate (repeats n C k) (tier_listing E k (scopedFilter E c) w))
         \<and> 0 < repeats n C k
         \<and> ((\<forall>j \<in> set allKinds. length (C j) \<le> n) \<longrightarrow> repeats n C k = 1))"
proof -
  obtain out t where l: "listAllScoped E (engineLifecycle E cfg) c (int n) w = Some (Inr out, w\<lparr>tick := t\<rparr>)"
      "\<forall>k. mget out k = (if k \<in> set allKinds then Some (concat (replicate (repeats n C k) (C k))) else None)"
    using listAllScoped_engines [OF assms, of cfg] by blast
  have "tier_listing E k (scopedFilter E c) w = C k" if "k \<in> set allKinds" for k
    using assms(1) that by (simp add: list_ready_def)
  then show ?thesis using l repeats_pos repeats_one [OF assms(2)] by (auto simp: itemsFor_def)
qed

theorem scoped_enumeration_repeats_witness:
  "\<exists>out t. listAllScoped sampleEnv (engineLifecycle sampleEnv \<lparr>observer = None\<rparr>) sampleCtx 1 twoSys
      = Some (Inr out, twoSys\<lparr>tick := t\<rparr>)
    \<and> itemsFor out KindEpisodic = [sampleItem ''k'' ''old'', sampleItem ''k'' ''old'']"
proof -
  let ?C = "\<lambda>k. tier_listing sampleEnv k zeroFilter twoSys"
  have rdy: "list_ready sampleEnv (scopedFilter sampleEnv sampleCtx) 1 ?C twoSys" by (rule twoSys_ready) simp
  have "repeats 1 ?C KindEpisodic = 2"
    by (simp add: repeats_def pageCount_def allKinds_def twoSys_listing lcm_nat_def)
  then show ?thesis
    using scoped_enumeration_repeats [OF rdy, of "\<lparr>observer = None\<rparr>"] twoSys_listing(2)
    by (auto simp: allKinds_def twoSys_filter numeral_2_eq_2)
qed

lemma listed_ids:
  assumes inv: "sys_inv w" and its: "set its = {it \<in> ran (tier_view kind w). elig it}"
  shows "i \<in> set (map ID (filter P its)) \<longleftrightarrow> (\<exists>it. tier_view kind w i = Some it \<and> elig it \<and> P it)"
proof
  assume "i \<in> set (map ID (filter P its))"
  then obtain it where it: "it \<in> set its" "P it" "ID it = i" by auto
  then obtain j where "tier_view kind w j = Some it" "elig it" using its by (auto simp: ran_def)
  then show "\<exists>it. tier_view kind w i = Some it \<and> elig it \<and> P it" using tier_view_ID [OF inv] it by blast
next
  assume "\<exists>it. tier_view kind w i = Some it \<and> elig it \<and> P it"
  then obtain it where it: "tier_view kind w i = Some it" "elig it" "P it" by blast
  then have "it \<in> set its" using its by (auto intro: ranI)
  then have "ID it \<in> set (map ID (filter P its))" using it(3) by auto
  then show "i \<in> set (map ID (filter P its))" using tier_view_ID [OF inv it(1)] by (simp only:)
qed

text \<open>
  What a removal loop over the enumerated items does, however often they are repeated:
  precisely the eligible items that are not pinned and satisfy the condition go.
\<close>

lemma forget_loop_listed:
  assumes rdy: "list_ready E (scopedFilter E c) 200 C w" and kind: "kind \<in> set allKinds"
    and zero: "c_Scope_IsZero E zeroScope"
    and run: "forget_loop E (engineManager E) c kind P (concat (replicate (repeats 200 C kind) (C kind))) 0 (w\<lparr>tick := t\<rparr>) = (n, w1)"
  shows "tier_view kind w1 = (\<lambda>i. case tier_view kind w i of None \<Rightarrow> None
      | Some it \<Rightarrow> if eligible E c (heap w) it \<and> \<not> IsPinned E (heap w) it \<and> P it then None else Some it)"
    and "n = int (card (dom (tier_view kind w) - dom (tier_view kind w1)))"
    and "\<forall>k. k \<noteq> kind \<longrightarrow> tier_view k w1 = tier_view k w" and "heap w1 = heap w" and "sys_inv w1"
proof -
  let ?P = "\<lambda>it. \<not> IsPinned E (heap w) it \<and> P it"
  let ?its = "concat (replicate (repeats 200 C kind) (C kind))"
  let ?ids = "map ID (filter ?P ?its)"
  have inv: "sys_inv w" "sys_inv (w\<lparr>tick := t\<rparr>)" and C: "tier_listing E kind (scopedFilter E c) w = C kind"
    using rdy kind by (simp_all add: list_ready_def)
  have "evict_loop (engineManager E) c kind ?ids 0 (w\<lparr>tick := t\<rparr>) = (n, w1)"
    using run engine_forget [OF inv(2) kind] by simp
  note r = engine_evict [OF inv(2) kind this]
  have "set ?its = {it \<in> ran (tier_view kind w). eligible E c (heap w) it}"
    using set_concat_replicate [OF repeats_pos [OF kind], of 200 C "C kind"] C [symmetric]
      set_tier_listing [OF inv(1) kind] scopedFilter_eligible [OF zero] by simp
  note ids = listed_ids [OF inv(1) this, of _ ?P]
  show "tier_view kind w1 = (\<lambda>i. case tier_view kind w i of None \<Rightarrow> None
      | Some it \<Rightarrow> if eligible E c (heap w) it \<and> ?P it then None else Some it)"
  proof
    fix i
    have "tier_view kind w1 i = (if i \<in> set ?ids then None else tier_view kind w i)" using r by simp
    then show "tier_view kind w1 i = (case tier_view kind w i of None \<Rightarrow> None
      | Some it \<Rightarrow> if eligible E c (heap w) it \<and> ?P it then None else Some it)"
      unfolding ids by (cases "tier_view kind w i") simp_all
  qed
  have "set ?ids \<inter> dom (tier_view kind w) = dom (tier_view kind w) - dom (tier_view kind w1)" using r by auto
  then show "n = int (card (dom (tier_view kind w) - dom (tier_view kind w1)))" using r by simp
  show "\<forall>k. k \<noteq> kind \<longrightarrow> tier_view k w1 = tier_view k w" "heap w1 = heap w" "sys_inv w1" using r by simp_all
qed

text \<open>
  C22. Forgetting by importance is exact, although the enumeration may repeat items: it
  removes precisely the items of the kind that are enabled, of the context's scope (any, when
  that is zero), not pinned and below the threshold; every other item stays as it is, disabled
  items of the scope included, in this and in the other kinds, and the count returned is the
  number of items removed.
\<close>

theorem forget_by_importance_exact:
  assumes rdy: "list_ready E (scopedFilter E c) 200 C w" and kind: "kind \<in> set allKinds"
    and zero: "c_Scope_IsZero E zeroScope" and strat: "fo_Strategy opts = ForgetByImportance"
  shows "\<exists>n w'. ForgetScoped E (engineLifecycle E cfg) c kind opts w = Some ((n, None), w')
    \<and> tier_view kind w' = (\<lambda>i. case tier_view kind w i of
         None \<Rightarrow> None
       | Some it \<Rightarrow> if eligible E c (heap w) it \<and> \<not> IsPinned E (heap w) it
                        \<and> f_lt (Importance it) (fo_Threshold opts) then None else Some it)
    \<and> n = int (card (dom (tier_view kind w) - dom (tier_view kind w')))
    \<and> (\<forall>k. k \<noteq> kind \<longrightarrow> tier_view k w' = tier_view k w) \<and> heap w' = heap w \<and> sys_inv w'"
proof -
  let ?its = "concat (replicate (repeats 200 C kind) (C kind))"
  obtain t where f: "ForgetScoped E (engineLifecycle E cfg) c kind opts w =
      Some (forget_candidates E (engineLifecycle E cfg) c kind opts ?its (w\<lparr>tick := t\<rparr>))"
    using ForgetScoped_engines [OF rdy kind] by blast
  obtain n w1 where run: "forget_loop E (engineManager E) c kind (\<lambda>it. f_lt (Importance it) (fo_Threshold opts)) ?its 0
      (w\<lparr>tick := t\<rparr>) = (n, w1)" by fastforce
  note r = forget_loop_listed [OF rdy kind zero run]
  show ?thesis using f strat run r by (auto simp: forget_candidates_def emitForgotten_def Let_def)
qed

definition forgetLow :: ForgetOptions where
  "forgetLow = \<lparr>fo_Strategy = ForgetByImportance, fo_Threshold = Fin (9/10), fo_MaxAge = 0, fo_Keep = 0\<rparr>"

lemma twoSys_eligible:
  "tier_view KindWorking twoSys ''a'' = Some ((sampleItem ''a'' ''x'')\<lparr>CreatedAt := 5\<rparr>)"
  "eligible sampleEnv sampleCtx (heap twoSys) ((sampleItem ''a'' ''x'')\<lparr>CreatedAt := 5\<rparr>)"
  "\<not> IsPinned sampleEnv (heap twoSys) ((sampleItem ''a'' ''x'')\<lparr>CreatedAt := 5\<rparr>)"
  by (simp_all add: working_view_def twoSys_def listStore_def eligible_def IsDisabled_def IsPinned_def meta_of_def
      sample_flag_def sampleCtx_def ScopeFrom_def)

theorem forget_by_importance_exact_witness:
  "\<exists>n w'. ForgetScoped sampleEnv (engineLifecycle sampleEnv \<lparr>observer = None\<rparr>) sampleCtx KindWorking forgetLow twoSys
      = Some ((n, None), w') \<and> tier_view KindWorking w' ''a'' = None
    \<and> tier_view KindEpisodic w' = tier_view KindEpisodic twoSys"
proof -
  have rdy: "list_ready sampleEnv (scopedFilter sampleEnv sampleCtx) 200
      (\<lambda>k. tier_listing sampleEnv k zeroFilter twoSys) twoSys" by (rule twoSys_ready) simp
  note v = twoSys_eligible(1) and el = twoSys_eligible(2,3)
  obtain n w' where "ForgetScoped sampleEnv (engineLifecycle sampleEnv \<lparr>observer = None\<rparr>) sampleCtx KindWorking forgetLow twoSys
      = Some ((n, None), w')" "tier_view KindWorking w' ''a'' = None"
      "tier_view KindEpisodic w' = tier_view KindEpisodic twoSys"
    using forget_by_importance_exact [OF rdy, of KindWorking forgetLow "\<lparr>observer = None\<rparr>"] v el
    by (auto simp: allKinds_def forgetLow_def)
  then show ?thesis by blast
qed

text \<open>
  C23. Forgetting by age is exact as well: without a positive maximal age it is refused and
  changes nothing; otherwise it reads the clock once, right after the enumeration, and removes
  precisely the items of the kind that are enabled, of the context's scope (any, when that is
  zero), not pinned and were created longer before that reading than the maximal age; disabled
  items stay, however old. An unknown strategy is refused, and changes nothing.
\<close>

theorem forget_by_age_exact:
  assumes rdy: "list_ready E (scopedFilter E c) 200 C w" and kind: "kind \<in> set allKinds"
    and zero: "c_Scope_IsZero E zeroScope"
  shows "(fo_Strategy opts = ForgetByAge \<and> 0 < fo_MaxAge opts \<longrightarrow>
      (\<exists>n w' al wl. ForgetScoped E (engineLifecycle E cfg) c kind opts w = Some ((n, None), w')
        \<and> listAllScoped E (engineLifecycle E cfg) c 200 w = Some (Inr al, wl)
        \<and> tier_view kind w' = (\<lambda>i. case tier_view kind w i of
             None \<Rightarrow> None
           | Some it \<Rightarrow> if eligible E c (heap w) it \<and> \<not> IsPinned E (heap w) it
                            \<and> fo_MaxAge opts < time_Sub (fst (time_Now E wl)) (CreatedAt it) then None else Some it)
        \<and> n = int (card (dom (tier_view kind w) - dom (tier_view kind w')))
        \<and> (\<forall>k. k \<noteq> kind \<longrightarrow> tier_view k w' = tier_view k w) \<and> heap w' = heap w \<and> sys_inv w'))
    \<and> (fo_Strategy opts = ForgetByAge \<and> fo_MaxAge opts \<le> 0 \<or> fo_Strategy opts = ForgetOther st \<longrightarrow>
      (\<exists>err t. ForgetScoped E (engineLifecycle E cfg) c kind opts w = Some ((0, Some err), w\<lparr>tick := t\<rparr>)))"
proof -
  let ?its = "concat (replicate (repeats 200 C kind) (C kind))"
  obtain al t where l: "listAllScoped E (engineLifecycle E cfg) c 200 w = Some (Inr al, w\<lparr>tick := t\<rparr>)"
    and f: "ForgetScoped E (engineLifecycle E cfg) c kind opts w =
      Some (forget_candidates E (engineLifecycle E cfg) c kind opts ?its (w\<lparr>tick := t\<rparr>))"
    using ForgetScoped_engines [OF rdy kind] by blast
  obtain n w1 where run: "forget_loop E (engineManager E) c kind (\<lambda>it. fo_MaxAge opts < time_Sub (now_at E t) (CreatedAt it)) ?its 0
      (w\<lparr>tick := Suc t\<rparr>) = (n, w1)" by fastforce
  note r = forget_loop_listed [OF rdy kind zero run]
  let ?w' = "emit (lifecycle_observer (engineLifecycle E cfg)) EventForgottenTotal [(''kind'', AKind kind), (''n'', AInt n)] w1"
  have now: "fst (time_Now E (w\<lparr>tick := t\<rparr>)) = now_at E t" by (simp add: time_Now_def)
  have same: "tier_view k ?w' = tier_view k w1" "heap ?w' = heap w1" "sys_inv ?w' = sys_inv w1" for k by simp_all
  show ?thesis
  proof (intro conjI impI)
    assume "fo_Strategy opts = ForgetByAge \<and> 0 < fo_MaxAge opts"
    then have "ForgetScoped E (engineLifecycle E cfg) c kind opts w = Some ((n, None), ?w')"
      using f run by (simp add: forget_candidates_def emitForgotten_def time_Now_def Let_def split_beta)
    then show "\<exists>n w' al wl. ForgetScoped E (engineLifecycle E cfg) c kind opts w = Some ((n, None), w')
        \<and> listAllScoped E (engineLifecycle E cfg) c 200 w = Some (Inr al, wl)
        \<and> tier_view kind w' = (\<lambda>i. case tier_view kind w i of
             None \<Rightarrow> None
           | Some it \<Rightarrow> if eligible E c (heap w) it \<and> \<not> IsPinned E (heap w) it
                            \<and> fo_MaxAge opts < time_Sub (fst (time_Now E wl)) (CreatedAt it) then None else Some it)
        \<and> n = int (card (dom (tier_view kind w) - dom (tier_view kind w')))
        \<and> (\<forall>k. k \<noteq> kind \<longrightarrow> tier_view k w' = tier_view k w) \<and> heap w' = heap w \<and> sys_inv w'"
      using l r unfolding now [symmetric] same [symmetric] by blast
  next
    assume "fo_Strategy opts = ForgetByAge \<and> fo_MaxAge opts \<le> 0 \<or> fo_Strategy opts = ForgetOther st"
    then show "\<exists>err t. ForgetScoped E (engineLifecycle E cfg) c kind opts w = Some ((0, Some err), w\<lparr>tick := t\<rparr>)"
      using f by (auto simp: forget_candidates_def)
  qed
qed

definition forgetOld :: ForgetOptions where
  "forgetOld = \<lparr>fo_Strategy = ForgetByAge, fo_Threshold = Fin 0, fo_MaxAge = 1, fo_Keep = 0\<rparr>"

theorem forget_by_age_exact_witness:
  "\<exists>n w'. ForgetScoped sampleEnv (engineLifecycle sampleEnv \<lparr>observer = None\<rparr>) sampleCtx KindWorking forgetOld twoSys
      = Some ((n, None), w') \<and> n = int (card (dom (tier_view KindWorking twoSys) - dom (tier_view KindWorking w')))
    \<and> tier_view KindEpisodic w' = tier_view KindEpisodic twoSys"
proof -
  have rdy: "list_ready sampleEnv (scopedFilter sampleEnv sampleCtx) 200
      (\<lambda>k. tier_listing sampleEnv k zeroFilter twoSys) twoSys" by (rule twoSys_ready) simp
  have "fo_Strategy forgetOld = ForgetByAge \<and> 0 < fo_MaxAge forgetOld" by (simp add: forgetOld_def)
  then show ?thesis using forget_by_age_exact [OF rdy, of KindWorking forgetOld "\<lparr>observer = None\<rparr>"]
    by (force simp: allKinds_def)
qed

text \<open>
  The hand-written sort of the capacity strategy returns a permutation of its input, in
  ascending order of importance when no importance is NaN.
\<close>

theorem sort_pairs_correct:
  "mset (sortPairsByImpAsc pairs) = mset pairs
   \<and> ((\<forall>p \<in> set pairs. snd p \<noteq> NaN) \<longrightarrow> sorted_wrt (\<lambda>a b. \<not> f_lt (snd b) (snd a)) (sortPairsByImpAsc pairs))"
  using sortPairs_result [of pairs] by (simp add: pair_less_def)

theorem sort_pairs_correct_witness:
  "sorted_wrt (\<lambda>a b. \<not> f_lt (snd b) (snd a)) (sortPairsByImpAsc [(''a'', Fin 1), (''b'', Fin 0), (''c'', Fin (1/2))])"
  using sort_pairs_correct [of "[(''a'', Fin 1), (''b'', Fin 0), (''c'', Fin (1/2))]"] by simp

text \<open>
  The first \<open>k\<close> of the sorted pairs, of a list in which every pair stands \<open>r\<close>
  times: no identifier among them is more important than one left out, and one left out has all
  its \<open>r\<close> copies behind them.
\<close>

lemma sum_count_le: "finite A \<Longrightarrow> (\<Sum>a \<in> A. count M a) \<le> size M"
proof -
  assume A: "finite A"
  have "(\<Sum>a \<in> A. count M a) = (\<Sum>a \<in> A \<inter> set_mset M. count M a)"
    by (rule sum.mono_neutral_right [OF A]) (auto simp: not_in_iff)
  also have "\<dots> \<le> (\<Sum>a \<in> set_mset M. count M a)" by (rule sum_mono2) auto
  finally show ?thesis by (simp add: size_multiset_overloaded_eq)
qed

lemma count_repeated:
  "distinct xs \<Longrightarrow> count (mset (concat (replicate r xs))) x = (if x \<in> set xs then r else 0)"
  by (induction r) (simp_all add: distinct_count_atmost_1 not_in_iff)

lemma sorted_pairs_split:
  assumes pairs: "pairs = concat (replicate r P)" and d: "distinct (map fst P)" and nan: "\<forall>p \<in> set pairs. snd p \<noteq> NaN"
    and k: "k \<le> length pairs" and R: "R = set (take k (map fst (sortPairsByImpAsc pairs)))"
  shows "R \<subseteq> fst ` set pairs" and "card R \<le> k" and "r * card (fst ` set P - R) \<le> length pairs - k"
    and "\<And>p q. p \<in> set pairs \<Longrightarrow> q \<in> set pairs \<Longrightarrow> fst p \<in> R \<Longrightarrow> fst q \<notin> R \<Longrightarrow> \<not> f_lt (snd q) (snd p)"
proof -
  let ?s = "sortPairsByImpAsc pairs"
  have ms: "mset ?s = mset pairs" and srt: "sorted_wrt (\<lambda>a b. \<not> pair_less b a) ?s"
    using sortPairs_result [of pairs] nan by simp_all
  have st: "set ?s = set pairs" and len: "length ?s = length pairs"
    using ms by (metis set_mset_mset, metis size_mset)
  have Rt: "R = fst ` set (take k ?s)" unfolding R by (simp add: take_map)
  have "R \<subseteq> set (map fst ?s)" unfolding R by (rule set_take_subset)
  then show "R \<subseteq> fst ` set pairs" by (simp add: st)
  have "card R \<le> length (take k (map fst ?s))" unfolding R by (rule card_length)
  then show "card R \<le> k" by simp
  have split: "mset (map fst ?s) = mset (map fst (take k ?s)) + mset (map fst (drop k ?s))"
    by (metis append_take_drop_id map_append mset_append)
  have copies: "count (mset (map fst (drop k ?s))) i = r" if "i \<in> fst ` set P - R" for i
  proof -
    have "map fst pairs = concat (replicate r (map fst P))" by (simp add: pairs map_concat)
    then have "mset (map fst ?s) = mset (concat (replicate r (map fst P)))" by (metis ms mset_map)
    then have "count (mset (map fst ?s)) i = r" using count_repeated [OF d, of r i] that by simp
    moreover have "count (mset (map fst (take k ?s))) i = 0" using that by (auto simp: Rt count_eq_zero_iff)
    ultimately show ?thesis unfolding split by simp
  qed
  have "r * card (fst ` set P - R) = (\<Sum>i \<in> fst ` set P - R. count (mset (map fst (drop k ?s))) i)"
    using copies by simp
  also have "\<dots> \<le> size (mset (map fst (drop k ?s)))" by (rule sum_count_le) simp
  finally show "r * card (fst ` set P - R) \<le> length pairs - k" using len by simp
  fix p q
  assume p: "p \<in> set pairs" "fst p \<in> R" and q: "q \<in> set pairs" "fst q \<notin> R"
  have two: "set ?s = set (take k ?s) \<union> set (drop k ?s)" by (metis append_take_drop_id set_append)
  obtain p' where p': "p' \<in> set (take k ?s)" "fst p' = fst p" using p(2) unfolding Rt by auto
  have "p' \<in> set ?s" using p'(1) by (rule in_set_takeD)
  then have "p' \<in> set pairs" by (simp only: st)
  then have "p' \<in> set P" "p \<in> set P" using p(1) unfolding pairs by (auto split: if_splits)
  moreover have "inj_on fst (set P)" using d by (simp only: distinct_map)
  ultimately have "p' = p" using p'(2) by (simp add: inj_onD)
  then have "p \<in> set (take k ?s)" using p'(1) by simp
  moreover have "q \<in> set (drop k ?s)" using q Rt st two by auto
  moreover have "sorted_wrt (\<lambda>a b. \<not> pair_less b a) (take k ?s @ drop k ?s)" using srt by simp
  ultimately have "\<not> pair_less q p" unfolding sorted_wrt_append by blast
  then show "\<not> f_lt (snd q) (snd p)" by (simp add: pair_less_def)
qed

lemma distinct_tier_listing:
  assumes "sys_inv w"
  shows "distinct (map ID (tier_listing E kind f w))"
proof -
  have d: "distinct (map ID (listing E f h s))" if "store_wf s" for s h
  proof -
    have "distinct (map ID (filter (\<lambda>it. matchesFilter E h it f) (map snd (items s))))"
      by (rule distinct_map_filter) (use distinct_IDs [OF that] in simp)
    moreover have "mset (map ID (listing E f h s)) = mset (map ID (filter (\<lambda>it. matchesFilter E h it f) (map snd (items s))))"
      by (simp only: listing_def mset_map mset_sort_by)
    ultimately show ?thesis by (metis mset_eq_imp_distinct_iff)
  qed
  show ?thesis using assms d
    by (auto simp: tier_listing_def sys_inv_def working_inv_def episodic_inv_def semantic_inv_def split: Kind.splits)
qed

text \<open>The listed items of a kind that are not pinned: a list without repetition of what may be forgotten.\<close>

lemma unpinned_listing:
  assumes "list_ready E (scopedFilter E c) n C w" and kind: "kind \<in> set allKinds" and "c_Scope_IsZero E zeroScope"
  shows "it \<in> set (filter (\<lambda>it. \<not> IsPinned E (heap w) it) (C kind))
      \<longleftrightarrow> tier_view kind w (ID it) = Some it \<and> eligible E c (heap w) it \<and> \<not> IsPinned E (heap w) it"
    and "distinct (map ID (filter (\<lambda>it. \<not> IsPinned E (heap w) it) (C kind)))"
    and "ID ` set (filter (\<lambda>it. \<not> IsPinned E (heap w) it) (C kind))
      = {i. \<exists>it. tier_view kind w i = Some it \<and> eligible E c (heap w) it \<and> \<not> IsPinned E (heap w) it}"
proof -
  let ?F = "filter (\<lambda>it. \<not> IsPinned E (heap w) it) (C kind)"
  have inv: "sys_inv w" and C: "tier_listing E kind (scopedFilter E c) w = C kind"
    using assms by (simp_all add: list_ready_def)
  have its: "set (C kind) = {it \<in> ran (tier_view kind w). eligible E c (heap w) it}"
    using set_tier_listing [OF inv kind, of E "scopedFilter E c"] scopedFilter_eligible [OF assms(3)] C by simp
  have "it \<in> ran (tier_view kind w) \<longleftrightarrow> tier_view kind w (ID it) = Some it"
    using tier_view_ID [OF inv, of kind _ it] by (auto simp: ran_def)
  then show "it \<in> set ?F \<longleftrightarrow> tier_view kind w (ID it) = Some it \<and> eligible E c (heap w) it \<and> \<not> IsPinned E (heap w) it"
    using its by auto
  show "distinct (map ID ?F)" using distinct_tier_listing [OF inv, of E kind "scopedFilter E c"] C
    by (intro distinct_map_filter) simp
  show "ID ` set ?F = {i. \<exists>it. tier_view kind w i = Some it \<and> eligible E c (heap w) it \<and> \<not> IsPinned E (heap w) it}"
    unfolding set_map [symmetric] by (rule set_eqI) (simp only: mem_Collect_eq listed_ids [OF inv its])
qed

lemma length_repeated: "length (concat (replicate m xs)) = m * length xs"
  by (induction m) simp_all


definition forgetMany :: ForgetOptions where
  "forgetMany = \<lparr>fo_Strategy = ForgetByCapacity, fo_Threshold = Fin 0, fo_MaxAge = 0, fo_Keep = 1\<rparr>"


text \<open>
  The statistics of a scope count what the enumeration returns: each kind's count is the
  number of its eligible items times the number of repetitions, so it is too large whenever
  the kinds do not have the same number of pages.
\<close>

theorem scoped_stats_count:
  assumes rdy: "list_ready E (scopedFilter E c) 200 C w" and kind: "kind \<in> set allKinds"
  shows "\<exists>out w' st. StatsScoped E (engineLifecycle E cfg) c w = Some (Inr out, w') \<and> mget out kind = Some st
    \<and> st_Count st = repeats 200 C kind * length (tier_listing E kind (scopedFilter E c) w)"
proof -
  obtain al t where l: "listAllScoped E (engineLifecycle E cfg) c 200 w = Some (Inr al, w\<lparr>tick := t\<rparr>)" "mwf al"
      and al: "mget al kind = Some (concat (replicate (repeats 200 C kind) (C kind)))"
    using listAllScoped_engines [OF rdy, of cfg] kind by auto
  have C: "tier_listing E kind (scopedFilter E c) w = C kind" using rdy kind by (simp add: list_ready_def)
  have mp: "mget (map (\<lambda>(k, v). (k, f k v)) m) k = map_option (f k) (mget m k)"
    for f :: "Kind \<Rightarrow> MemoryItem list \<Rightarrow> Stats" and m k
    by (induction m) auto
  have sh: "mget (shuffle r al) kind = Some (concat (replicate (repeats 200 C kind) (C kind)))" for r
    using fun_cong [OF mget_eq_mset [OF _ l(2)], of "shuffle r al" kind] l(2) al by simp
  show ?thesis using l(1) C
    by (simp add: StatsScoped_def time_Now_def go_range_def split_beta Let_def mp sh scopedStats_def length_repeated)
qed

theorem scoped_stats_count_witness:
  "\<exists>out w' st. StatsScoped sampleEnv (engineLifecycle sampleEnv \<lparr>observer = None\<rparr>) sampleCtx twoSys = Some (Inr out, w')
    \<and> mget out KindWorking = Some st \<and> st_Count st = 2"
proof -
  let ?C = "\<lambda>k. tier_listing sampleEnv k zeroFilter twoSys"
  have rdy: "list_ready sampleEnv (scopedFilter sampleEnv sampleCtx) 200 ?C twoSys" by (rule twoSys_ready) simp
  have "repeats 200 ?C KindWorking = 1"
    by (rule repeats_one) (auto simp: allKinds_def twoSys_listing)
  then show ?thesis
    using scoped_stats_count [OF rdy, of KindWorking "\<lparr>observer = None\<rparr>"]
    by (simp add: allKinds_def twoSys_filter twoSys_listing numeral_2_eq_2)
qed

lemma length_filter_repeat: "length (filter P (concat (replicate m xs))) = m * length (filter P xs)"
  by (induction m) simp_all

text \<open>
  Consolidating a scope without a minimum age: when it reports success, the number it
  returns is the number of eligible working items at or above the threshold, times the
  repetitions of the enumeration, so an item may be promoted more than once; the working and
  the semantic memory and all metadata are untouched.
\<close>

theorem consolidate_scoped_count:
  assumes rdy: "list_ready E (scopedFilter E c) 200 C w" and age: "co_MinAge opts \<le> 0"
    and run: "ConsolidateScoped E (engineLifecycle E cfg) c opts w = Some ((n, None), w')"
  shows "n = int (repeats 200 C KindWorking * length (filter (\<lambda>it. \<not> f_lt (Importance it)
        (co_Threshold (defaultThreshold opts))) (tier_listing E KindWorking (scopedFilter E c) w)))
    \<and> heap w' = heap w \<and> (\<forall>k. k \<noteq> KindEpisodic \<longrightarrow> tier_view k w' = tier_view k w) \<and> sys_inv w'"
proof -
  obtain al t where l: "listAllScoped E (engineLifecycle E cfg) c 200 w = Some (Inr al, w\<lparr>tick := t\<rparr>)"
      and al: "itemsFor al KindWorking = concat (replicate (repeats 200 C KindWorking) (C KindWorking))"
    using listAllScoped_engines [OF rdy, of cfg] by (auto simp: itemsFor_def allKinds_def)
  have inv: "sys_inv w" and C: "tier_listing E KindWorking (scopedFilter E c) w = C KindWorking"
    using rdy by (simp_all add: list_ready_def allKinds_def)
  let ?P = "\<lambda>it. \<not> f_lt (Importance it) (co_Threshold (defaultThreshold opts))"
  have age': "co_MinAge (defaultThreshold opts) \<le> 0" using age by (simp add: defaultThreshold_def)
  obtain w1 where loop: "consolidate_scoped_loop E (engineManager E) c (defaultThreshold opts)
      (itemsFor al KindWorking) 0 (w\<lparr>tick := t\<rparr>) = ((n, None), w1)"
    and w': "w' = emit (lifecycle_observer (engineLifecycle E cfg)) EventConsolidatedTotal [(''n'', AInt n)] w1"
    using run l by (auto simp: ConsolidateScoped_def Let_def split: prod.splits option.splits)
  have "sys_inv (w\<lparr>tick := t\<rparr>)" using inv by simp
  from consolidate_loop_count [OF this age' loop]
  have r: "n = int (length (filter ?P (itemsFor al KindWorking)))" "heap w1 = heap w" "sys_inv w1"
      "\<forall>k. k \<noteq> KindEpisodic \<longrightarrow> tier_view k w1 = tier_view k w" by simp_all
  have cnt: "n = int (repeats 200 C KindWorking * length (filter ?P (tier_listing E KindWorking (scopedFilter E c) w)))"
    unfolding r(1) al length_filter_repeat C by (rule refl)
  show ?thesis
  proof (intro conjI)
    show "heap w' = heap w" "sys_inv w'" using r(2,3) w' by simp_all
    show "\<forall>k. k \<noteq> KindEpisodic \<longrightarrow> tier_view k w' = tier_view k w" using r(4) w' by simp
  qed (rule cnt)
qed

theorem consolidate_scoped_count_witness:
  "\<exists>n w'. ConsolidateScoped sampleEnv (engineLifecycle sampleEnv \<lparr>observer = None\<rparr>) sampleCtx
      \<lparr>co_Threshold = Fin 1, co_MinAge = 0\<rparr> twoSys = Some ((n, None), w') \<and> n = 0"
proof -
  let ?C = "\<lambda>k. tier_listing sampleEnv k zeroFilter twoSys"
  let ?o = "\<lparr>co_Threshold = Fin 1, co_MinAge = 0\<rparr>"
  have rdy: "list_ready sampleEnv (scopedFilter sampleEnv sampleCtx) 200 ?C twoSys" by (rule twoSys_ready) simp
  have one: "repeats 200 ?C KindWorking = 1"
    by (rule repeats_one) (auto simp: allKinds_def twoSys_listing)
  obtain al t where l: "listAllScoped sampleEnv (engineLifecycle sampleEnv \<lparr>observer = None\<rparr>) sampleCtx 200 twoSys
      = Some (Inr al, twoSys\<lparr>tick := t\<rparr>)" "itemsFor al KindWorking = ?C KindWorking"
    using listAllScoped_engines [OF rdy, of "\<lparr>observer = None\<rparr>"] one by (auto simp: itemsFor_def allKinds_def)
  have d: "defaultThreshold ?o = ?o" by (simp add: defaultThreshold_def f_le_def)
  obtain n w' where "ConsolidateScoped sampleEnv (engineLifecycle sampleEnv \<lparr>observer = None\<rparr>) sampleCtx ?o twoSys
      = Some ((n, None), w')"
    using l by (simp add: ConsolidateScoped_def d twoSys_listing)
  then show ?thesis
    using consolidate_scoped_count [OF rdy, of ?o "\<lparr>observer = None\<rparr>" n w']
    by (simp add: d twoSys_filter twoSys_listing)
qed

end
