(* ===== verification/Consolidator.thy ===== *)
theory Consolidator
  imports ScopedLifecycle
begin

text \<open>
  \<^verbatim>\<open>consolidator.go\<close>: the promotion of working items to the episodic memory. The clone gets
  a metadata map of its own; the stamps are written into the map of the stored working item by
  an update, and keep items that have a map from being promoted again.
\<close>


section \<open>Construction, enumeration, stamps\<close>

definition MetaKeyConsolidatedAt :: string where "MetaKeyConsolidatedAt = ''_consolidated_at''"
definition MetaKeyPromotedFrom :: string where "MetaKeyPromotedFrom = ''_promoted_from''"
definition MetaKeyPromotionCount :: string where "MetaKeyPromotionCount = ''_promotion_count''"

record 's Consolidator =
  cs_mgr :: "'s Manager"
  cs_cfg :: config

definition NewConsolidator :: "'s Manager option \<Rightarrow> Option option list \<Rightarrow> error + 's Consolidator" where
  "NewConsolidator inner opts = (case inner of
       None \<Rightarrow> Inl ErrManagerRequired
     | Some mgr \<Rightarrow> Inr \<lparr>cs_mgr = mgr, cs_cfg = newConfig opts\<rparr>)"

definition consolidator_observer :: "'s Consolidator \<Rightarrow> Observer" where
  "consolidator_observer s = observer (cs_cfg s)"

definition listAllPaged :: "env \<Rightarrow> 'z world_scheme Consolidator \<Rightarrow> ctx \<Rightarrow> int \<Rightarrow> 'z world_scheme
    \<Rightarrow> ((error + (Kind, MemoryItem list) gomap) \<times> 'z world_scheme) option" where
  "listAllPaged E s c pageSize w =
     (let pageSize = (if pageSize \<le> 0 then 200 else pageSize)
      in paged_loop E (\<lambda>cursors w. ListAll (cs_mgr s) c zeroFilter pageSize cursors w) [] [] w)"

definition countIn :: "env \<Rightarrow> meta option \<Rightarrow> int" where
  "countIn E m = (case m of
       None \<Rightarrow> 0
     | Some m \<Rightarrow> (case m MetaKeyPromotionCount of
         Some (AInt v) \<Rightarrow> v
       | Some (AInt64 v) \<Rightarrow> v
       | Some (AFloat f) \<Rightarrow> f_to_int (float_oor E) f
       | _ \<Rightarrow> 0))"

definition promotionCountOf :: "env \<Rightarrow> meta list \<Rightarrow> MemoryItem \<Rightarrow> int" where
  "promotionCountOf E h it = countIn E (meta_of h it)"

text \<open>The update of the source: the sum is a machine integer.\<close>

definition stampSource :: "env \<Rightarrow> time \<Rightarrow> updater" where
  "stampSource E now m h =
     (let (m, h) = meta_put MetaKeyConsolidatedAt (ATime now) m h
      in meta_put MetaKeyPromotionCount (AInt (wrap64 (promotionCountOf E h m + 1))) m h)"

text \<open>The clone, with a copy of the metadata map in which its origin is noted.\<close>

definition cloneFor :: "MemoryItem \<Rightarrow> meta list \<Rightarrow> MemoryItem \<times> meta list" where
  "cloneFor it h =
     (let cp = (case meta_of h it of None \<Rightarrow> Map.empty | Some m \<Rightarrow> m)
      in (it\<lparr>ID := '''', Metadata := Some (length h)\<rparr>, h @ [cp(MetaKeyPromotedFrom \<mapsto> AString (ID it))]))"


section \<open>Consolidation\<close>

definition skipped :: "env \<Rightarrow> ConsolidateOptions \<Rightarrow> time \<Rightarrow> meta list \<Rightarrow> MemoryItem \<Rightarrow> bool" where
  "skipped E opts now h it \<longleftrightarrow>
     f_lt (Importance it) (co_Threshold opts)
     \<or> co_MinAge opts > 0 \<and> time_Sub now (CreatedAt it) < co_MinAge opts
     \<or> promotionCountOf E h it \<ge> 1"

fun consolidate_loop :: "env \<Rightarrow> 'z world_scheme Consolidator \<Rightarrow> ctx \<Rightarrow> ConsolidateOptions \<Rightarrow> time \<Rightarrow> MemoryItem list
    \<Rightarrow> int \<Rightarrow> 'z world_scheme \<Rightarrow> (int \<times> error option) \<times> 'z world_scheme" where
  "consolidate_loop E s c opts now [] cnt w = ((cnt, None), w)"
| "consolidate_loop E s c opts now (it # its) cnt w =
     (if skipped E opts now (heap w) it then consolidate_loop E s c opts now its cnt w
      else
        let (clone, h) = cloneFor it (heap w)
        in case Manager_Add (cs_mgr s) c KindEpisodic clone (w\<lparr>heap := h\<rparr>) of
             (Inl err, w) \<Rightarrow> ((cnt, Some (ErrWrap ''memory: consolidate add'' err)), w)
           | (Inr _, w) \<Rightarrow>
               let w = emit (consolidator_observer s) EventAddTotal [(''kind'', AKind KindEpisodic)] w
               in case Manager_Update (cs_mgr s) c KindWorking (ID it) (stampSource E now) w of
                    (Inl err, w) \<Rightarrow> ((cnt, Some (ErrWrap ''memory: consolidate stamp source'' err)), w)
                  | (Inr _, w) \<Rightarrow> consolidate_loop E s c opts now its (cnt + 1) w)"

definition Consolidate :: "env \<Rightarrow> 'z world_scheme Consolidator \<Rightarrow> ctx \<Rightarrow> ConsolidateOptions \<Rightarrow> 'z world_scheme
    \<Rightarrow> ((int \<times> error option) \<times> 'z world_scheme) option" where
  "Consolidate E s c opts w =
     (let opts = defaultThreshold opts
      in case listAllPaged E s c 200 w of
           None \<Rightarrow> None
         | Some (Inl err, w) \<Rightarrow> Some ((0, Some (ErrWrap ''memory: consolidate list'' err)), w)
         | Some (Inr allItems, w) \<Rightarrow>
             let (now, w) = time_Now E w
             in case consolidate_loop E s c opts now (itemsFor allItems KindWorking) 0 w of
                  ((cnt, Some err), w) \<Rightarrow> Some ((cnt, Some err), w)
                | ((cnt, None), w) \<Rightarrow>
                    Some ((cnt, None), emit (consolidator_observer s) EventConsolidatedTotal [(''n'', AInt cnt)] w))"


section \<open>Export\<close>

definition vectorBytes :: "Snapshot \<Rightarrow> int" where
  "vectorBytes snap = (\<Sum>si \<leftarrow> sn_Items snap. int (length (slice (si_Vector si))) * 4)"

fun snapshot_events :: "Observer \<Rightarrow> (Kind \<times> Snapshot) list \<Rightarrow> 'z world_scheme \<Rightarrow> 'z world_scheme" where
  "snapshot_events ob [] w = w"
| "snapshot_events ob ((kind, snap) # snaps) w =
     (let w = emit ob EventSnapshotItems [(''kind'', AKind kind), (''n'', AInt (int (length (sn_Items snap))))] w;
          w = emit ob EventSnapshotVectorsBytes [(''kind'', AKind kind), (''bytes'', AInt (vectorBytes snap))] w
      in snapshot_events ob snaps w)"

definition Consolidator_ExportAll :: "env \<Rightarrow> 'z world_scheme Consolidator \<Rightarrow> ctx \<Rightarrow> string \<Rightarrow> 'z world_scheme
    \<Rightarrow> (error + (Kind, Snapshot) gomap) \<times> 'z world_scheme" where
  "Consolidator_ExportAll E s c dir w = (case Manager_ExportAll E (cs_mgr s) c dir w of
       ((snaps, Some err), w) \<Rightarrow> (Inl err, w)
     | ((snaps, None), w) \<Rightarrow>
         let (ordered, w) = go_range E snaps w
         in (Inr snaps, snapshot_events (consolidator_observer s) ordered w))"


section \<open>Stamps: facts\<close>

lemma keys_distinct [simp]:
  "MetaKeyConsolidatedAt \<noteq> MetaKeyPromotionCount" "MetaKeyPromotedFrom \<noteq> MetaKeyPromotionCount"
  "MetaKeyPromotionCount \<noteq> MetaKeyConsolidatedAt" "MetaKeyPromotionCount \<noteq> MetaKeyPromotedFrom"
  "MetaKeyPromotedFrom \<noteq> MetaKeyConsolidatedAt" "MetaKeyConsolidatedAt \<noteq> MetaKeyPromotedFrom"
  by (simp_all add: MetaKeyConsolidatedAt_def MetaKeyPromotedFrom_def MetaKeyPromotionCount_def)

lemma countIn_upd:
  "k \<noteq> MetaKeyPromotionCount \<Longrightarrow> countIn E (Some (m(k \<mapsto> v))) = countIn E (Some m)"
  "countIn E (Some (m(MetaKeyPromotionCount \<mapsto> AInt n))) = n" "countIn E (Some Map.empty) = 0" "countIn E None = 0"
  by (simp_all add: countIn_def)

text \<open>No map records a negative number of promotions.\<close>

definition counts_ok :: "env \<Rightarrow> meta list \<Rightarrow> bool" where
  "counts_ok E h \<longleftrightarrow> (\<forall>m \<in> set h. 0 \<le> countIn E (Some m))"

lemma counts_at: "counts_ok E h \<Longrightarrow> 0 \<le> promotionCountOf E h it"
  by (cases "Metadata it") (auto simp: counts_ok_def promotionCountOf_def meta_of_def meta_at_def countIn_upd)

lemma keepsID_stampSource: "keepsID (stampSource E now)"
  by (simp add: keepsID_def stampSource_def meta_put_def Let_def split: option.splits)

text \<open>What the stamp does to an unstamped item with a valid map, and to the maps of the others.\<close>

lemma stampSource_result:
  assumes "valid_ref h it" and "promotionCountOf E h it = 0" and "stampSource E now it h = (it', h')"
  shows "promotionCountOf E h' it' = 1" and "it' = it\<lparr>Metadata := Metadata it'\<rparr>" and "valid_ref h' it'"
    and "length h \<le> length h'" and "counts_ok E h \<Longrightarrow> counts_ok E h'"
    and "r < length h \<Longrightarrow> 1 \<le> countIn E (Some (meta_at h r)) \<Longrightarrow> 1 \<le> countIn E (Some (meta_at h' r))"
    and "r < length h \<Longrightarrow> meta_at h' r MetaKeyPromotedFrom = meta_at h r MetaKeyPromotedFrom"
    and "r < length h \<Longrightarrow> Metadata it \<noteq> Some r \<Longrightarrow> meta_at h' r = meta_at h r"
proof -
  have one: "wrap64 (0 + 1) = 1" by (simp add: wrap64_def)
  consider "Metadata it = None" | r where "Metadata it = Some r" "r < length h"
    using assms(1) by (auto simp: valid_ref_def split: option.splits)
  note two = this
  have all: "promotionCountOf E h' it' = 1 \<and> it' = it\<lparr>Metadata := Metadata it'\<rparr> \<and> valid_ref h' it' \<and> length h \<le> length h'
    \<and> (counts_ok E h \<longrightarrow> counts_ok E h')
    \<and> (\<forall>r. r < length h \<longrightarrow> (1 \<le> countIn E (Some (meta_at h r)) \<longrightarrow> 1 \<le> countIn E (Some (meta_at h' r)))
         \<and> meta_at h' r MetaKeyPromotedFrom = meta_at h r MetaKeyPromotedFrom
         \<and> (Metadata it \<noteq> Some r \<longrightarrow> meta_at h' r = meta_at h r))"
    using two
  proof cases
    case 1
    let ?m = "[MetaKeyConsolidatedAt \<mapsto> ATime now, MetaKeyPromotionCount \<mapsto> AInt 1]"
    have "it' = it\<lparr>Metadata := Some (length h)\<rparr>" "h' = h @ [?m]"
      using assms(3) 1 one
      by (auto simp: stampSource_def meta_put_def Let_def promotionCountOf_def meta_of_def meta_at_def countIn_upd)
    moreover have "countIn E (Some ?m) = 1" by (rule countIn_upd(2))
    ultimately show ?thesis
      by (auto simp: promotionCountOf_def meta_of_def meta_at_def valid_ref_def counts_ok_def nth_append)
  next
    case (2 r)
    have z: "countIn E (Some (meta_at h r)) = 0" using assms(2) 2 by (simp add: promotionCountOf_def meta_of_def)
    let ?m = "(meta_at h r)(MetaKeyConsolidatedAt \<mapsto> ATime now, MetaKeyPromotionCount \<mapsto> AInt 1)"
    have e: "it' = it" "h' = h[r := ?m]"
      using assms(3) 2 one z
      by (auto simp: stampSource_def meta_put_def Let_def promotionCountOf_def meta_of_def countIn_upd)
    have c: "countIn E (Some ?m) = 1" by (rule countIn_upd(2))
    show ?thesis unfolding e
      using 2 c by (auto simp: promotionCountOf_def meta_of_def valid_ref_def counts_ok_def dest!: subsetD [OF set_update_subset_insert])
  qed
  show "promotionCountOf E h' it' = 1" "it' = it\<lparr>Metadata := Metadata it'\<rparr>" "valid_ref h' it'" "length h \<le> length h'"
    "counts_ok E h \<Longrightarrow> counts_ok E h'"
    "r < length h \<Longrightarrow> 1 \<le> countIn E (Some (meta_at h r)) \<Longrightarrow> 1 \<le> countIn E (Some (meta_at h' r))"
    "r < length h \<Longrightarrow> meta_at h' r MetaKeyPromotedFrom = meta_at h r MetaKeyPromotedFrom"
    "r < length h \<Longrightarrow> Metadata it \<noteq> Some r \<Longrightarrow> meta_at h' r = meta_at h r"
    using all by blast+
qed

lemma cloneFor_result:
  assumes "cloneFor it h = (clone, h')"
  shows "ID clone = ''''" and "\<exists>m. h' = h @ [m]" and "counts_ok E h \<Longrightarrow> counts_ok E h'"
proof -
  obtain m where h': "h' = h @ [m(MetaKeyPromotedFrom \<mapsto> AString (ID it))]"
      and m: "m = (case meta_of h it of None \<Rightarrow> Map.empty | Some m \<Rightarrow> m)"
    using assms by (auto simp: cloneFor_def Let_def)
  show "ID clone = ''''" using assms by (auto simp: cloneFor_def Let_def)
  show "\<exists>m. h' = h @ [m]" using h' by blast
  show "counts_ok E h'" if "counts_ok E h"
    using counts_at [OF that, of it] that m
    by (auto simp: h' counts_ok_def promotionCountOf_def countIn_upd simp del: fun_upd_apply split: option.splits)
qed

text \<open>Heaps only grow, what is promoted stays promoted, and what notes its origin keeps the note.\<close>

definition stays :: "env \<Rightarrow> meta list \<Rightarrow> meta list \<Rightarrow> bool" where
  "stays E h h' \<longleftrightarrow> length h \<le> length h'
     \<and> (\<forall>r < length h. (1 \<le> countIn E (Some (meta_at h r)) \<longrightarrow> 1 \<le> countIn E (Some (meta_at h' r)))
         \<and> meta_at h' r MetaKeyPromotedFrom = meta_at h r MetaKeyPromotedFrom)"

lemma stays_refl: "stays E h h"
  by (simp add: stays_def)

lemma stays_trans: "stays E h h1 \<Longrightarrow> stays E h1 h2 \<Longrightarrow> stays E h h2"
  by (auto simp: stays_def)

lemma stays_append: "stays E h (h @ h')"
  by (simp add: stays_def)

lemma stays_item:
  assumes "stays E h h'" and "valid_ref h it"
  shows "valid_ref h' it" and "1 \<le> promotionCountOf E h it \<Longrightarrow> 1 \<le> promotionCountOf E h' it"
  using assms
  by (auto simp: stays_def valid_ref_def promotionCountOf_def meta_of_def countIn_upd split: option.splits)


section \<open>The loop on the engines\<close>

definition engineConsolidator :: "env \<Rightarrow> config \<Rightarrow> sys Consolidator" where
  "engineConsolidator E cfg = \<lparr>cs_mgr = engineManager E, cs_cfg = cfg\<rparr>"

text \<open>What the loop relies on: the items it is given are stored, with the same metadata maps.\<close>

definition loop_ready :: "env \<Rightarrow> MemoryItem list \<Rightarrow> sys \<Rightarrow> bool" where
  "loop_ready E its w \<longleftrightarrow> sys_inv w \<and> counts_ok E (heap w)
     \<and> (\<forall>i jt. working_view w i = Some jt \<longrightarrow> valid_ref (heap w) jt)
     \<and> (\<forall>it \<in> set its. \<exists>jt. working_view w (ID it) = Some jt \<and> Metadata jt = Metadata it)"

text \<open>The stored item after a promotion, and the copy of it in the episodic memory.\<close>

definition promoted :: "MemoryItem \<Rightarrow> MemoryItem \<Rightarrow> bool" where
  "promoted jt jt' \<longleftrightarrow> ID jt' = ID jt \<and> Content jt' = Content jt \<and> Tags jt' = Tags jt \<and> CreatedAt jt' = CreatedAt jt
     \<and> Importance jt' = clampUnit (Importance jt)"

definition copyOf :: "meta list \<Rightarrow> MemoryItem \<Rightarrow> MemoryItem \<Rightarrow> bool" where
  "copyOf h it et \<longleftrightarrow> Content et = Content it \<and> Tags et = Tags it \<and> Importance et = clampUnit (Importance it)
     \<and> (\<exists>r. Metadata et = Some r \<and> r < length h \<and> meta_at h r MetaKeyPromotedFrom = Some (AString (ID it)))"

lemma copyOf_stays: "copyOf h it et \<Longrightarrow> stays E h h' \<Longrightarrow> copyOf h' it et"
  by (auto simp: copyOf_def stays_def)

lemma copyOf_clone:
  assumes "cloneFor it h = (clone, h')"
  shows "copyOf h' it ((stampAdded t clone)\<lparr>ID := i\<rparr>)"
proof -
  let ?m = "case meta_of h it of None \<Rightarrow> Map.empty | Some m \<Rightarrow> m"
  have "clone = it\<lparr>ID := '''', Metadata := Some (length h)\<rparr>" "h' = h @ [?m(MetaKeyPromotedFrom \<mapsto> AString (ID it))]"
    using assms by (simp_all add: cloneFor_def Let_def)
  then show ?thesis by (simp add: copyOf_def stampAdded_def meta_at_def Let_def)
qed

lemma promotion_step:
  assumes rdy: "loop_ready E (it # its) w" and fresh: "promotionCountOf E (heap w) it < 1"
    and clone: "cloneFor it (heap w) = (clone, h)"
    and add: "Manager_Add (engineManager E) c KindEpisodic clone (w\<lparr>heap := h\<rparr>) = (Inr i, w1)"
    and upd: "Manager_Update (engineManager E) c KindWorking (ID it) (stampSource E now) (emit ob nm atts w1) = (u, w2)"
    and dist: "ID it \<notin> ID ` set its"
  shows "loop_ready E its w2 \<and> stays E (heap w) (heap w2) \<and> semantic_view w2 = semantic_view w
    \<and> (\<forall>r < length (heap w). Metadata it \<noteq> Some r \<longrightarrow> meta_at (heap w2) r = meta_at (heap w) r)
    \<and> (\<exists>et. episodic_view w2 = (episodic_view w)(i \<mapsto> et) \<and> copyOf (heap w2) it et)
    \<and> (\<exists>jt jt'. working_view w (ID it) = Some jt \<and> working_view w2 = (working_view w)(ID it \<mapsto> jt')
         \<and> promoted jt jt' \<and> 1 \<le> promotionCountOf E (heap w2) jt' \<and> valid_ref (heap w2) jt')"
proof -
  obtain jt where jt: "working_view w (ID it) = Some jt" "Metadata jt = Metadata it" "valid_ref (heap w) jt"
    using rdy by (auto simp: loop_ready_def)
  have inv: "sys_inv (w\<lparr>heap := h\<rparr>)" "counts_ok E (heap w)"
    using rdy by (simp_all add: loop_ready_def sys_inv_def working_inv_def episodic_inv_def semantic_inv_def)
  obtain m where h: "h = heap w @ [m]" using cloneFor_result(2) [OF clone] by blast
  have cok: "counts_ok E h" by (rule cloneFor_result(3) [OF clone inv(2)])
  let ?w1 = "emit ob nm atts w1"
  have ke: "KindEpisodic \<in> set allKinds" by (simp add: allKinds_def)
  from engine_add [OF inv(1) ke add] have a: "sys_inv w1" "heap w1 = h"
      "\<And>k. k \<noteq> KindEpisodic \<Longrightarrow> tier_view k w1 = tier_view k (w\<lparr>heap := h\<rparr>)" by simp_all
  have "episodic_view (w\<lparr>heap := h\<rparr>) = episodic_view w" by (simp add: episodic_view_def)
  then obtain ta where ep: "episodic_view w1 = (episodic_view w)(i \<mapsto> (stampAdded ta clone)\<lparr>ID := i\<rparr>)"
    using engine_added [OF inv(1) ke add] unfolding added_def tier_view_simps by auto
  have a': "working_view ?w1 = working_view w" "semantic_view ?w1 = semantic_view w" "sys_inv ?w1" "heap ?w1 = h"
      "episodic_view ?w1 = episodic_view w1"
    using emit_views(1) [of KindWorking ob nm atts w1] emit_views(1) [of KindSemantic ob nm atts w1]
      emit_views(1) [of KindEpisodic ob nm atts w1] a(1,2) a(3) [of KindWorking] a(3) [of KindSemantic]
    by (simp_all add: working_view_def semantic_view_def)
  have tier: "mem_Update (workingMemory E) c (ID it) (stampSource E now) ?w1 = (u, w2)"
    using upd by (simp add: Manager_Update_def)
  obtain st h2 where st: "stampSource E now jt h = (st, h2)" by fastforce
  have wi: "working_inv ?w1" using a'(3) by (simp add: sys_inv_def)
  from working_tier.update_hit [OF wi keepsID_stampSource, of "ID it" jt E c E now] tier jt(1) a'(1-4) st
  obtain t where v: "working_view w2 = (working_view w)(ID it \<mapsto> st\<lparr>AccessedAt := t, Importance := clampUnit (Importance st)\<rparr>)"
      and h2: "heap w2 = h2" and inv2: "working_inv w2"
      and fr: "(wm_opts (wrk w2), epi w2, sem w2, events w2) = (wm_opts (wrk ?w1), epi ?w1, sem ?w1, events ?w1)"
    by auto
  have vr: "valid_ref h jt" using jt(3) h by (auto simp: valid_ref_def split: option.splits)
  have "promotionCountOf E h jt = promotionCountOf E (heap w) it"
    using jt(2,3) h by (auto simp: promotionCountOf_def meta_of_def valid_ref_def split: option.splits)
  then have z: "promotionCountOf E h jt = 0" using fresh counts_at [OF inv(2), of it] by simp
  note s = stampSource_result [OF vr z st]
  have hs: "stays E h h2" using s(4,6,7) by (simp add: stays_def)
  then have hh: "stays E (heap w) (heap w2)" unfolding h2 using h stays_append stays_trans by blast
  let ?jt = "st\<lparr>AccessedAt := t, Importance := clampUnit (Importance st)\<rparr>"
  have p: "promoted jt ?jt" using s(2) unfolding promoted_def by (metis (no_types) MemoryItem.select_convs MemoryItem.surjective MemoryItem.update_convs)
  have c1: "promotionCountOf E (heap w2) ?jt = 1" "valid_ref (heap w2) ?jt"
    using s(1,3) h2 by (simp_all add: promotionCountOf_def meta_of_def valid_ref_def)
  have all: "sys_inv w2" "semantic_view w2 = semantic_view w" "episodic_view w2 = episodic_view w1"
    using working_frame [OF fr a'(3) inv2] a'(2,5) fr by (auto simp: semantic_view_def episodic_view_def)
  have others: "meta_at (heap w2) r = meta_at (heap w) r" if "r < length (heap w)" "Metadata it \<noteq> Some r" for r
    using s(8) [of r] that jt(2) h2 h by (simp add: meta_at_def nth_append)
  have copy: "\<exists>et. episodic_view w2 = (episodic_view w)(i \<mapsto> et) \<and> copyOf (heap w2) it et"
    unfolding all(3) ep h2 using copyOf_stays [OF copyOf_clone [OF clone] hs] by blast
  have refs: "valid_ref (heap w2) x" if "working_view w2 j = Some x" for j x
    using that v c1(2) rdy stays_item(1) [OF hh] by (auto simp: loop_ready_def split: if_splits)
  have rest: "\<exists>jt. working_view w2 (ID x) = Some jt \<and> Metadata jt = Metadata x" if x: "x \<in> set its" for x
  proof -
    have "ID x \<noteq> ID it" using dist x by (metis imageI)
    then show ?thesis using rdy x v by (auto simp: loop_ready_def)
  qed
  have "loop_ready E its w2" unfolding loop_ready_def using all(1) s(5) cok h2 refs rest by blast
  moreover have "1 \<le> promotionCountOf E (heap w2) ?jt" using c1(1) by simp
  ultimately show ?thesis using hh all(2) others copy jt(1) v p c1(2) by blast
qed

text \<open>
  What a run of the loop over \<open>its\<close> has done: it promoted the items \<open>ps\<close>. These are the
  items that pass the conditions of the code, except that of two items with the same metadata
  map only the first is promoted, whose stamp the second then carries. For each of them the
  episodic memory got a copy, under an identifier of its own choice, and the stored item a stamp.
\<close>

definition consolidated :: "env \<Rightarrow> ConsolidateOptions \<Rightarrow> time \<Rightarrow> MemoryItem list \<Rightarrow> sys \<Rightarrow> sys \<Rightarrow> MemoryItem list \<Rightarrow> bool" where
  "consolidated E opts now its w w' ps \<longleftrightarrow>
     set ps \<subseteq> {it \<in> set its. \<not> skipped E opts now (heap w) it} \<and> distinct (map ID ps)
     \<and> (\<forall>it \<in> set its. \<not> skipped E opts now (heap w) it \<longrightarrow>
          it \<in> set ps \<or> (\<exists>p \<in> set ps. Metadata p = Metadata it \<and> Metadata it \<noteq> None))
     \<and> (\<exists>ids cs. length ids = length ps \<and> list_all2 (copyOf (heap w')) ps cs
          \<and> episodic_view w' = (episodic_view w)(ids [\<mapsto>] cs))
     \<and> (\<forall>it \<in> set ps. \<exists>jt jt'. working_view w (ID it) = Some jt \<and> working_view w' (ID it) = Some jt'
          \<and> promoted jt jt' \<and> 1 \<le> promotionCountOf E (heap w') jt')
     \<and> (\<forall>i. i \<notin> ID ` set ps \<longrightarrow> working_view w' i = working_view w i)
     \<and> semantic_view w' = semantic_view w
     \<and> stays E (heap w) (heap w')"

lemma consolidated_Nil: "consolidated E opts now [] w w []"
  by (auto simp: consolidated_def stays_refl)

lemma consolidated_skip:
  assumes "skipped E opts now (heap w) it" and "consolidated E opts now its w w' ps"
  shows "consolidated E opts now (it # its) w w' ps"
  using assms unfolding consolidated_def by auto

lemma consolidated_promote:
  assumes fresh: "\<not> skipped E opts now (heap w) it" and dist: "ID it \<notin> ID ` set its"
    and refs: "\<forall>x \<in> set its. valid_ref (heap w) x"
    and step: "stays E (heap w) (heap w2)" "semantic_view w2 = semantic_view w"
      "\<forall>r < length (heap w). Metadata it \<noteq> Some r \<longrightarrow> meta_at (heap w2) r = meta_at (heap w) r"
      "episodic_view w2 = (episodic_view w)(i \<mapsto> et)" "copyOf (heap w2) it et"
      "working_view w (ID it) = Some jt" "working_view w2 = (working_view w)(ID it \<mapsto> jt')"
      "promoted jt jt'" "1 \<le> promotionCountOf E (heap w2) jt'" "valid_ref (heap w2) jt'"
    and rest: "consolidated E opts now its w2 w' ps"
  shows "consolidated E opts now (it # its) w w' (it # ps)"
proof -
  have ps: "set ps \<subseteq> {x \<in> set its. \<not> skipped E opts now (heap w2) x}" "distinct (map ID ps)"
      "semantic_view w' = semantic_view w2" "stays E (heap w2) (heap w')"
    and some: "\<forall>x \<in> set its. \<not> skipped E opts now (heap w2) x \<longrightarrow>
          x \<in> set ps \<or> (\<exists>p \<in> set ps. Metadata p = Metadata x \<and> Metadata x \<noteq> None)"
    and new: "\<forall>x \<in> set ps. \<exists>jt jt'. working_view w2 (ID x) = Some jt \<and> working_view w' (ID x) = Some jt'
          \<and> promoted jt jt' \<and> 1 \<le> promotionCountOf E (heap w') jt'"
    and old: "\<And>j. j \<notin> ID ` set ps \<Longrightarrow> working_view w' j = working_view w2 j"
    using rest unfolding consolidated_def by simp_all
  obtain ids cs where ids: "length ids = length ps" "list_all2 (copyOf (heap w')) ps cs"
      "episodic_view w' = (episodic_view w2)(ids [\<mapsto>] cs)" using rest unfolding consolidated_def by blast
  have not_it: "ID it \<notin> ID ` set ps" using dist ps(1) by auto
  have skip: "skipped E opts now (heap w2) x" if "skipped E opts now (heap w) x" "x \<in> set its" for x
    using that stays_item(2) [OF step(1), of x] refs by (auto simp: skipped_def)
  have shared: "Metadata it = Metadata x \<and> Metadata x \<noteq> None"
    if "x \<in> set its" "skipped E opts now (heap w2) x" "\<not> skipped E opts now (heap w) x" for x
  proof (rule ccontr)
    assume "\<not> (Metadata it = Metadata x \<and> Metadata x \<noteq> None)"
    then have "promotionCountOf E (heap w2) x = promotionCountOf E (heap w) x"
      using step(3) refs that(1) by (cases "Metadata x") (auto simp: promotionCountOf_def meta_of_def valid_ref_def)
    then show False using that(2,3) by (simp add: skipped_def)
  qed
  have epi: "episodic_view w' = (episodic_view w)((i # ids) [\<mapsto>] (et # cs))" using ids(3) step(4) by simp
  have copies: "list_all2 (copyOf (heap w')) (it # ps) (et # cs)" using ids(2) copyOf_stays [OF step(5) ps(4)] by simp
  have here: "working_view w' (ID it) = Some jt'" using old [OF not_it] step(7) by simp
  have cnt: "1 \<le> promotionCountOf E (heap w') jt'" by (rule stays_item(2) [OF ps(4) step(10,9)])
  have later: "\<exists>jt jt'. working_view w (ID x) = Some jt \<and> working_view w' (ID x) = Some jt'
      \<and> promoted jt jt' \<and> 1 \<le> promotionCountOf E (heap w') jt'" if "x \<in> set ps" for x
  proof -
    have "ID x \<noteq> ID it" using not_it that by (metis imageI)
    then show ?thesis using bspec [OF new that] step(7) by simp
  qed
  show ?thesis unfolding consolidated_def
  proof (intro conjI ballI impI allI)
    show "set (it # ps) \<subseteq> {x \<in> set (it # its). \<not> skipped E opts now (heap w) x}" using ps(1) skip fresh by auto
    show "distinct (map ID (it # ps))" using ps(2) not_it by simp
    show "x \<in> set (it # ps) \<or> (\<exists>p \<in> set (it # ps). Metadata p = Metadata x \<and> Metadata x \<noteq> None)"
      if "x \<in> set (it # its)" "\<not> skipped E opts now (heap w) x" for x using that some shared [of x] by auto
    show "\<exists>ids cs. length ids = length (it # ps) \<and> list_all2 (copyOf (heap w')) (it # ps) cs
        \<and> episodic_view w' = (episodic_view w)(ids [\<mapsto>] cs)"
      using epi copies ids(1) by (intro exI [of _ "i # ids"] exI [of _ "et # cs"]) simp
    show "\<exists>jt jt'. working_view w (ID x) = Some jt \<and> working_view w' (ID x) = Some jt'
        \<and> promoted jt jt' \<and> 1 \<le> promotionCountOf E (heap w') jt'" if "x \<in> set (it # ps)" for x
      using that here cnt step(6,8) later by auto
    show "working_view w' j = working_view w j" if "j \<notin> ID ` set (it # ps)" for j using that old [of j] step(7) by simp
    show "semantic_view w' = semantic_view w" using ps(3) step(2) by simp
    show "stays E (heap w) (heap w')" by (rule stays_trans [OF step(1) ps(4)])
  qed
qed

lemma consolidate_loop_result:
  assumes "loop_ready E its w" and "distinct (map ID its)"
    and "consolidate_loop E (engineConsolidator E cfg) c opts now its cnt w = ((n, None), w')"
  shows "loop_ready E [] w' \<and> (\<exists>ps. n = cnt + int (length ps) \<and> consolidated E opts now its w w' ps)"
  using assms
proof (induction its arbitrary: cnt w)
  case Nil
  then show ?case by (auto intro!: exI [of _ "[]"] consolidated_Nil)
next
  case (Cons it its)
  have dist: "ID it \<notin> ID ` set its" "distinct (map ID its)" using Cons.prems(2) by auto
  show ?case
  proof (cases "skipped E opts now (heap w) it")
    case True
    have rdy: "loop_ready E its w" using Cons.prems(1) by (simp add: loop_ready_def)
    have run: "consolidate_loop E (engineConsolidator E cfg) c opts now its cnt w = ((n, None), w')"
      using Cons.prems(3) True by simp
    show ?thesis using Cons.IH [OF rdy dist(2) run] consolidated_skip [OF True] by blast
  next
    case False
    obtain clone h where clone: "cloneFor it (heap w) = (clone, h)" by fastforce
    obtain r1 w1 where add: "Manager_Add (engineManager E) c KindEpisodic clone (w\<lparr>heap := h\<rparr>) = (r1, w1)" by fastforce
    let ?w1 = "emit (observer cfg) EventAddTotal [(''kind'', AKind KindEpisodic)] w1"
    obtain r2 w2 where upd: "Manager_Update (engineManager E) c KindWorking (ID it) (stampSource E now) ?w1 = (r2, w2)" by fastforce
    obtain i where r: "r1 = Inr i" "r2 = Inr ()"
        and run: "consolidate_loop E (engineConsolidator E cfg) c opts now its (cnt + 1) w2 = ((n, None), w')"
      using Cons.prems(3) False clone add upd
      by (auto simp: engineConsolidator_def consolidator_observer_def split: sum.splits)
    have fresh: "promotionCountOf E (heap w) it < 1" using False by (simp add: skipped_def)
    from promotion_step [OF Cons.prems(1) fresh clone add [unfolded r] upd dist(1)]
    obtain jt jt' et where rdy: "loop_ready E its w2"
      and st: "stays E (heap w) (heap w2)" "semantic_view w2 = semantic_view w"
        "\<forall>r < length (heap w). Metadata it \<noteq> Some r \<longrightarrow> meta_at (heap w2) r = meta_at (heap w) r"
        "episodic_view w2 = (episodic_view w)(i \<mapsto> et)" "copyOf (heap w2) it et"
        "working_view w (ID it) = Some jt" "working_view w2 = (working_view w)(ID it \<mapsto> jt')"
        "promoted jt jt'" "1 \<le> promotionCountOf E (heap w2) jt'" "valid_ref (heap w2) jt'" by blast
    have refs: "\<forall>x \<in> set its. valid_ref (heap w) x"
    proof
      fix x assume "x \<in> set its"
      then obtain y where "working_view w (ID x) = Some y" "Metadata y = Metadata x" "valid_ref (heap w) y"
        using Cons.prems(1) by (auto simp: loop_ready_def)
      then show "valid_ref (heap w) x" by (simp add: valid_ref_def)
    qed
    obtain ps where "loop_ready E [] w'" "n = cnt + 1 + int (length ps)" "consolidated E opts now its w2 w' ps"
      using Cons.IH [OF rdy dist(2) run] by blast
    then show ?thesis using consolidated_promote [OF False dist(1) refs st] by (intro conjI exI [of _ "it # ps"]) simp_all
  qed
qed

lemma listAllPaged_engines:
  assumes "list_ready E zeroFilter n C w" and "0 < n"
  shows "\<exists>out t. listAllPaged E (engineConsolidator E cfg) c (int n) w = Some (Inr out, w\<lparr>tick := t\<rparr>)
    \<and> itemsFor out KindWorking = concat (replicate (repeats n C KindWorking) (C KindWorking))"
  using engine_paged_loop [OF assms, of c] assms(2)
  by (auto simp: listAllPaged_def engineConsolidator_def itemsFor_def allKinds_def)

text \<open>A consolidation of engines whose listings fit on one page, as a run of the loop.\<close>

lemma Consolidate_engines:
  assumes "list_ready E zeroFilter 200 C w" and "\<forall>k \<in> set allKinds. length (C k) \<le> 200"
  shows "\<exists>t now. Consolidate E (engineConsolidator E cfg) c opts w =
    (case consolidate_loop E (engineConsolidator E cfg) c (defaultThreshold opts) now (C KindWorking) 0 (w\<lparr>tick := t\<rparr>) of
       ((cnt, Some err), w) \<Rightarrow> Some ((cnt, Some err), w)
     | ((cnt, None), w) \<Rightarrow> Some ((cnt, None), emit (observer cfg) EventConsolidatedTotal [(''n'', AInt cnt)] w))"
proof -
  obtain out t where l: "listAllPaged E (engineConsolidator E cfg) c 200 w = Some (Inr out, w\<lparr>tick := t\<rparr>)"
      "itemsFor out KindWorking = concat (replicate (repeats 200 C KindWorking) (C KindWorking))"
    using listAllPaged_engines [OF assms(1), of cfg c] by auto
  have "repeats 200 C KindWorking = 1" by (rule repeats_one) (use assms(2) in \<open>simp_all add: allKinds_def\<close>)
  then have i: "itemsFor out KindWorking = C KindWorking" using l(2) by simp
  show ?thesis
    by (intro exI [of _ "Suc t"] exI [of _ "now_at E t"])
      (simp add: Consolidate_def l(1) i time_Now_def Let_def, simp add: engineConsolidator_def consolidator_observer_def)
qed

lemma listing_distinct:
  assumes "sys_inv w"
  shows "distinct (map ID (tier_listing E KindWorking f w))"
proof -
  let ?s = "wm_store (wrk w)" and ?P = "\<lambda>it. matchesFilter E (heap w) it f"
  have "store_wf ?s" using assms by (simp add: sys_inv_def working_inv_def)
  then have "distinct (map ID (map snd (items ?s)))" using distinct_IDs by simp
  then have "distinct (map ID (filter ?P (map snd (items ?s))))" by (rule distinct_map_filter)
  moreover have "mset (map ID (listing E f (heap w) ?s)) = mset (map ID (filter ?P (map snd (items ?s))))"
    unfolding listing_def mset_map mset_sort_by by (rule refl)
  ultimately have "distinct (map ID (listing E f (heap w) ?s))" by (metis mset_eq_imp_distinct_iff)
  then show ?thesis by (simp add: tier_listing_def)
qed

lemma listed_view:
  assumes inv: "sys_inv w" and "it \<in> set (tier_listing E KindWorking f w)"
  shows "tier_view KindWorking w (ID it) = Some it"
proof -
  have "it \<in> ran (tier_view KindWorking w)"
    using assms(2) set_tier_listing [OF inv, of KindWorking E f] by (simp add: allKinds_def)
  then obtain i where i: "tier_view KindWorking w i = Some it" by (auto simp: ran_def)
  then show ?thesis using tier_view_ID [OF inv i] by simp
qed

lemma listed_ready:
  assumes rdy: "list_ready E zeroFilter n C w" and ok: "counts_ok E (heap w)"
    and refs: "\<forall>jt \<in> ran (tier_view KindWorking w). valid_ref (heap w) jt"
  shows "loop_ready E (C KindWorking) w" and "distinct (map ID (C KindWorking))"
    and "it \<in> set (C KindWorking) \<Longrightarrow> tier_view KindWorking w (ID it) = Some it"
proof -
  have inv: "sys_inv w" and C: "tier_listing E KindWorking zeroFilter w = C KindWorking"
    using rdy by (simp_all add: list_ready_def allKinds_def)
  have view: "working_view w (ID it) = Some it" if "it \<in> set (C KindWorking)" for it
    using listed_view [OF inv, of it E zeroFilter] that C by simp
  show "loop_ready E (C KindWorking) w" unfolding loop_ready_def
    using inv ok refs view by (auto simp: ran_def)
  show "distinct (map ID (C KindWorking))" using listing_distinct [OF inv, of E zeroFilter] C by simp
  show "it \<in> set (C KindWorking) \<Longrightarrow> tier_view KindWorking w (ID it) = Some it" using view by simp
qed

lemma consolidate_loop_skips:
  assumes "\<forall>it \<in> set its. skipped E opts now (heap w) it"
  shows "consolidate_loop E s c opts now its cnt w = ((cnt, None), w)"
  using assms by (induction its) simp_all


text \<open>
  An item that is listed without a metadata map counts as never promoted, whatever was stamped
  on the stored one since: every entry of the list is promoted.
\<close>

lemma consolidate_loop_bare:
  assumes "co_MinAge opts \<le> 0" and "\<forall>it \<in> set its. Metadata it = None"
    and "consolidate_loop E s c opts now its cnt w = ((n, None), w')"
  shows "n = cnt + int (length (filter (\<lambda>it. \<not> f_lt (Importance it) (co_Threshold opts)) its))"
  using assms(2,3)
proof (induction its arbitrary: cnt w)
  case (Cons it its)
  have "skipped E opts now (heap w) it \<longleftrightarrow> f_lt (Importance it) (co_Threshold opts)"
    using assms(1) Cons.prems(1) by (simp add: skipped_def promotionCountOf_def meta_of_def countIn_def)
  moreover have bare: "\<forall>it \<in> set its. Metadata it = None" using Cons.prems(1) by simp
  ultimately show ?case using Cons.prems(2) Cons.IH [OF bare]
    by (fastforce simp: Let_def split: prod.splits sum.splits if_splits)
qed simp


section \<open>Properties\<close>

text \<open>What the run did does not depend on clock and events.\<close>

lemma consolidated_cong:
  assumes "heap v = heap w" "\<And>k. tier_view k v = tier_view k w" "heap v' = heap w'" "\<And>k. tier_view k v' = tier_view k w'"
  shows "consolidated E opts now its v v' ps = consolidated E opts now its w w' ps"
  using assms(1,3) assms(2) [of KindWorking] assms(2) [of KindEpisodic] assms(2) [of KindSemantic]
    assms(4) [of KindWorking] assms(4) [of KindEpisodic] assms(4) [of KindSemantic]
  by (simp add: consolidated_def)

lemma Consolidate_run:
  assumes rdy: "list_ready E zeroFilter 200 C w" and page: "\<forall>k \<in> set allKinds. length (C k) \<le> 200"
    and ok: "counts_ok E (heap w)" and refs: "\<forall>jt \<in> ran (tier_view KindWorking w). valid_ref (heap w) jt"
    and run: "Consolidate E (engineConsolidator E cfg) c opts w = Some ((n, None), w')"
  shows "\<exists>al wl ps. listAllPaged E (engineConsolidator E cfg) c 200 w = Some (Inr al, wl) \<and> n = int (length ps)
      \<and> consolidated E (defaultThreshold opts) (fst (time_Now E wl)) (C KindWorking) w w' ps"
    and "counts_ok E (heap w')" and "\<forall>jt \<in> ran (tier_view KindWorking w'). valid_ref (heap w') jt"
proof -
  let ?o = "defaultThreshold opts" and ?W = "C KindWorking"
  obtain al t where l: "listAllPaged E (engineConsolidator E cfg) c 200 w = Some (Inr al, w\<lparr>tick := t\<rparr>)"
      and al: "itemsFor al KindWorking = concat (replicate (repeats 200 C KindWorking) ?W)"
    using listAllPaged_engines [OF rdy, of cfg c] by auto
  have "repeats 200 C KindWorking = 1" by (rule repeats_one) (use page in \<open>simp_all add: allKinds_def\<close>)
  then have i: "itemsFor al KindWorking = ?W" using al by simp
  obtain w1 where loop: "consolidate_loop E (engineConsolidator E cfg) c ?o (now_at E t) ?W 0 (w\<lparr>tick := Suc t\<rparr>) = ((n, None), w1)"
      and w': "w' = emit (observer cfg) EventConsolidatedTotal [(''n'', AInt n)] w1"
    using run l i by (auto simp: Consolidate_def time_Now_def Let_def consolidator_observer_def
        engineConsolidator_def [of E cfg, THEN arg_cong [of _ _ cs_cfg]] split: prod.splits option.splits)
  note ready = listed_ready [OF rdy ok refs]
  have "loop_ready E ?W (w\<lparr>tick := Suc t\<rparr>)" using ready(1) by (simp add: loop_ready_def working_view_def)
  from consolidate_loop_result [OF this ready(2) loop] obtain ps where lr: "loop_ready E [] w1" and n: "n = int (length ps)"
      and c: "consolidated E ?o (now_at E t) ?W (w\<lparr>tick := Suc t\<rparr>) w1 ps" by auto
  have same: "tier_view k w' = tier_view k w1" "heap w' = heap w1" for k unfolding w' by simp_all
  have "consolidated E ?o (now_at E t) ?W w w' ps"
    using c consolidated_cong [of "w\<lparr>tick := Suc t\<rparr>" w w1 w'] same by simp
  moreover have "fst (time_Now E (w\<lparr>tick := t\<rparr>)) = now_at E t" by (simp add: time_Now_def)
  ultimately show "\<exists>al wl ps. listAllPaged E (engineConsolidator E cfg) c 200 w = Some (Inr al, wl) \<and> n = int (length ps)
      \<and> consolidated E ?o (fst (time_Now E wl)) ?W w w' ps" using l n by metis
  show "counts_ok E (heap w')" "\<forall>jt \<in> ran (tier_view KindWorking w'). valid_ref (heap w') jt"
    using lr unfolding same by (auto simp: loop_ready_def ran_def)
qed


definition promoteHalf :: ConsolidateOptions where
  "promoteHalf = \<lparr>co_Threshold = Fin (1/2), co_MinAge = 0\<rparr>"

lemma promoteHalf_simps: "defaultThreshold promoteHalf = promoteHalf" "co_Threshold promoteHalf = Fin (1/2)" "co_MinAge promoteHalf = 0"
  by (simp_all add: promoteHalf_def defaultThreshold_def f_le_def)

lemma sampleSys_listing:
  "tier_listing sampleEnv KindWorking zeroFilter sampleSys = [(sampleItem ''k'' ''old'')\<lparr>Metadata := Some 0\<rparr>]"
  "tier_listing sampleEnv KindEpisodic zeroFilter sampleSys = [sampleItem ''k'' ''old'']"
  "tier_listing sampleEnv KindSemantic zeroFilter sampleSys = [sampleItem ''k'' ''old'']"
  by (simp_all add: tier_listing_def listing_def sampleSys_def matchesFilter_def zeroFilter_def
      IsDisabled_def meta_of_def meta_at_def sample_flag_def metaKeyScope_def)

text \<open>The items of the engines are few, and none is from before the beginning of time.\<close>

definition small :: "sys \<Rightarrow> bool" where
  "small w \<longleftrightarrow> (\<forall>s \<in> {wm_store (wrk w), em_store (epi w), sm_store (sem w)}.
     length (items s) \<le> 2 \<and> (\<forall>p \<in> set (items s). 0 \<le> CreatedAt (snd p)))"

lemma small_ready:
  assumes "sys_inv w" and "small w"
  shows "list_ready sampleEnv zeroFilter 200 (\<lambda>k. tier_listing sampleEnv k zeroFilter w) w"
    and "\<forall>k \<in> set allKinds. length (tier_listing sampleEnv k zeroFilter w) \<le> 200"
proof -
  have len: "length (listing sampleEnv zeroFilter h s) \<le> length (items s)" for h s
    using length_filter_le [of "\<lambda>it. matchesFilter sampleEnv h it zeroFilter" "map snd (items s)"] by (simp add: listing_def)
  have two: "length (tier_listing sampleEnv k zeroFilter w) \<le> 2" if "k \<in> set allKinds" for k
    using assms(2) that len [of "heap w" "wm_store (wrk w)"] len [of "heap w" "em_store (epi w)"] len [of "heap w" "sm_store (sem w)"]
    by (auto simp: small_def allKinds_def tier_listing_def)
  have old: "\<forall>it \<in> set (tier_listing sampleEnv k zeroFilter w). 0 \<le> CreatedAt it" if "k \<in> set allKinds" for k
    using assms(2) that by (auto simp: small_def allKinds_def tier_listing_def set_listing)
  have "length (tier_listing sampleEnv k zeroFilter w) \<le> 200" if "k \<in> set allKinds" for k
    using two [OF that] by simp
  then show "\<forall>k \<in> set allKinds. length (tier_listing sampleEnv k zeroFilter w) \<le> 200" by blast
  show "list_ready sampleEnv zeroFilter 200 (\<lambda>k. tier_listing sampleEnv k zeroFilter w) w"
    unfolding list_ready_def
  proof (intro conjI ballI refl assms(1))
    fix k assume k: "k \<in> set allKinds"
    show "codecs_ok sampleEnv (tier_listing sampleEnv k zeroFilter w)" by (rule sample_codecs [OF old [OF k]])
    show "int (length (tier_listing sampleEnv k zeroFilter w)) + int 200 < 2 ^ 63" using two [OF k] by simp
  qed
qed

lemma sample_consolidate_loop:
  "\<exists>w'. consolidate_loop sampleEnv (engineConsolidator sampleEnv \<lparr>observer = None\<rparr>) sampleCtx promoteHalf now
     [(sampleItem ''k'' ''old'')\<lparr>Metadata := Some 0\<rparr>] 0 (sampleSys\<lparr>tick := t\<rparr>) = ((1, None), w')
     \<and> small w' \<and> mkeys (items (wm_store (wrk w'))) = {''k''}"
proof -
  have z: "countIn sampleEnv (Some (meta_at [[metaKeyScope \<mapsto> v]] 0)) = 0" for v
    by (simp add: meta_at_def countIn_def metaKeyScope_def MetaKeyPromotionCount_def)
  show ?thesis
    by (simp add: z engineConsolidator_def consolidator_observer_def promoteHalf_simps skipped_def promotionCountOf_def
        meta_of_def cloneFor_def Manager_Add_def Manager_Update_def engine_ops sampleSys_def store_add_def assignID_def
        time_Now_def queryEmbedding_def sampleEmbedder_def store_update_def update_item_def stampSource_def
        meta_put_def small_def stampAdded_def Let_def)
qed


text \<open>
  The stamp protects only items that have a metadata map. When the working items have none,
  a consolidation without a minimum age that reports success has promoted every item at or
  above the threshold as often as the enumeration repeats it: once when every kind fits on one
  page, and otherwise as often as the least common multiple of the page counts exceeds the
  page count of the working memory.
\<close>

theorem consolidate_bare_count:
  assumes rdy: "list_ready E zeroFilter 200 C w" and age: "co_MinAge opts \<le> 0"
    and bare: "\<forall>it \<in> set (C KindWorking). Metadata it = None"
    and run: "Consolidate E (engineConsolidator E cfg) c opts w = Some ((n, None), w')"
  shows "n = int (repeats 200 C KindWorking * length (filter (\<lambda>it. \<not> f_lt (Importance it)
      (co_Threshold (defaultThreshold opts))) (tier_listing E KindWorking zeroFilter w)))"
proof -
  let ?P = "\<lambda>it. \<not> f_lt (Importance it) (co_Threshold (defaultThreshold opts))"
  obtain al t where l: "listAllPaged E (engineConsolidator E cfg) c 200 w = Some (Inr al, w\<lparr>tick := t\<rparr>)"
      and al: "itemsFor al KindWorking = concat (replicate (repeats 200 C KindWorking) (C KindWorking))"
    using listAllPaged_engines [OF rdy, of cfg c] by auto
  have age': "co_MinAge (defaultThreshold opts) \<le> 0" using age by (simp add: defaultThreshold_def)
  obtain now w0 w1 where loop: "consolidate_loop E (engineConsolidator E cfg) c (defaultThreshold opts) now
      (itemsFor al KindWorking) 0 w0 = ((n, None), w1)"
    using run l by (auto simp: Consolidate_def Let_def split: prod.splits option.splits)
  have "\<forall>it \<in> set (itemsFor al KindWorking). Metadata it = None" using bare by (auto simp: al)
  from consolidate_loop_bare [OF age' this loop] have r: "n = int (length (filter ?P (itemsFor al KindWorking)))" by simp
  have C: "tier_listing E KindWorking zeroFilter w = C KindWorking" using rdy by (simp add: list_ready_def allKinds_def)
  show ?thesis unfolding r al C length_filter_repeat by (rule refl)
qed

lemma two_small: "small twoSys"
  by (simp add: small_def twoSys_def listStore_def)

lemma two_consolidate_loop:
  "\<exists>m w'. consolidate_loop sampleEnv (engineConsolidator sampleEnv \<lparr>observer = None\<rparr>) sampleCtx promoteHalf now
     [(sampleItem ''b'' ''y'')\<lparr>CreatedAt := 9\<rparr>, (sampleItem ''a'' ''x'')\<lparr>CreatedAt := 5\<rparr>] 0 (twoSys\<lparr>tick := t\<rparr>) = ((m, None), w')"
  by (simp add: countIn_def engineConsolidator_def consolidator_observer_def promoteHalf_simps skipped_def promotionCountOf_def
      meta_of_def cloneFor_def Manager_Add_def Manager_Update_def engine_ops twoSys_def listStore_def store_add_def assignID_def
      time_Now_def queryEmbedding_def sampleEmbedder_def store_update_def update_item_def stampSource_def
      meta_put_def stampAdded_def Let_def)

theorem consolidate_bare_count_witness:
  "\<exists>n w'. Consolidate sampleEnv (engineConsolidator sampleEnv \<lparr>observer = None\<rparr>) sampleCtx promoteHalf twoSys
      = Some ((n, None), w') \<and> n = 2"
proof -
  let ?C = "\<lambda>k. tier_listing sampleEnv k zeroFilter twoSys"
  note rdy = small_ready [OF twoSys_inv two_small]
  obtain t now where cons: "Consolidate sampleEnv (engineConsolidator sampleEnv \<lparr>observer = None\<rparr>) sampleCtx promoteHalf twoSys =
    (case consolidate_loop sampleEnv (engineConsolidator sampleEnv \<lparr>observer = None\<rparr>) sampleCtx promoteHalf now
        (?C KindWorking) 0 (twoSys\<lparr>tick := t\<rparr>) of
       ((cnt, Some err), w) \<Rightarrow> Some ((cnt, Some err), w)
     | ((cnt, None), w) \<Rightarrow>
         Some ((cnt, None), emit (observer \<lparr>observer = None\<rparr>) EventConsolidatedTotal [(''n'', AInt cnt)] w))"
    using Consolidate_engines [OF rdy, of "\<lparr>observer = None\<rparr>" sampleCtx promoteHalf] unfolding promoteHalf_simps by blast
  obtain m w1 where "consolidate_loop sampleEnv (engineConsolidator sampleEnv \<lparr>observer = None\<rparr>) sampleCtx promoteHalf now
      (?C KindWorking) 0 (twoSys\<lparr>tick := t\<rparr>) = ((m, None), w1)"
    using two_consolidate_loop [of now t] twoSys_listing by auto
  then obtain n w' where run: "Consolidate sampleEnv (engineConsolidator sampleEnv \<lparr>observer = None\<rparr>) sampleCtx promoteHalf twoSys
      = Some ((n, None), w')" using cons by simp
  have "repeats 200 ?C KindWorking = 1" by (rule repeats_one) (use rdy(2) in \<open>simp_all add: allKinds_def\<close>)
  then have "n = 2" using consolidate_bare_count [OF rdy(1) _ _ run] twoSys_listing by (simp add: promoteHalf_simps)
  then show ?thesis using run by blast
qed

end
