(* ===== verification/PolicyHook.thy ===== *)
theory PolicyHook
  imports Scoped
begin

text \<open>
  \<^verbatim>\<open>policy_hook.go\<close>: a memory whose additions pass a chain of sanitizers first. A
  sanitizer is the caller's code: a function that may also change the state of the program.
  Its three results are kept as the code has them, with the error as an option.
\<close>


section \<open>The chain\<close>

type_synonym 's Sanitizer = "ctx \<Rightarrow> Kind \<Rightarrow> MemoryItem \<Rightarrow> 's \<Rightarrow> (MemoryItem \<times> bool \<times> error option) \<times> 's"

type_synonym 's SanitizerFunc = "ctx \<Rightarrow> Kind \<Rightarrow> MemoryItem \<Rightarrow> 's \<Rightarrow> (MemoryItem \<times> bool \<times> error option) \<times> 's"

definition SanitizerFunc_Sanitize :: "'s SanitizerFunc \<Rightarrow> 's Sanitizer" where
  "SanitizerFunc_Sanitize f c kind item w = f c kind item w"

fun sanitizing_Add :: "'s Memory \<Rightarrow> 's Sanitizer list \<Rightarrow> ctx \<Rightarrow> MemoryItem \<Rightarrow> 's \<Rightarrow> (error + string) \<times> 's" where
  "sanitizing_Add inner [] c cur w = mem_Add inner c cur w"
| "sanitizing_Add inner (s # chain) c cur w = (case s c (mem_Type inner) cur w of
       ((out, keep, Some err), w) \<Rightarrow> (Inl err, w)
     | ((out, keep, None), w) \<Rightarrow>
         if \<not> keep then (Inl ErrRejectedByPolicy, w)
         else sanitizing_Add inner chain c out w)"

text \<open>
  The wrapper has the seven methods of \<^verbatim>\<open>Memory\<close> and no other: a type assertion to
  \<^verbatim>\<open>Lister\<close>, \<^verbatim>\<open>Exporter\<close> or \<^verbatim>\<open>Importer\<close> fails on it.
\<close>

definition sanitizingMemory :: "'s Memory \<Rightarrow> 's Sanitizer list \<Rightarrow> 's Memory" where
  "sanitizingMemory inner chain = \<lparr>
     mem_Type = mem_Type inner,
     mem_Add = sanitizing_Add inner chain,
     mem_Search = mem_Search inner,
     mem_Get = mem_Get inner,
     mem_Update = mem_Update inner,
     mem_Remove = mem_Remove inner,
     mem_Stats = mem_Stats inner,
     mem_asLister = None,
     mem_asExporter = None,
     mem_asImporter = None\<rparr>"

definition WithSanitizer :: "'s Memory \<Rightarrow> 's Sanitizer list \<Rightarrow> 's Memory" where
  "WithSanitizer inner chain = (if chain = [] then inner else sanitizingMemory inner chain)"


section \<open>What a chain lets through\<close>

text \<open>
  The chain as a function: the item it passes on, or the error of the first stage that fails
  or rejects.
\<close>

fun sanitized :: "'s Sanitizer list \<Rightarrow> ctx \<Rightarrow> Kind \<Rightarrow> MemoryItem \<Rightarrow> 's \<Rightarrow> (error + MemoryItem) \<times> 's" where
  "sanitized [] c kind cur w = (Inr cur, w)"
| "sanitized (s # chain) c kind cur w = (case s c kind cur w of
       ((out, keep, Some err), w) \<Rightarrow> (Inl err, w)
     | ((out, keep, None), w) \<Rightarrow>
         if \<not> keep then (Inl ErrRejectedByPolicy, w) else sanitized chain c kind out w)"

lemma sanitizing_Add_sanitized:
  "sanitizing_Add inner chain c item w = (case sanitized chain c (mem_Type inner) item w of
     (Inl err, w') \<Rightarrow> (Inl err, w') | (Inr item', w') \<Rightarrow> mem_Add inner c item' w')"
  by (induction inner chain c item w rule: sanitizing_Add.induct) (auto split: option.splits prod.splits)

lemma WithSanitizer_Add:
  "mem_Add (WithSanitizer inner chain) c item w = sanitizing_Add inner chain c item w"
  by (simp add: WithSanitizer_def sanitizingMemory_def)

text \<open>Stages run from left to right: a chain in two parts is the second after the first.\<close>

lemma sanitized_append:
  "sanitized (xs @ ys) c kind item w = (case sanitized xs c kind item w of
     (Inl err, w') \<Rightarrow> (Inl err, w') | (Inr item', w') \<Rightarrow> sanitized ys c kind item' w')"
  by (induction xs c kind item w rule: sanitized.induct) (auto split: option.splits prod.splits)

text \<open>
  The interface between a policy and the memory it guards: a stage that lets only items with
  a property through, before stages that keep the property, and that leave the state alone.
\<close>

definition establishes :: "(meta list \<Rightarrow> MemoryItem \<Rightarrow> bool) \<Rightarrow> 'z world_scheme Sanitizer \<Rightarrow> bool" where
  "establishes P s \<longleftrightarrow> (\<forall>c kind item w out w'. s c kind item w = ((out, True, None), w') \<longrightarrow> P (heap w') out)"

definition preserves :: "(meta list \<Rightarrow> MemoryItem \<Rightarrow> bool) \<Rightarrow> 'z world_scheme Sanitizer \<Rightarrow> bool" where
  "preserves P s \<longleftrightarrow>
     (\<forall>c kind item w out w'. P (heap w) item \<longrightarrow> s c kind item w = ((out, True, None), w') \<longrightarrow> P (heap w') out)"

definition leavesState :: "'s Sanitizer \<Rightarrow> bool" where
  "leavesState s \<longleftrightarrow> (\<forall>c kind item w. snd (s c kind item w) = w)"

lemma sanitized_Cons_Inr:
  "sanitized (s # chain) c kind item w = (Inr item', w') \<longleftrightarrow>
    (\<exists>out w1. s c kind item w = ((out, True, None), w1) \<and> sanitized chain c kind out w1 = (Inr item', w'))"
  by (auto split: prod.splits option.splits if_splits)

lemma sanitized_preserves:
  "\<forall>s \<in> set chain. preserves P s \<Longrightarrow> P (heap w) item \<Longrightarrow> sanitized chain c kind item w = (Inr item', w')
    \<Longrightarrow> P (heap w') item'"
proof (induction chain arbitrary: item w)
  case (Cons s chain)
  obtain out w1 where s: "s c kind item w = ((out, True, None), w1)" and rest: "sanitized chain c kind out w1 = (Inr item', w')"
    using Cons.prems(3) unfolding sanitized_Cons_Inr by blast
  have "preserves P s" using Cons.prems(1) by simp
  then have "P (heap w1) out" using Cons.prems(2) s unfolding preserves_def by blast
  then show ?case using Cons.IH [OF _ _ rest] Cons.prems(1) by simp
qed simp

lemma sanitized_establishes:
  assumes "establishes P s" and "\<forall>s \<in> set later. preserves P s"
    and "sanitized (earlier @ s # later) c kind item w = (Inr item', w')"
  shows "P (heap w') item'"
proof -
  obtain it w1 where "sanitized (s # later) c kind it w1 = (Inr item', w')"
    using assms(3) unfolding sanitized_append by (auto split: prod.splits sum.splits simp del: sanitized.simps)
  then obtain out w2 where s: "s c kind it w1 = ((out, True, None), w2)" and rest: "sanitized later c kind out w2 = (Inr item', w')"
    unfolding sanitized_Cons_Inr by blast
  have "P (heap w2) out" using assms(1) s unfolding establishes_def by blast
  then show ?thesis by (rule sanitized_preserves [OF assms(2) _ rest])
qed

lemma sanitized_leavesState:
  "\<forall>s \<in> set chain. leavesState s \<Longrightarrow> snd (sanitized chain c kind item w) = w"
proof (induction chain c kind item w rule: sanitized.induct)
  case (2 s chain c kind cur w)
  have "snd (s c kind cur w) = w" using "2.prems" by (simp add: leavesState_def)
  then obtain out keep e where s: "s c kind cur w = ((out, keep, e), w)" by (metis prod.collapse)
  then show ?case using "2.IH" "2.prems" by (auto split: option.splits)
qed simp


section \<open>Properties\<close>

text \<open>
  The use of a guarded memory: any sequence of its calls. The chain guards additions only, as
  the source says, so an update is as good as its function.
\<close>

inductive guarded :: "'z world_scheme Memory \<Rightarrow> updater set \<Rightarrow> 'z world_scheme \<Rightarrow> 'z world_scheme \<Rightarrow> bool"
  for G :: "'z world_scheme Memory" and U :: "updater set" and w0 :: "'z world_scheme" where
  guarded_start: "guarded G U w0 w0"
| guarded_add: "guarded G U w0 w \<Longrightarrow> mem_Add G c item w = (ra, w') \<Longrightarrow> guarded G U w0 w'"
| guarded_get: "guarded G U w0 w \<Longrightarrow> mem_Get G c i w = (rg, w') \<Longrightarrow> guarded G U w0 w'"
| guarded_search: "guarded G U w0 w \<Longrightarrow> mem_Search G c q n w = (rs, w') \<Longrightarrow> guarded G U w0 w'"
| guarded_remove: "guarded G U w0 w \<Longrightarrow> mem_Remove G c i w = (rr, w') \<Longrightarrow> guarded G U w0 w'"
| guarded_update: "guarded G U w0 w \<Longrightarrow> fn \<in> U \<Longrightarrow> mem_Update G c i fn w = (ru, w') \<Longrightarrow> guarded G U w0 w'"

text \<open>
  A property of what the caller supplies: it looks at content, tags and metadata, not at what
  the engines set. An update keeps it when its function does, of the item and of the items
  whose metadata map it may reach.
\<close>

definition ofPayload :: "(meta list \<Rightarrow> MemoryItem \<Rightarrow> bool) \<Rightarrow> bool" where
  "ofPayload P \<longleftrightarrow> (\<forall>h it it'. P h it \<longrightarrow> Content it' = Content it \<longrightarrow> Tags it' = Tags it
     \<longrightarrow> Metadata it' = Metadata it \<longrightarrow> P h it')"

definition careful :: "(meta list \<Rightarrow> MemoryItem \<Rightarrow> bool) \<Rightarrow> updater \<Rightarrow> bool" where
  "careful P fn \<longleftrightarrow> keepsID fn
     \<and> (\<forall>h it. P h it \<longrightarrow> P (snd (fn it h)) (fst (fn it h)))
     \<and> (\<forall>h it jt. P h jt \<longrightarrow> P (snd (fn it h)) jt)"

lemma ofPayloadD:
  "ofPayload P \<Longrightarrow> P h it \<Longrightarrow> Content it' = Content it \<Longrightarrow> Tags it' = Tags it \<Longrightarrow> Metadata it' = Metadata it \<Longrightarrow> P h it'"
  unfolding ofPayload_def by blast

lemma WithSanitizer_reads [simp]:
  "mem_Get (WithSanitizer inner chain) = mem_Get inner"
  "mem_Search (WithSanitizer inner chain) = mem_Search inner"
  "mem_Remove (WithSanitizer inner chain) = mem_Remove inner"
  "mem_Update (WithSanitizer inner chain) = mem_Update inner"
  by (simp_all add: WithSanitizer_def sanitizingMemory_def)

lemma sanitized_fixed:
  assumes "\<forall>s \<in> set chain. leavesState s"
  shows "sanitized chain c kind item w = (fst (sanitized chain c kind item w), w)"
  using sanitized_leavesState [OF assms, of c kind item w] by (metis prod.collapse)

lemma WithSanitizer_cases:
  assumes "\<forall>s \<in> set chain. leavesState s" and "mem_Add (WithSanitizer mem chain) c item w = (r, w')"
  obtains (stopped) e where "sanitized chain c (mem_Type mem) item w = (Inl e, w)" and "r = Inl e" and "w' = w"
  | (passed) item' where "sanitized chain c (mem_Type mem) item w = (Inr item', w)" and "mem_Add mem c item' w = (r, w')"
  using assms(2) sanitized_fixed [OF assms(1), of c "mem_Type mem" item w]
  by (cases "fst (sanitized chain c (mem_Type mem) item w)") (auto simp: WithSanitizer_Add sanitizing_Add_sanitized)

text \<open>The calls of a guarded memory keep the property, on every tier.\<close>

context memory_tier
begin

lemma added_keeps:
  assumes "inv w" and "ofPayload P" and "\<forall>it \<in> ran (view w). P (heap w) it" and "P (heap w) item"
    and "mem_Add mem c item w = (r, w')"
  shows "\<forall>it \<in> ran (view w'). P (heap w') it"
proof (cases r)
  case (Inl e)
  then show ?thesis using add_result [OF assms(1,5)] assms(3) by simp
next
  case (Inr i)
  let ?it = "\<lambda>now. (stampAdded now item)\<lparr>ID := i\<rparr>"
  obtain now where le: "view w' \<subseteq>\<^sub>m (view w)(i \<mapsto> ?it now)" and h: "heap w' = heap w"
    using add_result [OF assms(1,5)] Inr by auto
  have P: "P (heap w) (?it now)" by (rule ofPayloadD [OF assms(2,4)]) simp_all
  have "P (heap w') it" if "view w' j = Some it" for j it
  proof -
    have "((view w)(i \<mapsto> ?it now)) j = Some it"
      using le that by (auto simp: map_le_def dest: bspec [of _ _ j] simp del: fun_upd_apply)
    then show ?thesis using P assms(3) h by (auto simp: ran_def split: if_splits)
  qed
  then show ?thesis by (auto simp: ran_def)
qed

lemma updated_keeps:
  assumes "inv w" and "ofPayload P" and "\<forall>it \<in> ran (view w). P (heap w) it" and "careful P fn"
    and "mem_Update mem c i fn w = (r, w')"
  shows "(\<forall>it \<in> ran (view w'). P (heap w') it) \<and> inv w' \<and> frame w' = frame w"
proof (cases "view w i")
  case None
  then show ?thesis using update_miss [OF assms(1) None] assms(1,3,5) by simp
next
  case (Some it)
  have k: "keepsID fn" using assms(4) by (simp add: careful_def)
  let ?new = "\<lambda>t. (fst (fn it (heap w)))\<lparr>AccessedAt := t, Importance := clampUnit (Importance (fst (fn it (heap w))))\<rparr>"
  obtain t where v: "view w' = (view w)(i \<mapsto> ?new t)" and h: "heap w' = snd (fn it (heap w))"
      and rest: "inv w'" "frame w' = frame w"
    using update_hit [OF assms(1) k Some, of c] assms(5) by auto
  have "P (heap w) it" using assms(3) Some by (auto simp: ran_def)
  then have "P (snd (fn it (heap w))) (fst (fn it (heap w)))" using assms(4) by (simp add: careful_def)
  then have new: "P (heap w') (?new t)" unfolding h by (rule ofPayloadD [OF assms(2)]) simp_all
  have old: "P (heap w') jt" if "jt \<in> ran (view w)" for jt using that assms(3,4) by (auto simp: careful_def h)
  have "P (heap w') jt" if "view w' j = Some jt" for j jt
    using that new old by (auto simp: v ran_def split: if_splits)
  then show ?thesis using rest by (auto simp: ran_def)
qed

lemma guarded_keeps:
  assumes chain: "establishes P s" "\<forall>s \<in> set later. preserves P s" "\<forall>s \<in> set (earlier @ s # later). leavesState s"
    and P: "ofPayload P" "\<forall>fn \<in> U. careful P fn"
    and start: "inv w0" "\<forall>it \<in> ran (view w0). P (heap w0) it"
    and run: "guarded (WithSanitizer mem (earlier @ s # later)) U w0 w"
  shows "(\<forall>it \<in> ran (view w). P (heap w) it) \<and> inv w \<and> frame w = frame w0"
  using run
proof (induction rule: guarded.induct)
  case guarded_start
  then show ?case using start by simp
next
  case (guarded_add w c item ra w')
  from chain(3) guarded_add.hyps(2) show ?case
  proof (cases rule: WithSanitizer_cases)
    case (stopped e)
    then show ?thesis using guarded_add.IH by simp
  next
    case (passed item')
    have "P (heap w) item'" by (rule sanitized_establishes [OF chain(1,2) passed(1)])
    then show ?thesis using added_keeps [OF _ P(1) _ _ passed(2)] add_result [OF _ passed(2)] guarded_add.IH by simp
  qed
next
  case (guarded_get w c i rg w')
  show ?case
  proof (cases "view w i")
    case None
    then show ?thesis using get_miss [OF _ None] guarded_get by simp
  next
    case (Some it)
    obtain t where v: "view w' = (view w)(i \<mapsto> it\<lparr>AccessedAt := t\<rparr>)" "heap w' = heap w" "frame w' = frame w" "inv w'"
      using get_hit [OF _ Some, of c] guarded_get by auto
    have "P (heap w) it" using guarded_get.IH Some by (auto simp: ran_def)
    then have "P (heap w) (it\<lparr>AccessedAt := t\<rparr>)" by (rule ofPayloadD [OF P(1)]) simp_all
    then show ?thesis using v guarded_get.IH by (auto simp: ran_def split: if_splits)
  qed
next
  case (guarded_search w c q n rs w')
  then show ?case using search_result [of w c q n rs w'] by (auto simp: tick_free)
next
  case (guarded_remove w c i rr w')
  show ?case
  proof (cases "view w i")
    case None
    then show ?thesis using remove_miss [OF _ None] guarded_remove by simp
  next
    case (Some it)
    then show ?thesis using remove_hit [OF _ Some, of c] guarded_remove by (auto simp: ran_def split: if_splits)
  qed
next
  case (guarded_update w fn c i ru w')
  then show ?case using updated_keeps [OF _ P(1), of w fn c i ru w'] P(2) by simp
qed

end

text \<open>
  C11. A guarded engine holds only what its policy allows: a stage of the chain lets only items
  with a property of their content, tags and metadata through, the later stages keep the
  property, and no stage changes the state. Then, from a state in which everything stored in
  the tier has the property, every sequence of calls of the wrapped memory leads to such a
  state, updates with functions that keep the property included: the chain does not see
  updates. In each of these states an addition either fails or is rejected and leaves the tier
  as it was, or stores exactly the item that came out of the chain.
\<close>

theorem sanitized_memory_enforces:
  assumes inv: "sys_inv w0" and kind: "kind \<in> set allKinds" and tier: "requireMemory (engineManager E) kind = Inr mem"
    and stage: "establishes P s" "\<forall>s \<in> set later. preserves P s" "\<forall>s \<in> set (earlier @ s # later). leavesState s"
    and P: "ofPayload P" "\<forall>fn \<in> U. careful P fn"
    and stored: "\<forall>it \<in> ran (tier_view kind w0). P (heap w0) it"
    and run: "guarded (WithSanitizer mem (earlier @ s # later)) U w0 w"
    and add: "mem_Add (WithSanitizer mem (earlier @ s # later)) c item w = (r, w')"
  shows "(\<forall>it \<in> ran (tier_view kind w). P (heap w) it)
    \<and> (case r of Inl e \<Rightarrow> tier_view kind w' = tier_view kind w
       | Inr i \<Rightarrow> \<exists>item' now. sanitized (earlier @ s # later) c (mem_Type mem) item w = (Inr item', w)
           \<and> P (heap w) item' \<and> added kind i ((stampAdded now item')\<lparr>ID := i\<rparr>) w w')"
proof -
  have i: "working_inv w0" "episodic_inv w0" "semantic_inv w0" using inv by (simp_all add: sys_inv_def)
  consider "kind = KindWorking" "mem = workingMemory E" | "kind = KindEpisodic" "mem = episodicMemory E"
    | "kind = KindSemantic" "mem = semanticMemory E" using kind tier by (auto simp: allKinds_def)
  then have kept: "(\<forall>it \<in> ran (tier_view kind w). P (heap w) it) \<and> sys_inv w"
  proof cases
    case 1
    show ?thesis using working_tier.guarded_keeps [OF stage P i(1) _ run [unfolded 1]] stored 1 inv
      by (auto simp: sys_inv_def episodic_inv_def semantic_inv_def)
  next
    case 2
    show ?thesis using episodic_tier.guarded_keeps [OF stage P i(2) _ run [unfolded 2]] stored 2 inv
      by (auto simp: sys_inv_def working_inv_def semantic_inv_def)
  next
    case 3
    show ?thesis using semantic_tier.guarded_keeps [OF stage P i(3) _ run [unfolded 3]] stored 3 inv
      by (auto simp: sys_inv_def working_inv_def episodic_inv_def)
  qed
  from stage(3) add show ?thesis
  proof (cases rule: WithSanitizer_cases)
    case (stopped e)
    then show ?thesis using kept by simp
  next
    case (passed item')
    have "P (heap w) item'" by (rule sanitized_establishes [OF stage(1,2) passed(1)])
    moreover have m: "Manager_Add (engineManager E) c kind item' w = (r, w')"
      using passed(2) tier by (simp add: Manager_Add_def)
    ultimately show ?thesis using kept passed(1) engine_add [OF conjunct2 [OF kept] kind m]
        engine_added [OF conjunct2 [OF kept] kind, of E c item'] m by (cases r) auto
  qed
qed

text \<open>A sanitizer that empties the tags, and one that refuses empty content.\<close>

definition dropTags :: "'s Sanitizer" where
  "dropTags c kind item w = ((item\<lparr>Tags := []\<rparr>, True, None), w)"

definition refuseEmpty :: "'s Sanitizer" where
  "refuseEmpty c kind item w = ((item, Content item \<noteq> '''', None), w)"

definition retitle :: updater where
  "retitle it h = (it\<lparr>Content := ''new''\<rparr>, h)"

theorem sanitized_memory_enforces_witness:
  "Tags ` ran (tier_view KindEpisodic
      (snd (mem_Update (episodicMemory sampleEnv) sampleCtx ''x'' retitle
        (snd (mem_Add (WithSanitizer (episodicMemory sampleEnv) [dropTags, refuseEmpty])
          sampleCtx ((sampleItem ''x'' ''hi'')\<lparr>Tags := [''t'']\<rparr>) sampleSys))))) \<subseteq> {[]}"
  (is "Tags ` ran (tier_view _ (snd ?U)) \<subseteq> _")
proof -
  let ?P = "\<lambda>(h :: meta list) it. Tags it = []" and ?G = "WithSanitizer (episodicMemory sampleEnv) ([] @ dropTags # [refuseEmpty])"
  have st: "establishes ?P dropTags" "\<forall>s \<in> set [refuseEmpty]. preserves ?P s" "\<forall>s \<in> set ([] @ dropTags # [refuseEmpty]). leavesState s"
    by (auto simp: establishes_def preserves_def leavesState_def dropTags_def refuseEmpty_def)
  have p: "ofPayload ?P" "\<forall>fn \<in> {retitle}. careful ?P fn"
    by (auto simp: ofPayload_def careful_def keepsID_def retitle_def)
  have v: "\<forall>it \<in> ran (tier_view KindEpisodic sampleSys). ?P (heap sampleSys) it"
    by (auto simp: episodic_view_def sampleSys_def ran_def split: if_splits)
  have t: "KindEpisodic \<in> set allKinds" "requireMemory (engineManager sampleEnv) KindEpisodic = Inr (episodicMemory sampleEnv)"
    by (simp_all add: allKinds_def)
  have "guarded ?G {retitle} sampleSys (snd ?U)"
    by (rule guarded_update [OF guarded_add [OF guarded_start prod.collapse [symmetric]]], rule singletonI)
      (simp, rule prod.collapse [symmetric])
  then have "\<forall>it \<in> ran (tier_view KindEpisodic (snd ?U)). Tags it = []"
    using sanitized_memory_enforces [OF sampleSys_inv t st p v _ prod.collapse [symmetric]] by blast
  then show ?thesis by blast
qed

text \<open>
  A guarded tier loses its optional capabilities: a manager whose tiers are wrapped with a
  non-empty chain lists no item and exports no snapshot, without an error, whatever the
  engines hold.
\<close>

theorem sanitized_tiers_are_not_listed:
  assumes "chain \<noteq> []"
    and "m_opts m = \<lparr>o_Working = tierWith (WithSanitizer wm chain), o_Episodic = tierWith (WithSanitizer em chain),
      o_Semantic = tierWith (WithSanitizer sm chain), o_SnapshotStore = st\<rparr>"
  shows "ListAll m c f pageSize cursors w = (([], None), w) \<and> Manager_ExportAll E m c '''' w = (([], None), w)"
  using assms
  by (simp add: ListAll_def Manager_ExportAll_def allKinds_def listerOf_def exporterOf_def tierFor_def tierWith_def
      zeroTier_def WithSanitizer_def sanitizingMemory_def asLocalMemory_def)

theorem sanitized_tiers_are_not_listed_witness:
  "ListAll \<lparr>m_opts = \<lparr>o_Working = tierWith (WithSanitizer (workingMemory sampleEnv) [dropTags]),
      o_Episodic = tierWith (WithSanitizer (episodicMemory sampleEnv) [dropTags]),
      o_Semantic = tierWith (WithSanitizer (semanticMemory sampleEnv) [dropTags]), o_SnapshotStore = None\<rparr>\<rparr>
     sampleCtx zeroFilter 10 [] sampleSys = (([], None), sampleSys)"
  by (rule conjunct1 [OF sanitized_tiers_are_not_listed [of "[dropTags]"]]) simp_all

end
