(* ===== verification/WritePolicy.thy ===== *)
theory WritePolicy
  imports PolicyHook
begin

text \<open>
  \<^verbatim>\<open>write_policy.go\<close>: the write policy, the manager that enforces it and the adapter
  that makes a sanitizer of it. A policy is the caller's code, like a sanitizer.
\<close>


section \<open>Decisions\<close>

datatype WriteSource = WriteSourceUserSaved | WriteSourceAgentInferred | WriteSourceSystem | WriteSourceOther string

datatype Verdict = VerdictAccept | VerdictRedact | VerdictReject | VerdictOther string

text \<open>The strings the two types are in the code, as the events show them.\<close>

fun sourceString :: "WriteSource \<Rightarrow> string" where
  "sourceString WriteSourceUserSaved = ''user_saved''"
| "sourceString WriteSourceAgentInferred = ''agent_inferred''"
| "sourceString WriteSourceSystem = ''system''"
| "sourceString (WriteSourceOther s) = s"

fun verdictString :: "Verdict \<Rightarrow> string" where
  "verdictString VerdictAccept = ''accept''"
| "verdictString VerdictRedact = ''redact''"
| "verdictString VerdictReject = ''reject''"
| "verdictString (VerdictOther s) = s"

record ProposedWrite =
  pw_Kind :: Kind
  pw_Item :: MemoryItem
  pw_Source :: WriteSource
  pw_Hint :: "meta option"

record WritePolicyDecision =
  wd_Verdict :: Verdict
  wd_Kind :: Kind
  wd_Item :: MemoryItem
  wd_Reason :: string

type_synonym 's WritePolicy = "ctx \<Rightarrow> ProposedWrite \<Rightarrow> 's \<Rightarrow> WritePolicyDecision \<times> 's"

definition PolicyFunc_Decide :: "(ctx \<Rightarrow> ProposedWrite \<Rightarrow> 's \<Rightarrow> WritePolicyDecision \<times> 's) \<Rightarrow> 's WritePolicy" where
  "PolicyFunc_Decide f c pw w = f c pw w"


section \<open>The enforcing manager\<close>

record 's PolicyEnforcingMemory =
  pe_mgr :: "'s Manager"
  pe_policy :: "'s WritePolicy"
  pe_cfg :: config

definition NewPolicyEnforcingMemory :: "'s Manager option \<Rightarrow> 's WritePolicy option \<Rightarrow> Option option list
    \<Rightarrow> error + 's PolicyEnforcingMemory" where
  "NewPolicyEnforcingMemory inner policy opts = (case inner of
       None \<Rightarrow> Inl ErrPolicyEnforcingManagerRequired
     | Some mgr \<Rightarrow> (case policy of
         None \<Rightarrow> Inl ErrPolicyRequired
       | Some pol \<Rightarrow> Inr \<lparr>pe_mgr = mgr, pe_policy = pol, pe_cfg = newConfig opts\<rparr>))"

definition policy_observer :: "'s PolicyEnforcingMemory \<Rightarrow> Observer" where
  "policy_observer p = observer (pe_cfg p)"

definition decidedAttrs :: "ProposedWrite \<Rightarrow> WritePolicyDecision \<Rightarrow> Kind \<Rightarrow> (string \<times> any) list" where
  "decidedAttrs pw decision decidedKind =
     [(''verdict'', AString (verdictString (wd_Verdict decision))), (''input_kind'', AKind (pw_Kind pw)),
      (''decided_kind'', AKind decidedKind), (''source'', AString (sourceString (pw_Source pw))),
      (''reason'', AString (wd_Reason decision))]"

definition unknownVerdict :: error where
  "unknownVerdict = ErrText ''memory: write policy returned unknown verdict''"

definition Policy_Add :: "'z world_scheme PolicyEnforcingMemory \<Rightarrow> ctx \<Rightarrow> ProposedWrite \<Rightarrow> 'z world_scheme
    \<Rightarrow> (error + string) \<times> 'z world_scheme" where
  "Policy_Add p c pw w =
     (let (decision, w) = pe_policy p c pw w
      in if wd_Verdict decision = VerdictAccept \<or> wd_Verdict decision = VerdictRedact then
           (case Manager_Add (pe_mgr p) c (wd_Kind decision) (wd_Item decision) w of
              (Inl err, w) \<Rightarrow> (Inl err, w)
            | (Inr i, w) \<Rightarrow>
                (Inr i, emit (policy_observer p) EventWritePolicyDecided (decidedAttrs pw decision (wd_Kind decision)) w))
         else if wd_Verdict decision = VerdictReject then
           (Inl ErrRejectedByPolicy,
            emit (policy_observer p) EventWritePolicyDecided (decidedAttrs pw decision (pw_Kind pw)) w)
         else (Inl unknownVerdict, w))"


section \<open>The adapter\<close>

record 's PolicyAdapter =
  Policy :: "'s WritePolicy"

definition Adapter_Sanitize :: "'s PolicyAdapter \<Rightarrow> 's Sanitizer" where
  "Adapter_Sanitize a c kind item w =
     (let (decision, w) = Policy a c
            \<lparr>pw_Kind = kind, pw_Item = item, pw_Source = WriteSourceSystem, pw_Hint = None\<rparr> w
      in if wd_Verdict decision = VerdictAccept \<or> wd_Verdict decision = VerdictRedact then
           (if wd_Kind decision \<noteq> kind then ((zeroItem, False, Some ErrPolicyKindRerouteUnsupported), w)
            else ((wd_Item decision, True, None), w))
         else if wd_Verdict decision = VerdictReject then ((zeroItem, False, None), w)
         else ((zeroItem, False, Some unknownVerdict), w))"


section \<open>Properties\<close>

text \<open>A kind that has no tier stores nothing.\<close>

lemma engine_unknown:
  "kind \<notin> set allKinds \<Longrightarrow> \<exists>e. Manager_Add (engineManager E) c kind item w = (Inl e, w)"
  by (cases kind) (simp_all add: allKinds_def Manager_Add_def requireMemory_def tierFor_def engineManager_def zeroTier_def asLocalMemory_def)

text \<open>
  C12. The policy is the only way in: after an addition through the enforcing manager, under a
  policy that leaves the state alone, the engines hold what they held before, except that an
  accepted or redacted write has put exactly the item the policy decided on into the tier the
  policy decided on (from which a working memory over its capacity may have dropped one item).
  A rejected write, an unknown verdict and a failed addition change no engine and answer with
  their errors. The decision is reported, with its verdict, kinds, source and reason, exactly
  when the write was stored or rejected.
\<close>

theorem policy_add_enforced:
  assumes inv: "sys_inv w" and pol: "pe_policy p c pw w = (decision, w)" and mgr: "pe_mgr p = engineManager E"
    and obs: "policy_observer p = Some n" and add: "Policy_Add p c pw w = (r, w')"
  shows "sys_inv w' \<and> heap w' = heap w
    \<and> (case r of
        Inl e \<Rightarrow> (\<forall>k. tier_view k w' = tier_view k w)
          \<and> (if wd_Verdict decision = VerdictReject
             then e = ErrRejectedByPolicy \<and> events w' = events w @ [(n, \<lparr>ev_Name = EventWritePolicyDecided,
               ev_Attrs = decidedAttrs pw decision (pw_Kind pw)\<rparr>)]
             else events w' = events w
               \<and> (if wd_Verdict decision = VerdictAccept \<or> wd_Verdict decision = VerdictRedact
                  then fst (Manager_Add (engineManager E) c (wd_Kind decision) (wd_Item decision) w) = Inl e
                  else e = unknownVerdict))
      | Inr i \<Rightarrow> (wd_Verdict decision = VerdictAccept \<or> wd_Verdict decision = VerdictRedact)
          \<and> (\<forall>k. k \<noteq> wd_Kind decision \<longrightarrow> tier_view k w' = tier_view k w)
          \<and> (\<exists>now. added (wd_Kind decision) i ((stampAdded now (wd_Item decision))\<lparr>ID := i\<rparr>) w w')
          \<and> events w' = events w @ [(n, \<lparr>ev_Name = EventWritePolicyDecided,
               ev_Attrs = decidedAttrs pw decision (wd_Kind decision)\<rparr>)])"
proof (cases "wd_Verdict decision = VerdictAccept \<or> wd_Verdict decision = VerdictRedact")
  case True
  let ?k = "wd_Kind decision"
  obtain r1 w1 where a: "Manager_Add (engineManager E) c ?k (wd_Item decision) w = (r1, w1)" by fastforce
  show ?thesis
  proof (cases r1)
    case (Inl e)
    then have r: "r = Inl e" "w' = w1" using add True pol mgr a by (auto simp: Policy_Add_def)
    have "sys_inv w1 \<and> heap w1 = heap w \<and> events w1 = events w \<and> (\<forall>k. tier_view k w1 = tier_view k w)"
    proof (cases "?k \<in> set allKinds")
      case True
      note law = engine_add [OF inv True a]
      have "tier_view k w1 = tier_view k w" for k using law Inl by (cases "k = ?k") simp_all
      then show ?thesis using law by simp
    next
      case False
      then show ?thesis using engine_unknown [OF False, of E c "wd_Item decision" w] a inv by simp
    qed
    then show ?thesis using True r a Inl by auto
  next
    case (Inr i)
    then have r: "r = Inr i" "w' = emit (Some n) EventWritePolicyDecided (decidedAttrs pw decision ?k) w1"
      using add True pol mgr a obs by (auto simp: Policy_Add_def)
    have known: "?k \<in> set allKinds" using engine_unknown [of ?k E c "wd_Item decision" w] a Inr by auto
    note law = engine_add [OF inv known a]
    obtain now where "added ?k i ((stampAdded now (wd_Item decision))\<lparr>ID := i\<rparr>) w w1"
      using engine_added [OF inv known] a Inr by blast
    then have "added ?k i ((stampAdded now (wd_Item decision))\<lparr>ID := i\<rparr>) w w'" by (simp add: added_def r)
    then show ?thesis using True law Inr r by auto
  qed
next
  case False
  then show ?thesis using add pol obs inv by (auto simp: Policy_Add_def split: if_splits)
qed

text \<open>A policy that keeps secrets out and moves what the user saved to the episodic memory.\<close>

definition samplePolicy :: "'s WritePolicy" where
  "samplePolicy c pw w = (\<lparr>
     wd_Verdict = (if Content (pw_Item pw) = ''secret'' then VerdictReject else VerdictAccept),
     wd_Kind = (if pw_Source pw = WriteSourceUserSaved then KindEpisodic else pw_Kind pw),
     wd_Item = pw_Item pw, wd_Reason = ''rule''\<rparr>, w)"

definition sampleEnforcing :: "env \<Rightarrow> sys PolicyEnforcingMemory" where
  "sampleEnforcing E = \<lparr>pe_mgr = engineManager E, pe_policy = samplePolicy, pe_cfg = \<lparr>observer = Some 0\<rparr>\<rparr>"

theorem policy_add_enforced_witness:
  "\<exists>w'. Policy_Add (sampleEnforcing sampleEnv) sampleCtx
      \<lparr>pw_Kind = KindWorking, pw_Item = sampleItem ''x'' ''hi'', pw_Source = WriteSourceUserSaved, pw_Hint = None\<rparr> sampleSys
        = (Inr ''x'', w')
    \<and> working_view w' = working_view sampleSys
    \<and> (\<exists>now. episodic_view w' = (episodic_view sampleSys)(''x'' \<mapsto> stampAdded now (sampleItem ''x'' ''hi'')))"
proof -
  let ?pw = "\<lparr>pw_Kind = KindWorking, pw_Item = sampleItem ''x'' ''hi'', pw_Source = WriteSourceUserSaved, pw_Hint = None\<rparr>"
  let ?d = "\<lparr>wd_Verdict = VerdictAccept, wd_Kind = KindEpisodic, wd_Item = sampleItem ''x'' ''hi'', wd_Reason = ''rule''\<rparr>"
  have pol: "pe_policy (sampleEnforcing sampleEnv) sampleCtx ?pw sampleSys = (?d, sampleSys)"
    by (simp add: sampleEnforcing_def samplePolicy_def)
  have m: "pe_mgr (sampleEnforcing sampleEnv) = engineManager sampleEnv" "policy_observer (sampleEnforcing sampleEnv) = Some 0"
    by (simp_all add: sampleEnforcing_def policy_observer_def)
  have "\<exists>w1. Manager_Add (engineManager sampleEnv) sampleCtx KindEpisodic (sampleItem ''x'' ''hi'') sampleSys = (Inr ''x'', w1)"
    by (simp add: Manager_Add_def engine_ops sampleSys_def store_add_def assignID_def time_Now_def queryEmbedding_def
        sampleEmbedder_def Let_def)
  then obtain w' where a: "Policy_Add (sampleEnforcing sampleEnv) sampleCtx ?pw sampleSys = (Inr ''x'', w')"
    using pol m by (auto simp: Policy_Add_def)
  have i: "(stampAdded now (sampleItem ''x'' ''hi''))\<lparr>ID := ''x''\<rparr> = stampAdded now (sampleItem ''x'' ''hi'')" for now
    by (simp add: stampAdded_def sampleItem_def)
  show ?thesis using a policy_add_enforced [OF sampleSys_inv pol m a] by (auto simp: added_def i)
qed

text \<open>
  C38. The adapter agrees with the enforcing manager, on the writes it can express: where the
  policy keeps the kind of the write, an addition through a memory guarded by the adapter
  gives the result and the engines of an addition of the system through the enforcing manager,
  which additionally reports the decision, when it stored or rejected the write. Where the
  policy accepts or redacts a write into another kind, the adapter refuses it with its own
  error and the memory is not called, while the enforcing manager stores it there.
\<close>

theorem adapter_agrees:
  assumes "requireMemory (pe_mgr p) kind = Inr mem" and "mem_Type mem = kind"
    and "pe_policy p c \<lparr>pw_Kind = kind, pw_Item = item, pw_Source = WriteSourceSystem, pw_Hint = None\<rparr> w = (d, w1)"
    and "mem_Add (WithSanitizer mem [Adapter_Sanitize \<lparr>Policy = pe_policy p\<rparr>]) c item w = (ra, wa)"
    and "Policy_Add p c \<lparr>pw_Kind = kind, pw_Item = item, pw_Source = WriteSourceSystem, pw_Hint = None\<rparr> w = (rp, wp)"
  shows "if wd_Kind d \<noteq> kind \<and> (wd_Verdict d = VerdictAccept \<or> wd_Verdict d = VerdictRedact)
    then (ra, wa) = (Inl ErrPolicyKindRerouteUnsupported, w1)
      \<and> rp = fst (Manager_Add (pe_mgr p) c (wd_Kind d) (wd_Item d) w1)
    else ra = rp
      \<and> wp = (if (\<exists>i. rp = Inr i) \<or> wd_Verdict d = VerdictReject
              then emit (policy_observer p) EventWritePolicyDecided
                (decidedAttrs \<lparr>pw_Kind = kind, pw_Item = item, pw_Source = WriteSourceSystem, pw_Hint = None\<rparr> d kind) wa
              else wa)"
proof (cases "wd_Verdict d = VerdictAccept \<or> wd_Verdict d = VerdictRedact")
  case True
  show ?thesis
  proof (cases "wd_Kind d = kind")
    case same: True
    obtain r w2 where a: "mem_Add mem c (wd_Item d) w1 = (r, w2)" by fastforce
    have "(ra, wa) = (r, w2)"
      using assms(2-4) True same a by (auto simp: WithSanitizer_Add Adapter_Sanitize_def)
    moreover have "(rp, wp) = (r, if \<exists>i. r = Inr i then emit (policy_observer p) EventWritePolicyDecided
        (decidedAttrs \<lparr>pw_Kind = kind, pw_Item = item, pw_Source = WriteSourceSystem, pw_Hint = None\<rparr> d kind) w2 else w2)"
      using assms(1,3,5) True same a by (cases r) (auto simp: Policy_Add_def Manager_Add_def)
    ultimately show ?thesis using same True by auto
  next
    case False
    obtain r w2 where a: "Manager_Add (pe_mgr p) c (wd_Kind d) (wd_Item d) w1 = (r, w2)" by fastforce
    have "(ra, wa) = (Inl ErrPolicyKindRerouteUnsupported, w1)"
      using assms(2-4) True False by (auto simp: WithSanitizer_Add Adapter_Sanitize_def)
    moreover have "rp = r" using assms(3,5) True a by (cases r) (auto simp: Policy_Add_def)
    ultimately show ?thesis using True False a by simp
  qed
next
  case False
  then show ?thesis using assms(2-5) by (auto simp: WithSanitizer_Add Adapter_Sanitize_def Policy_Add_def split: if_splits)
qed

theorem adapter_agrees_witness:
  "fst (mem_Add (WithSanitizer (episodicMemory sampleEnv) [Adapter_Sanitize \<lparr>Policy = samplePolicy\<rparr>]) sampleCtx
      (sampleItem ''x'' ''secret'') sampleSys)
    = fst (Policy_Add (sampleEnforcing sampleEnv) sampleCtx
        \<lparr>pw_Kind = KindEpisodic, pw_Item = sampleItem ''x'' ''secret'', pw_Source = WriteSourceSystem, pw_Hint = None\<rparr> sampleSys)"
proof -
  let ?pw = "\<lparr>pw_Kind = KindEpisodic, pw_Item = sampleItem ''x'' ''secret'', pw_Source = WriteSourceSystem, pw_Hint = None\<rparr>"
  have h: "requireMemory (pe_mgr (sampleEnforcing sampleEnv)) KindEpisodic = Inr (episodicMemory sampleEnv)"
      "mem_Type (episodicMemory sampleEnv :: sys Memory) = KindEpisodic"
      "pe_policy (sampleEnforcing sampleEnv) = samplePolicy"
    by (simp_all add: sampleEnforcing_def episodicMemory_def)
  have "wd_Kind (fst (samplePolicy sampleCtx ?pw sampleSys)) = KindEpisodic" by (simp add: samplePolicy_def)
  then show ?thesis
    using adapter_agrees [OF h(1,2) prod.collapse [symmetric] prod.collapse [symmetric] prod.collapse [symmetric],
        of sampleCtx "sampleItem ''x'' ''secret''" sampleSys] by (simp add: h(3))
qed

end
