(* ===== verification/ParallelSearch.thy ===== *)
theory ParallelSearch
  imports Scoped
begin

text \<open>
  \<^verbatim>\<open>parallel_search.go\<close>: the query of every kind in a goroutine of its own, with the
  answers received from a channel. The goroutines of one call only read the engines, so what
  the scheduler decides is the order in which they are served and the order in which their
  answers arrive; both are arbitrary (\<open>rank_at\<close> of the environment, as for the ranging
  over a map). The fan-out is shared with \<^verbatim>\<open>recall_engine.go\<close>.
\<close>


section \<open>Fan-out\<close>

record 's ParallelSearcher =
  ps_mgr :: "'s Manager"
  ps_cfg :: config

definition NewParallelSearcher :: "'s Manager option \<Rightarrow> Option option list \<Rightarrow> error + 's ParallelSearcher" where
  "NewParallelSearcher inner opts = (case inner of
       None \<Rightarrow> Inl ErrParallelManagerRequired
     | Some mgr \<Rightarrow> Inr \<lparr>ps_mgr = mgr, ps_cfg = newConfig opts\<rparr>)"

definition parallel_observer :: "'s ParallelSearcher \<Rightarrow> Observer" where
  "parallel_observer p = observer (ps_cfg p)"

text \<open>What a goroutine sends: the kind with its results or its error.\<close>

type_synonym parallelKindResult = "Kind \<times> (error + SearchResult list)"

fun run_searches :: "'s Manager \<Rightarrow> ctx \<Rightarrow> string \<Rightarrow> (Kind \<times> int) list \<Rightarrow> 's
    \<Rightarrow> parallelKindResult list \<times> 's" where
  "run_searches m c query [] w = ([], w)"
| "run_searches m c query ((k, budget) # jobs) w =
     (let (r, w) = Manager_Search m c k query budget w;
          (rs, w) = run_searches m c query jobs w
      in ((k, r) # rs, w))"

definition fan_out :: "env \<Rightarrow> 'z world_scheme Manager \<Rightarrow> ctx \<Rightarrow> string \<Rightarrow> (Kind \<times> int) list \<Rightarrow> 'z world_scheme
    \<Rightarrow> parallelKindResult list \<times> 'z world_scheme" where
  "fan_out E m c query jobs w =
     (let (started, w) = go_range E jobs w;
          (sent, w) = run_searches m c query started w
      in go_range E sent w)"

text \<open>The receiving loop: errors that \<open>skip\<close> accepts are passed over, others end it.\<close>

fun receive :: "(error \<Rightarrow> bool) \<Rightarrow> string \<Rightarrow> parallelKindResult list \<Rightarrow> (Kind, SearchResult list) gomap
    \<Rightarrow> error + (Kind, SearchResult list) gomap" where
  "receive skip msg [] out = Inr out"
| "receive skip msg ((k, Inl err) # rs) out =
     (if skip err then receive skip msg rs out else Inl (ErrWrapKind msg k err))"
| "receive skip msg ((k, Inr res) # rs) out = receive skip msg rs (mput k res out)"

definition kindDisabled :: "error \<Rightarrow> bool" where
  "kindDisabled err \<longleftrightarrow> errors_Is err ErrKindDisabled"

definition SearchAllParallel :: "env \<Rightarrow> 'z world_scheme ParallelSearcher \<Rightarrow> ctx \<Rightarrow> string \<Rightarrow> int
    \<Rightarrow> 'z world_scheme \<Rightarrow> (error + (Kind, SearchResult list) gomap) \<times> 'z world_scheme" where
  "SearchAllParallel E p c query topK w =
     (let (rs, w) = fan_out E (ps_mgr p) c query (map (\<lambda>k. (k, topK)) allKinds) w
      in (receive kindDisabled ''memory: parallel search'' rs [], w))"


section \<open>The receiving loop: facts\<close>

text \<open>
  With one answer per kind, the loop succeeds exactly when every error is skipped, and the
  order of arrival does not matter to what it collects.
\<close>

definition answered :: "parallelKindResult list \<Rightarrow> Kind \<Rightarrow> SearchResult list option" where
  "answered rs k = (case map_of rs k of Some (Inr res) \<Rightarrow> Some res | _ \<Rightarrow> None)"

lemma receive_ok:
  assumes "\<forall>(k, r) \<in> set rs. \<forall>err. r = Inl err \<longrightarrow> skip err" and "distinct (map fst rs)" and "mwf out"
  shows "\<exists>out'. receive skip msg rs out = Inr out' \<and> mwf out'
    \<and> (\<forall>k. mget out' k = (case answered rs k of Some res \<Rightarrow> Some res | None \<Rightarrow> mget out k))"
  using assms
proof (induction skip msg rs out rule: receive.induct)
  case (2 skip msg k err rs out)
  then have s: "skip err" by simp
  from 2(1) [OF s] 2(2-4) obtain out' where r: "receive skip msg rs out = Inr out'" "mwf out'"
    "\<forall>k. mget out' k = (case answered rs k of Some res \<Rightarrow> Some res | None \<Rightarrow> mget out k)" by auto
  have k: "answered rs k = None"
    using 2(3) by (simp add: answered_def map_of_eq_None_iff [THEN iffD2])
  have "answered ((k, Inl err) # rs) k' = answered rs k'" for k' using k by (simp add: answered_def)
  then show ?case using s r by simp
next
  case (3 skip msg k res rs out)
  from 3(1) 3(2-4) obtain out' where r: "receive skip msg rs (mput k res out) = Inr out'" "mwf out'"
    "\<forall>k'. mget out' k' = (case answered rs k' of Some res \<Rightarrow> Some res | None \<Rightarrow> mget (mput k res out) k')" by auto
  have k: "answered rs k = None"
    using 3(3) by (simp add: answered_def map_of_eq_None_iff [THEN iffD2])
  have "answered ((k, Inr res) # rs) k' = (if k' = k then Some res else answered rs k')" for k'
    by (simp add: answered_def)
  then show ?case using r k by (auto split: option.splits)
qed (simp add: answered_def)

lemma receive_error:
  "receive skip msg rs out = Inl e \<Longrightarrow> \<exists>k err. (k, Inl err) \<in> set rs \<and> \<not> skip err \<and> e = ErrWrapKind msg k err"
  by (induction skip msg rs out rule: receive.induct) (auto split: if_splits)

lemma receive_fails:
  assumes "(k, Inl err) \<in> set rs" and "\<not> skip err"
  shows "\<exists>e. receive skip msg rs out = Inl e"
  using assms by (induction skip msg rs out rule: receive.induct) auto


text \<open>The order of arrival decides at most which error is reported.\<close>

lemma receive_permuted:
  assumes "mset rs = mset sent" and "distinct (map fst rs)"
  shows "case receive skip msg rs [] of
      Inr out \<Rightarrow> mget out = answered rs \<and> (\<exists>out'. receive skip msg sent [] = Inr out' \<and> mget out' = mget out)
    | Inl err \<Rightarrow> (\<exists>k e. (k, Inl e) \<in> set rs \<and> err = ErrWrapKind msg k e) \<and> (\<exists>e. receive skip msg sent [] = Inl e)"
proof (cases "receive skip msg rs []")
  case (Inl err)
  obtain k e where "(k, Inl e) \<in> set rs" "\<not> skip e" "err = ErrWrapKind msg k e" using receive_error [OF Inl] by blast
  then show ?thesis using Inl receive_fails [of k e sent skip msg "[]"] mset_eq_setD [OF assms(1)] by auto
next
  case (Inr out)
  have set: "set sent = set rs" by (rule mset_eq_setD [OF assms(1) [symmetric]])
  have ds: "distinct (map fst sent)" using assms by (metis mset_eq_imp_distinct_iff mset_map)
  have ok: "\<forall>(k, x) \<in> set rs. \<forall>err. x = Inl err \<longrightarrow> skip err"
    using receive_fails [of _ _ rs skip msg "[]"] Inr by fastforce
  have 1: "mget out k = answered rs k" for k
    using receive_ok [OF ok assms(2) mwf_Nil, of msg] Inr by (auto simp: option.case_eq_if)
  obtain out' where 2: "receive skip msg sent [] = Inr out'" "\<And>k. mget out' k = answered sent k"
    using receive_ok [OF _ ds mwf_Nil, of skip msg] ok set by (auto simp: option.case_eq_if)
  have "map_of rs = map_of sent" using assms(2) ds set by (simp add: map_of_inject_set)
  then have "mget out' = mget out" by (intro ext) (simp add: 1 2(2) answered_def)
  then show ?thesis using Inr 1 2(1) by auto
qed


section \<open>Searches that only read\<close>

text \<open>
  The interface the fan-out relies on: a search changes nothing but the step counter, so
  every goroutine works on the state of the caller.
\<close>

locale reading_search =
  fixes m :: "'z world_scheme Manager"
  assumes search_tick: "\<exists>t. snd (Manager_Search m c k q n w) = w\<lparr>tick := t\<rparr>"
begin

text \<open>An answer of a goroutine: the tier's own, at some moment of the call.\<close>

definition served :: "ctx \<Rightarrow> string \<Rightarrow> (Kind \<times> int) list \<Rightarrow> 'z world_scheme \<Rightarrow> parallelKindResult \<Rightarrow> bool" where
  "served c q jobs w kr \<longleftrightarrow>
     (\<exists>n t. (fst kr, n) \<in> set jobs \<and> snd kr = fst (Manager_Search m c (fst kr) q n (w\<lparr>tick := t\<rparr>)))"

lemma served_mono: "served c q jobs w kr \<Longrightarrow> set jobs \<subseteq> set jobs' \<Longrightarrow> served c q jobs' w kr"
  by (auto simp: served_def)

lemma served_tick: "served c q jobs (w\<lparr>tick := t\<rparr>) kr \<Longrightarrow> served c q jobs w kr"
  by (auto simp: served_def)

lemma run_searches_result:
  "run_searches m c q jobs w = (rs, w') \<Longrightarrow>
    (\<exists>t. w' = w\<lparr>tick := t\<rparr>) \<and> map fst rs = map fst jobs \<and> (\<forall>kr \<in> set rs. served c q jobs w kr)"
proof (induction jobs arbitrary: w rs w')
  case Nil
  then show ?case by (auto intro: exI [of _ "tick w"])
next
  case (Cons job jobs)
  obtain k n where job: "job = (k, n)" by (cases job)
  obtain r w1 where s: "Manager_Search m c k q n w = (r, w1)" by fastforce
  obtain t where w1: "w1 = w\<lparr>tick := t\<rparr>" using search_tick [of c k q n w] s by auto
  obtain rs1 w2 where rest: "run_searches m c q jobs w1 = (rs1, w2)" by fastforce
  have rs: "rs = (k, r) # rs1" "w' = w2" using Cons.prems s rest job by simp_all
  note ih = Cons.IH [OF rest]
  have "\<exists>t. w' = w\<lparr>tick := t\<rparr>" using ih unfolding rs w1 by auto
  moreover have "served c q (job # jobs) w (k, r)"
    unfolding served_def job using s by (intro exI [of _ n] exI [of _ "tick w"]) simp
  moreover have "served c q (job # jobs) w kr" if kr: "kr \<in> set rs1" for kr
  proof -
    have "served c q jobs (w\<lparr>tick := t\<rparr>) kr" using ih kr unfolding w1 by blast
    then show ?thesis by (rule served_mono [OF served_tick]) auto
  qed
  ultimately show ?case using ih rs job by simp
qed

lemma fan_out_result:
  assumes "fan_out E m c q jobs w = (rs, w')" and "distinct (map fst jobs)"
  shows "(\<exists>t. w' = w\<lparr>tick := t\<rparr>) \<and> distinct (map fst rs) \<and> fst ` set rs = fst ` set jobs
    \<and> (\<forall>kr \<in> set rs. served c q jobs w kr)"
proof -
  let ?jobs = "shuffle (rank_at E (tick w)) jobs" and ?w = "w\<lparr>tick := Suc (tick w)\<rparr>"
  obtain sent w1 where run: "run_searches m c q ?jobs ?w = (sent, w1)" by fastforce
  have rs: "rs = shuffle (rank_at E (tick w1)) sent" "w' = w1\<lparr>tick := Suc (tick w1)\<rparr>"
    using assms(1) run by (simp_all add: fan_out_def go_range_def)
  note r = run_searches_result [OF run]
  have "mset (map fst ?jobs) = mset (map fst jobs)" by simp
  then have "distinct (map fst sent)" using assms(2) r by (metis mset_eq_imp_distinct_iff)
  moreover have "mset (map fst rs) = mset (map fst sent)" using rs by simp
  ultimately have d: "distinct (map fst rs)" by (metis mset_eq_imp_distinct_iff)
  have k: "fst ` set sent = fst ` set jobs"
    using arg_cong [of _ _ set, OF conjunct1 [OF conjunct2 [OF r]]] by simp
  have s: "served c q jobs w kr" if kr: "kr \<in> set rs" for kr
  proof -
    have "served c q ?jobs ?w kr" using r kr unfolding rs set_shuffle by blast
    then show ?thesis by (rule served_mono [OF served_tick]) simp
  qed
  have "\<exists>t. w' = w\<lparr>tick := t\<rparr>" using r unfolding rs by auto
  then show ?thesis using d k s rs(1) by simp
qed

end

text \<open>
  Serial against parallel: the serial search of the kinds in the order in which the goroutines
  were served makes the same calls at the same moments, and stops at the first failure.
\<close>

context reading_search
begin

lemma Manager_Search_disabled:
  assumes "k \<in> set allKinds" and "to_Memory (tierOf m k) = None"
  shows "\<exists>e. Manager_Search m c k q n w = (Inl e, w) \<and> kindDisabled e"
  using assms by (auto simp: Manager_Search_def requireMemory_def tierFor_def kindDisabled_def allKinds_def)

lemma Manager_Search_enabled:
  assumes "k \<in> set allKinds" and "to_Memory (tierOf m k) = Some mem"
  shows "Manager_Search m c k q n w = mem_Search mem c q n w"
  using assms
  by (auto simp: Manager_Search_def requireMemory_def tierFor_def requireLocalMemory_def asLocalMemory_def allKinds_def)

lemma SearchAll_loop_Cons:
  assumes k: "k \<in> set allKinds" and s: "Manager_Search m c k q n w = (r, w1)"
    and own: "\<forall>e. to_Memory (tierOf m k) \<noteq> None \<longrightarrow> r = Inl e \<longrightarrow> \<not> kindDisabled e"
  shows "SearchAll_loop m c q n (k # ks) out w = (case r of
      Inr res \<Rightarrow> SearchAll_loop m c q n ks (mput k res out) w1
    | Inl e \<Rightarrow> if kindDisabled e then SearchAll_loop m c q n ks out w1
        else ((out, Some (ErrWrapKind ''memory: manager search'' k e)), w1))"
proof (cases "to_Memory (tierOf m k)")
  case None
  then show ?thesis using Manager_Search_disabled [OF k None, of c q n w] s
    by (auto simp: requireLocalMemory_def asLocalMemory_def)
next
  case (Some mem)
  then have "mem_Search mem c q n w = (r, w1)" using Manager_Search_enabled [OF k Some, of c q n w] s by simp
  then show ?thesis using own Some by (auto simp: requireLocalMemory_def asLocalMemory_def split: sum.splits)
qed

lemma SearchAll_loop_receive:
  assumes "set ks \<subseteq> set allKinds" and "run_searches m c q (map (\<lambda>k. (k, n)) ks) w = (rs, w')"
    and "\<forall>k \<in> set ks. \<forall>t e. to_Memory (tierOf m k) \<noteq> None \<longrightarrow> fst (Manager_Search m c k q n (w\<lparr>tick := t\<rparr>)) = Inl e \<longrightarrow> \<not> kindDisabled e"
  shows "case receive kindDisabled msg rs out of
      Inr out' \<Rightarrow> SearchAll_loop m c q n ks out w = ((out', None), w')
    | Inl err \<Rightarrow> \<exists>k e out' w2. err = ErrWrapKind msg k e
        \<and> SearchAll_loop m c q n ks out w = ((out', Some (ErrWrapKind ''memory: manager search'' k e)), w2)"
  using assms
proof (induction ks arbitrary: w rs out)
  case Nil
  then show ?case by simp
next
  case (Cons k ks)
  obtain r w1 where s: "Manager_Search m c k q n w = (r, w1)" by fastforce
  obtain t1 where w1: "w1 = w\<lparr>tick := t1\<rparr>" using search_tick [of c k q n w] s by auto
  obtain rs1 where rest: "run_searches m c q (map (\<lambda>k. (k, n)) ks) w1 = (rs1, w')" and rs: "rs = (k, r) # rs1"
    using Cons.prems(2) s by (auto split: prod.splits)
  have "w\<lparr>tick := tick w\<rparr> = w" by simp
  then have own: "\<forall>e. to_Memory (tierOf m k) \<noteq> None \<longrightarrow> r = Inl e \<longrightarrow> \<not> kindDisabled e"
    using Cons.prems(3) s by (metis fst_conv list.set_intros(1))
  have k: "k \<in> set allKinds" using Cons.prems(1) by simp
  have ih: "case receive kindDisabled msg rs1 out of
      Inr out' \<Rightarrow> SearchAll_loop m c q n ks out w1 = ((out', None), w')
    | Inl err \<Rightarrow> \<exists>k e out' w2. err = ErrWrapKind msg k e
        \<and> SearchAll_loop m c q n ks out w1 = ((out', Some (ErrWrapKind ''memory: manager search'' k e)), w2)" for out
    by (rule Cons.IH [OF _ rest]) (use Cons.prems(1,3) w1 in auto)
  show ?case unfolding rs SearchAll_loop_Cons [OF k s own] using ih [of out] ih [of "mput k (projr r) out"]
    by (cases r) (simp_all split: sum.splits)
qed

end

lemma engine_search_tick: "\<exists>t. snd (Manager_Search (engineManager E) c k q n w) = w\<lparr>tick := t\<rparr>"
proof (cases k)
  case KindWorking
  then show ?thesis using Working_Search_tick [of E c q n w "wrk w"]
    by (simp add: Manager_Search_def workingMemory_def) (metis prod.collapse)
next
  case KindEpisodic
  then show ?thesis using Episodic_Search_tick [of E c q n w "epi w"]
    by (simp add: Manager_Search_def episodicMemory_def) (metis prod.collapse)
next
  case KindSemantic
  then show ?thesis using Semantic_Search_tick [of E c q n w "sem w"]
    by (simp add: Manager_Search_def semanticMemory_def) (metis prod.collapse)
next
  case (KindOther s)
  then show ?thesis by (intro exI [of _ "tick w"]) (simp add: Manager_Search_def requireMemory_def tierFor_def)
qed

interpretation engine_search: reading_search "engineManager E" for E
  by unfold_locales (rule engine_search_tick)


section \<open>Properties\<close>

text \<open>The sample engines answer every query.\<close>

lemma shuffle_single: "shuffle r [x] = [x]"
  by (simp add: shuffle_def)

lemmas sample_search =
  timeDecay_def time_Now_def shuffle_single Manager_Search_def Working_Search_def Working_score_def Episodic_Search_def
  Semantic_Search_def Candidates_def inMemory_Candidates_def queryEmbedding_def sampleEmbedder_def
  go_range_def snapshot_def Let_def split_beta

lemma sample_search_ok:
  assumes "k \<in> set allKinds"
  shows "\<exists>res. fst (Manager_Search (engineManager sampleEnv) sampleCtx k ''old'' 3 (sampleSys\<lparr>tick := t\<rparr>)) = Inr res"
proof -
  have trim: "strings_TrimSpace ''old'' \<noteq> ''''" by code_simp
  have tag: "parseTagPrefix ''old'' = (''old'', [])" by code_simp
  consider "k = KindWorking" | "k = KindEpisodic" | "k = KindSemantic" using assms by (auto simp: allKinds_def)
  then show ?thesis
  proof cases
    case 1
    then show ?thesis using trim by (auto simp: sample_search workingMemory_def sampleSys_def)
  next
    case 2
    then show ?thesis using trim by (auto simp: sample_search episodicMemory_def sampleSys_def)
  next
    case 3
    then show ?thesis using trim tag by (auto simp: sample_search semanticMemory_def sampleSys_def)
  qed
qed

text \<open>The order in which the goroutines of a fan-out over all kinds were served.\<close>

lemma fan_out_served:
  assumes "fan_out E m c q (map (\<lambda>k. (k, n)) allKinds) w = (rs, w')"
  obtains ks sent w1 where "mset ks = mset allKinds" and "mset rs = mset sent"
    and "run_searches m c q (map (\<lambda>k. (k, n)) ks) (w\<lparr>tick := Suc (tick w)\<rparr>) = (sent, w1)"
proof -
  let ?jobs = "shuffle (rank_at E (tick w)) (map (\<lambda>k. (k, n)) allKinds)"
  obtain sent w1 where run: "run_searches m c q ?jobs (w\<lparr>tick := Suc (tick w)\<rparr>) = (sent, w1)" by fastforce
  have "\<forall>j \<in> set ?jobs. j = (fst j, n)" by auto
  then have jobs: "map (\<lambda>k. (k, n)) (map fst ?jobs) = ?jobs" unfolding map_map comp_def by (intro map_idI) metis
  have "mset (map fst ?jobs) = mset allKinds" by (simp add: image_mset.compositionality o_def)
  moreover have "mset rs = mset sent" using assms run by (auto simp: fan_out_def go_range_def)
  ultimately show thesis using that run jobs by metis
qed

text \<open>
  C9. The parallel search is a serial one: whatever order the goroutines are served in and
  whatever order their answers arrive in, there is an order of the three kinds such that the
  serial loop, asking the kinds one after the other in that order from the moment the
  goroutines start, succeeds exactly when the parallel search does, and then with the same map,
  which has an entry for every kind. When the parallel search fails, it reports the error some
  engine really gave, wrapped with its kind, and the serial loop fails too. Neither changes
  anything but the step counter. The engines must not themselves answer with the error that
  means a disabled kind, which the parallel search would pass over and the serial one report.
\<close>

theorem parallel_equals_serial:
  assumes own: "\<forall>k \<in> set allKinds. \<forall>t e. fst (Manager_Search (engineManager E) c k q n (w\<lparr>tick := t\<rparr>)) = Inl e
      \<longrightarrow> \<not> errors_Is e ErrKindDisabled"
    and par: "SearchAllParallel E \<lparr>ps_mgr = engineManager E, ps_cfg = cfg\<rparr> c q n w = (r, w')"
  shows "\<exists>ks. mset ks = mset allKinds \<and> (\<exists>t. w' = w\<lparr>tick := t\<rparr>)
    \<and> (let serial = fst (SearchAll_loop (engineManager E) c q n ks [] (w\<lparr>tick := Suc (tick w)\<rparr>))
       in case r of
         Inr out \<Rightarrow> snd serial = None \<and> mget out = mget (fst serial) \<and> dom (mget out) = set allKinds
       | Inl err \<Rightarrow> (\<exists>k e. k \<in> set allKinds \<and> err = ErrWrapKind ''memory: parallel search'' k e
             \<and> (\<exists>t. fst (Manager_Search (engineManager E) c k q n (w\<lparr>tick := t\<rparr>)) = Inl e))
           \<and> (\<exists>k e. snd serial = Some (ErrWrapKind ''memory: manager search'' k e)))"
proof -
  let ?m = "engineManager E" and ?jobs = "map (\<lambda>k. (k, n)) allKinds" and ?msg = "''memory: parallel search''"
  let ?w = "w\<lparr>tick := Suc (tick w)\<rparr>"
  obtain rs where f: "fan_out E ?m c q ?jobs w = (rs, w')" and r: "r = receive kindDisabled ?msg rs []"
    using par by (auto simp: SearchAllParallel_def split: prod.splits)
  obtain ks sent w1 where ks: "mset ks = mset allKinds" and sent: "mset rs = mset sent"
    and run: "run_searches ?m c q (map (\<lambda>k. (k, n)) ks) ?w = (sent, w1)" by (rule fan_out_served [OF f])
  have set: "set ks = set allKinds" "set sent = set rs" using ks sent by (metis set_mset_mset)+
  have "distinct (map fst ?jobs)" by (simp add: allKinds_def)
  from engine_search.fan_out_result [OF f this] obtain t where w': "w' = w\<lparr>tick := t\<rparr>"
    and rs: "distinct (map fst rs)" "fst ` set rs = set allKinds" "\<forall>kr \<in> set rs. engine_search.served E c q ?jobs w kr"
    by (auto simp: image_image)
  have ans: "k \<in> set allKinds \<and> (\<exists>t. fst (Manager_Search ?m c k q n (w\<lparr>tick := t\<rparr>)) = x)" if "(k, x) \<in> set rs" for k x
    using bspec [OF rs(3) that] by (auto simp: engine_search.served_def)
  then have skip: "\<not> kindDisabled e" if "(k, Inl e) \<in> set rs" for k e
    using own that unfolding kindDisabled_def by blast
  have serial: "case receive kindDisabled ?msg sent [] of
      Inr out' \<Rightarrow> SearchAll_loop ?m c q n ks [] ?w = ((out', None), w1)
    | Inl err \<Rightarrow> \<exists>k e out' w2. err = ErrWrapKind ?msg k e
        \<and> SearchAll_loop ?m c q n ks [] ?w = ((out', Some (ErrWrapKind ''memory: manager search'' k e)), w2)"
    by (rule engine_search.SearchAll_loop_receive [OF _ run]) (use own set in \<open>auto simp: kindDisabled_def\<close>)
  have dom: "answered rs k \<noteq> None \<longleftrightarrow> k \<in> set allKinds" if ok: "r = Inr out" for k out
  proof
    assume "k \<in> set allKinds"
    then obtain x where x: "(k, x) \<in> set rs" using rs(2) by (metis (no_types) imageE prod.collapse)
    then obtain res where "x = Inr res"
      using receive_fails [of k _ rs kindDisabled ?msg "[]"] skip r ok by (cases x) fastforce+
    then show "answered rs k \<noteq> None" using x rs(1) by (simp add: answered_def)
  next
    assume "answered rs k \<noteq> None"
    then show "k \<in> set allKinds" using ans by (auto simp: answered_def split: option.splits dest: map_of_SomeD)
  qed
  note perm = receive_permuted [OF sent rs(1), where skip = kindDisabled and msg = ?msg, folded r]
  show ?thesis
  proof (cases r)
    case (Inl err)
    then obtain k e where "(k, Inl e) \<in> set rs" "err = ErrWrapKind ?msg k e" using perm by auto
    moreover obtain k' e' out' w2 where "SearchAll_loop ?m c q n ks [] ?w
        = ((out', Some (ErrWrapKind ''memory: manager search'' k' e')), w2)" using perm serial Inl by auto
    ultimately show ?thesis unfolding Let_def Inl using ks w' ans by (intro exI [of _ ks]) (simp, metis)
  next
    case (Inr out)
    then obtain out' where out: "mget out = answered rs" "receive kindDisabled ?msg sent [] = Inr out'" "mget out' = mget out"
      using perm by auto
    have "dom (mget out) = set allKinds" using dom [OF Inr] unfolding out(1) by blast
    then show ?thesis unfolding Let_def Inr using ks w' serial out by (intro exI [of _ ks]) auto
  qed
qed

theorem parallel_equals_serial_witness:
  "\<exists>out w' ks. SearchAllParallel sampleEnv \<lparr>ps_mgr = engineManager sampleEnv, ps_cfg = \<lparr>observer = None\<rparr>\<rparr>
      sampleCtx ''old'' 3 sampleSys = (Inr out, w') \<and> mset ks = mset allKinds
    \<and> mget out = mget (fst (fst (SearchAll_loop (engineManager sampleEnv) sampleCtx ''old'' 3 ks [] (sampleSys\<lparr>tick := Suc 0\<rparr>))))"
proof -
  obtain r w' where p: "SearchAllParallel sampleEnv \<lparr>ps_mgr = engineManager sampleEnv, ps_cfg = \<lparr>observer = None\<rparr>\<rparr>
      sampleCtx ''old'' 3 sampleSys = (r, w')" by fastforce
  have never: "fst (Manager_Search (engineManager sampleEnv) sampleCtx k ''old'' 3 (sampleSys\<lparr>tick := t\<rparr>)) \<noteq> Inl e"
    if "k \<in> set allKinds" for k t e using sample_search_ok [OF that, of t] by auto
  have own: "\<forall>k \<in> set allKinds. \<forall>t e. fst (Manager_Search (engineManager sampleEnv) sampleCtx k ''old'' 3 (sampleSys\<lparr>tick := t\<rparr>)) = Inl e
      \<longrightarrow> \<not> errors_Is e ErrKindDisabled" using never by blast
  have "tick sampleSys = 0" by (simp add: sampleSys_def)
  then show ?thesis using parallel_equals_serial [OF own p] p never by (cases r) (auto simp: Let_def)
qed

end
