(* ===== verification/UnifiedSearch.thy ===== *)
theory UnifiedSearch
  imports ParallelSearch
begin

text \<open>
  \<^verbatim>\<open>unified_search.go\<close>: the answers of all tiers merged into one list, with
  duplicates removed, sorted and cut. The merge is specified on its own, for any list of
  candidates; \<^verbatim>\<open>recall_engine.go\<close> rests on the same specification.
\<close>


section \<open>Merging\<close>

record 's UnifiedSearcher =
  us_mgr :: "'s Manager"
  us_cfg :: config

definition NewUnifiedSearcher :: "'s Manager option \<Rightarrow> Option option list \<Rightarrow> error + 's UnifiedSearcher" where
  "NewUnifiedSearcher inner opts = (case inner of
       None \<Rightarrow> Inl ErrUnifiedManagerRequired
     | Some mgr \<Rightarrow> Inr \<lparr>us_mgr = mgr, us_cfg = newConfig opts\<rparr>)"

definition unified_observer :: "'s UnifiedSearcher \<Rightarrow> Observer" where
  "unified_observer u = observer (us_cfg u)"

text \<open>Two results are duplicates when identifier and content agree.\<close>

type_synonym dedupeKey = "string \<times> string"

definition resultKey :: "SearchResult \<Rightarrow> dedupeKey" where
  "resultKey r = (ID (sr_Item r), Content (sr_Item r))"

definition improves :: "SearchResult \<Rightarrow> SearchResult option \<Rightarrow> bool" where
  "improves r prev \<longleftrightarrow> (case prev of None \<Rightarrow> True | Some p \<Rightarrow> f_gt (sr_Score r) (sr_Score p))"

fun best_loop :: "SearchResult list \<Rightarrow> (dedupeKey, SearchResult) gomap \<Rightarrow> (dedupeKey, SearchResult) gomap" where
  "best_loop [] best = best"
| "best_loop (r # rs) best =
     best_loop rs (if improves r (mget best (resultKey r)) then mput (resultKey r) r best else best)"

definition merge_less :: "SearchResult \<Rightarrow> SearchResult \<Rightarrow> bool" where
  "merge_less a b =
     (if \<not> f_eq (sr_Score a) (sr_Score b) then f_gt (sr_Score a) (sr_Score b)
      else ID (sr_Item a) < ID (sr_Item b))"

text \<open>Indexing the map of results; a missing kind gives the nil slice.\<close>

definition resultsFor :: "(Kind, SearchResult list) gomap \<Rightarrow> Kind \<Rightarrow> SearchResult list" where
  "resultsFor perKind kind = (case mget perKind kind of Some rs \<Rightarrow> rs | None \<Rightarrow> [])"

definition candidates :: "(Kind, SearchResult list) gomap \<Rightarrow> SearchResult list" where
  "candidates perKind = concat (map (resultsFor perKind) allKinds)"

definition cutTo :: "int \<Rightarrow> 'a list \<Rightarrow> 'a list" where
  "cutTo topK out = (if topK > 0 \<and> int (length out) > topK then take (nat topK) out else out)"

definition SearchUnified :: "env \<Rightarrow> 'z world_scheme UnifiedSearcher \<Rightarrow> ctx \<Rightarrow> string \<Rightarrow> int
    \<Rightarrow> 'z world_scheme \<Rightarrow> (error + SearchResult list) \<times> 'z world_scheme" where
  "SearchUnified E u c query topK w =
     (let w = emit (unified_observer u) EventSearchTotal [(''query_len'', AInt (int (length query)))] w
      in case NewParallelSearcher (Some (us_mgr u)) [Some (WithObserver (unified_observer u))] of
           Inl err \<Rightarrow> (Inl (ErrPanic ''nil pointer dereference''), w)
         | Inr ps \<Rightarrow> (case SearchAllParallel E ps c query topK w of
             (Inl err, w) \<Rightarrow> (Inl (ErrWrap ''memory: unified search fan-out'' err), w)
           | (Inr perKind, w) \<Rightarrow>
               let best = best_loop (candidates perKind) [];
                   (ranged, w) = go_range E best w;
                   out = cutTo topK (sort_by merge_less (map snd ranged));
                   w = emit (unified_observer u) EventSearchHits [(''n'', AInt (int (length out)))] w
               in (Inr out, w)))"


section \<open>The order and the map of best results\<close>

interpretation merge_order: comparator merge_less "\<lambda>r. sr_Score r \<noteq> NaN"
proof unfold_locales
  fix a b c :: SearchResult
  assume "sr_Score a \<noteq> NaN" "sr_Score b \<noteq> NaN" "sr_Score c \<noteq> NaN" and "merge_less a c"
  then show "merge_less a b \<or> merge_less b c"
    using f_lt_neg_trans [of "sr_Score b" "sr_Score c" "sr_Score a"] f_lt_tie [of "sr_Score a" "sr_Score b"]
      f_lt_tie [of "sr_Score b" "sr_Score c"] f_lt_tie [of "sr_Score a" "sr_Score c"]
    by (auto simp: merge_less_def split: if_splits)
qed (auto simp: merge_less_def split: if_splits dest: f_lt_asym)

text \<open>
  What the map holds after a list of results: one entry per key, one of the results with
  that key, and, where scores are numbers, none better.
\<close>

definition best_of :: "(dedupeKey, SearchResult) gomap \<Rightarrow> SearchResult list \<Rightarrow> bool" where
  "best_of best rs \<longleftrightarrow> mwf best \<and> mkeys best = resultKey ` set rs
     \<and> (\<forall>k v. mget best k = Some v \<longrightarrow> v \<in> set rs \<and> resultKey v = k
          \<and> ((\<forall>r \<in> set rs. sr_Score r \<noteq> NaN) \<longrightarrow> (\<forall>r \<in> set rs. resultKey r = k \<longrightarrow> \<not> f_lt (sr_Score v) (sr_Score r))))"

lemma best_ofD:
  assumes "best_of best rs" and "mget best k = Some v"
  shows "v \<in> set rs" "resultKey v = k"
    "\<forall>r \<in> set rs. sr_Score r \<noteq> NaN \<Longrightarrow> r \<in> set rs \<Longrightarrow> resultKey r = k \<Longrightarrow> \<not> f_lt (sr_Score v) (sr_Score r)"
  using assms unfolding best_of_def by blast+

lemma best_ofI:
  assumes "mwf best" and "mkeys best = resultKey ` set rs"
    and "\<And>k v. mget best k = Some v \<Longrightarrow> v \<in> set rs \<and> resultKey v = k"
    and "\<And>k v r. mget best k = Some v \<Longrightarrow> \<forall>r \<in> set rs. sr_Score r \<noteq> NaN \<Longrightarrow> r \<in> set rs \<Longrightarrow> resultKey r = k
      \<Longrightarrow> \<not> f_lt (sr_Score v) (sr_Score r)"
  shows "best_of best rs"
  unfolding best_of_def
proof (intro conjI allI impI ballI)
  fix k v
  assume v: "mget best k = Some v"
  show "v \<in> set rs" "resultKey v = k" using assms(3) [OF v] by simp_all
  fix r
  assume "\<forall>r \<in> set rs. sr_Score r \<noteq> NaN" "r \<in> set rs" "resultKey r = k"
  then show "\<not> f_lt (sr_Score v) (sr_Score r)" by (rule assms(4) [OF v])
qed (rule assms(1,2))+

lemma best_of_step:
  assumes b: "best_of best seen"
  shows "best_of (if improves r (mget best (resultKey r)) then mput (resultKey r) r best else best) (seen @ [r])"
proof -
  have wf: "mwf best" and keys: "mkeys best = resultKey ` set seen" using b by (simp_all add: best_of_def)
  have none: "resultKey x \<noteq> resultKey r" if "mget best (resultKey r) = None" "x \<in> set seen" for x
    using that keys by (metis imageI mget_None_iff)
  show ?thesis
  proof (cases "improves r (mget best (resultKey r))")
    case True
    have better: "\<not> f_lt (sr_Score r) (sr_Score x)"
      if x: "x \<in> set seen" "resultKey x = resultKey r" and nan: "\<forall>x \<in> set seen. sr_Score x \<noteq> NaN" for x
    proof (cases "mget best (resultKey r)")
      case (Some p)
      have "f_lt (sr_Score p) (sr_Score r)" using True Some by (simp add: improves_def)
      moreover have "\<not> f_lt (sr_Score p) (sr_Score x)" using best_ofD(3) [OF b Some nan] x by simp
      ultimately show ?thesis using f_lt_asym f_lt_neg_trans f_lt_not_NaN by metis
    qed (use none x in blast)
    have "best_of (mput (resultKey r) r best) (seen @ [r])"
    proof (rule best_ofI)
      fix k v x
      assume v: "mget (mput (resultKey r) r best) k = Some v"
      show "v \<in> set (seen @ [r]) \<and> resultKey v = k"
        using v best_ofD(1,2) [OF b, of k v] by (cases "k = resultKey r") auto
      assume nan: "\<forall>r \<in> set (seen @ [r]). sr_Score r \<noteq> NaN" and x: "x \<in> set (seen @ [r])" "resultKey x = k"
      show "\<not> f_lt (sr_Score v) (sr_Score x)"
        using v nan x better best_ofD(3) [OF b, of k v x] by (cases "k = resultKey r") auto
    qed (use wf keys in \<open>auto simp: mkeys_mput\<close>)
    then show ?thesis using True by simp
  next
    case False
    then obtain p where p: "mget best (resultKey r) = Some p" "\<not> f_lt (sr_Score p) (sr_Score r)"
      by (auto simp: improves_def split: option.splits)
    have same: "resultKey r \<in> resultKey ` set seen" using best_ofD(1,2) [OF b p(1)] by (metis imageI)
    have "best_of best (seen @ [r])"
    proof (rule best_ofI)
      fix k v x
      assume v: "mget best k = Some v"
      show "v \<in> set (seen @ [r]) \<and> resultKey v = k" using best_ofD(1,2) [OF b v] by simp
      assume nan: "\<forall>r \<in> set (seen @ [r]). sr_Score r \<noteq> NaN" and x: "x \<in> set (seen @ [r])" "resultKey x = k"
      show "\<not> f_lt (sr_Score v) (sr_Score x)"
        using v nan x p best_ofD(3) [OF b v, of x] by (cases "x = r") auto
    qed (use wf keys same in \<open>auto simp: insert_absorb\<close>)
    then show ?thesis using False by simp
  qed
qed

lemma best_loop_best_of: "best_of best seen \<Longrightarrow> best_of (best_loop rs best) (seen @ rs)"
proof (induction rs arbitrary: best seen)
  case (Cons r rs)
  show ?case using Cons.IH [OF best_of_step [OF Cons.prems, of r]] by simp
qed simp

lemma best_loop_all: "best_of (best_loop rs []) rs"
  using best_loop_best_of [of "[]" "[]" rs] by (simp add: best_of_def)


section \<open>The specification of a merge\<close>

text \<open>
  \<open>out\<close> is a merge of the candidates \<open>cs\<close> to at most \<open>n\<close> results: chosen
  among them, without duplicates, best first; and every candidate left out is either a
  duplicate of a result that scores at least as high, or outranked by every result of a
  full list.
\<close>

definition merge_of :: "nat \<Rightarrow> SearchResult list \<Rightarrow> SearchResult list \<Rightarrow> bool" where
  "merge_of n cs out \<longleftrightarrow> length out \<le> n \<and> set out \<subseteq> set cs \<and> distinct (map resultKey out)
     \<and> ((\<forall>r \<in> set cs. sr_Score r \<noteq> NaN) \<longrightarrow>
          sorted_wrt (\<lambda>a b. \<not> f_lt (sr_Score a) (sr_Score b)) out
          \<and> (\<forall>r \<in> set cs. (\<exists>x \<in> set out. resultKey x = resultKey r \<and> \<not> f_lt (sr_Score x) (sr_Score r))
               \<or> length out = n \<and> (\<forall>x \<in> set out. \<not> f_lt (sr_Score x) (sr_Score r))))"

lemma merge_less_score: "\<not> merge_less b a \<Longrightarrow> sr_Score a \<noteq> NaN \<Longrightarrow> \<not> f_lt (sr_Score a) (sr_Score b)"
  by (auto simp: merge_less_def split: if_splits)

text \<open>A sorted permutation of the best results, cut to a positive length, is a merge.\<close>

lemma merge_of_best:
  assumes b: "best_of best cs" and vs: "mset vs = mset (map snd best)" and n: "0 < k"
  shows "merge_of (nat k) cs (cutTo k (sort_by merge_less vs))"
proof -
  let ?s = "sort_by merge_less vs" and ?out = "cutTo k (sort_by merge_less vs)"
  have wf: "mwf best" using b by (simp add: best_of_def)
  have out: "?out = take (nat k) ?s" using n by (simp add: cutTo_def)
  have vals: "v \<in> set vs \<longleftrightarrow> (\<exists>key. mget best key = Some v)" for v
  proof -
    have "v \<in> set vs \<longleftrightarrow> (\<exists>key. (key, v) \<in> set best)" using mset_eq_setD [OF vs] by force
    then show ?thesis using in_mget_Some [OF wf] mget_Some_in by metis
  qed
  then have vkey: "mget best (resultKey v) = Some v \<and> v \<in> set cs" if "v \<in> set vs" for v
    using that b by (auto simp: best_of_def)
  have "map resultKey (map snd best) = map fst best"
    using in_mget_Some [OF wf] best_ofD(2) [OF b] unfolding map_map by (intro map_cong) (auto simp: comp_def)
  then have "distinct (map resultKey (map snd best))" using wf unfolding mwf_def by (simp only:)
  moreover have "mset (map resultKey ?s) = mset (map resultKey (map snd best))"
    using arg_cong [OF vs, of "image_mset resultKey"] by (simp only: mset_map mset_sort_by)
  ultimately have d: "distinct (map resultKey ?s)" by (metis mset_eq_imp_distinct_iff)
  have sub: "set ?out \<subseteq> set cs" using vkey set_take_subset [of "nat k" ?s] unfolding out by auto
  have dist: "distinct (map resultKey ?out)" using d unfolding out by (simp add: distinct_take take_map [symmetric])
  have nanrest: "sorted_wrt (\<lambda>a b. \<not> f_lt (sr_Score a) (sr_Score b)) ?out
      \<and> (\<forall>r \<in> set cs. (\<exists>x \<in> set ?out. resultKey x = resultKey r \<and> \<not> f_lt (sr_Score x) (sr_Score r))
           \<or> length ?out = nat k \<and> (\<forall>x \<in> set ?out. \<not> f_lt (sr_Score x) (sr_Score r)))"
    if nan: "\<forall>r \<in> set cs. sr_Score r \<noteq> NaN"
  proof (intro conjI ballI)
    have ok: "\<forall>v \<in> set vs. sr_Score v \<noteq> NaN" using vkey nan by blast
    have "sorted_wrt (\<lambda>a b. \<not> merge_less b a) ?out"
      unfolding out by (intro sorted_wrt_take merge_order.sorted_sort_by ok)
    then show "sorted_wrt (\<lambda>a b. \<not> f_lt (sr_Score a) (sr_Score b)) ?out"
      by (rule sorted_wrt_mono_rel [rotated]) (use sub nan in \<open>auto dest: merge_less_score\<close>)
    fix r assume r: "r \<in> set cs"
    then obtain v where v: "mget best (resultKey r) = Some v"
      using b by (metis best_of_def imageI mget_None_iff option.exhaust)
    then have "v \<in> set vs" unfolding vals by blast
    then have vr: "resultKey v = resultKey r" "\<not> f_lt (sr_Score v) (sr_Score r)" "v \<in> set ?s"
      using best_ofD(2,3) [OF b v] nan r by simp_all
    show "(\<exists>x \<in> set ?out. resultKey x = resultKey r \<and> \<not> f_lt (sr_Score x) (sr_Score r))
         \<or> length ?out = nat k \<and> (\<forall>x \<in> set ?out. \<not> f_lt (sr_Score x) (sr_Score r))"
    proof (cases "v \<in> set ?out")
      case False
      have split: "?s = ?out @ drop (nat k) ?s" unfolding out by simp
      then have late: "v \<in> set (drop (nat k) ?s)" using False vr(3) by (metis Un_iff set_append)
      then have "nat k < length ?s" by (cases "nat k < length ?s") simp_all
      then have "length ?out = nat k" unfolding out by simp
      moreover have "\<not> f_lt (sr_Score x) (sr_Score r)" if x: "x \<in> set ?out" for x
      proof -
        have "\<not> merge_less v x"
          by (rule merge_order.take_sort_by_best [OF ok _ late]) (use x out in simp)
        moreover have "sr_Score x \<noteq> NaN" "sr_Score v \<noteq> NaN" using sub nan x vr(3) ok by auto
        ultimately show ?thesis using merge_less_score vr(2) f_lt_neg_trans by metis
      qed
      ultimately show ?thesis by blast
    qed (use vr in blast)
  qed
  show ?thesis unfolding merge_of_def using sub dist nanrest by (simp add: out)
qed

end
