(* ===== verification/RecallEngine.thy ===== *)
theory RecallEngine
  imports UnifiedSearch "HOL-Library.Word"
begin

unbundle bit_operations_syntax

text \<open>
  \<^verbatim>\<open>recall_engine.go\<close>: the recall over selected tiers, with budgets, the merge of
  \<open>UnifiedSearch\<close>, the count of dropped candidates and the provenance of the results.
\<close>


section \<open>Options and results\<close>

type_synonym TierMask = "8 word"

definition TierWorking :: TierMask where "TierWorking = 1"
definition TierEpisodic :: TierMask where "TierEpisodic = 2"
definition TierSemantic :: TierMask where "TierSemantic = 4"
definition AllTiers :: TierMask where "AllTiers = TierWorking OR TierEpisodic OR TierSemantic"

record RecallOptions =
  ro_TopK :: int
  ro_Tiers :: TierMask
  ro_Budgets :: "(Kind, int) gomap"
  ro_IncludeProvenance :: bool

record TierStats =
  ts_Considered :: nat
  ts_Returned :: nat

text \<open>\<^verbatim>\<open>PerTier\<close> is \<open>None\<close> when it is the nil map.\<close>

record UnifiedRecall =
  ur_Results :: "SearchResult list"
  ur_PerTier :: "(Kind, TierStats) gomap option"
  ur_TotalDropped :: int

record 's RecallEngine =
  re_mgr :: "'s Manager"
  re_cfg :: config

definition NewRecallEngine :: "'s Manager option \<Rightarrow> Option option list \<Rightarrow> error + 's RecallEngine" where
  "NewRecallEngine mgr opts = (case mgr of
       None \<Rightarrow> Inl ErrRecallEngineManagerRequired
     | Some m \<Rightarrow> Inr \<lparr>re_mgr = m, re_cfg = newConfig opts\<rparr>)"

definition recall_observer :: "'s RecallEngine \<Rightarrow> Observer" where
  "recall_observer r = observer (re_cfg r)"


section \<open>Fan-out\<close>

definition normalizeRecall :: "RecallOptions \<Rightarrow> RecallOptions" where
  "normalizeRecall opts =
     (let opts = (if ro_Tiers opts = 0 then opts\<lparr>ro_Tiers := AllTiers\<rparr> else opts)
      in if ro_TopK opts \<le> 0 then opts\<lparr>ro_TopK := 10\<rparr> else opts)"

definition pick :: "'s Manager \<Rightarrow> TierMask \<Rightarrow> Kind \<Rightarrow> TierMask \<Rightarrow> Kind list" where
  "pick m tiers k tier = (if tiers AND tier = 0 then [] else if HasKind m k then [k] else [])"

definition participating :: "'s Manager \<Rightarrow> TierMask \<Rightarrow> Kind list" where
  "participating m tiers =
     pick m tiers KindWorking TierWorking @ pick m tiers KindEpisodic TierEpisodic
     @ pick m tiers KindSemantic TierSemantic"

definition budgetFor :: "RecallOptions \<Rightarrow> Kind \<Rightarrow> int" where
  "budgetFor opts kind = (case mget (ro_Budgets opts) kind of
       Some b \<Rightarrow> if b > 0 then b else ro_TopK opts
     | None \<Rightarrow> ro_TopK opts)"

definition tierDisabled :: "error \<Rightarrow> bool" where
  "tierDisabled err \<longleftrightarrow> errors_Is err ErrKindDisabled \<or> errors_Is err ErrTierDisabled"

definition recall_search :: "env \<Rightarrow> 'z world_scheme Manager \<Rightarrow> ctx \<Rightarrow> string \<Rightarrow> RecallOptions
    \<Rightarrow> 'z world_scheme \<Rightarrow> (error + (Kind, SearchResult list) gomap) \<times> 'z world_scheme" where
  "recall_search E m c query opts w =
     (let (rs, w) = fan_out E m c query
            (map (\<lambda>k. (k, budgetFor opts k)) (participating m (ro_Tiers opts))) w
      in (receive tierDisabled ''memory: recall'' rs [], w))"


section \<open>Merge with provenance\<close>

type_synonym dedupeVal = "SearchResult \<times> Kind"

fun recall_best :: "Kind \<Rightarrow> SearchResult list \<Rightarrow> (dedupeKey, dedupeVal) gomap \<Rightarrow> (dedupeKey, dedupeVal) gomap" where
  "recall_best kind [] best = best"
| "recall_best kind (sr # rs) best =
     recall_best kind rs (if improves sr (map_option fst (mget best (resultKey sr)))
       then mput (resultKey sr) (sr, kind) best else best)"

fun recall_tiers :: "(Kind, SearchResult list) gomap \<Rightarrow> Kind list \<Rightarrow> (dedupeKey, dedupeVal) gomap \<Rightarrow> (Kind, nat) gomap
    \<Rightarrow> nat \<Rightarrow> (dedupeKey, dedupeVal) gomap \<times> (Kind, nat) gomap \<times> nat" where
  "recall_tiers perKind [] best considered cands = (best, considered, cands)"
| "recall_tiers perKind (kind # kinds) best considered cands =
     (let results = resultsFor perKind kind
      in recall_tiers perKind kinds (recall_best kind results best)
           (mput kind (length results) considered) (cands + length results))"

fun origin_loop :: "(dedupeKey \<times> dedupeVal) list \<Rightarrow> (dedupeKey, Kind) gomap \<Rightarrow> (dedupeKey, Kind) gomap" where
  "origin_loop [] origin = origin"
| "origin_loop ((k, v) # rest) origin = origin_loop rest (mput k (snd v) origin)"

fun perTier_init :: "(Kind, nat) gomap \<Rightarrow> Kind list \<Rightarrow> (Kind, TierStats) gomap \<Rightarrow> (Kind, TierStats) gomap" where
  "perTier_init considered [] perTier = perTier"
| "perTier_init considered (kind # kinds) perTier =
     perTier_init considered kinds
       (mput kind \<lparr>ts_Considered = (case mget considered kind of Some n \<Rightarrow> n | None \<Rightarrow> 0), ts_Returned = 0\<rparr> perTier)"

definition statsFor :: "(Kind, TierStats) gomap \<Rightarrow> Kind \<Rightarrow> TierStats" where
  "statsFor perTier kind = (case mget perTier kind of Some st \<Rightarrow> st | None \<Rightarrow> \<lparr>ts_Considered = 0, ts_Returned = 0\<rparr>)"

fun returned_loop :: "(dedupeKey, Kind) gomap \<Rightarrow> SearchResult list \<Rightarrow> (Kind, TierStats) gomap \<Rightarrow> (Kind, TierStats) gomap" where
  "returned_loop origin [] perTier = perTier"
| "returned_loop origin (sr # rest) perTier = (case mget origin (resultKey sr) of
       None \<Rightarrow> returned_loop origin rest perTier
     | Some kind \<Rightarrow>
         let st = statsFor perTier kind
         in returned_loop origin rest (mput kind (st\<lparr>ts_Returned := Suc (ts_Returned st)\<rparr>) perTier))"

definition maybePerTier :: "RecallOptions \<Rightarrow> (Kind, TierStats) gomap option" where
  "maybePerTier opts = (if \<not> ro_IncludeProvenance opts then None else Some [])"

definition recall_merge :: "env \<Rightarrow> RecallOptions \<Rightarrow> Kind list \<Rightarrow> (Kind, SearchResult list) gomap
    \<Rightarrow> 'z world_scheme \<Rightarrow> UnifiedRecall \<times> 'z world_scheme" where
  "recall_merge E opts part perKind w =
     (let (best, considered, totalCandidates) = recall_tiers perKind allKinds [] [] 0;
          (ranged, w) = go_range E best w;
          origin = origin_loop ranged [];
          ordered = sort_by merge_less (map (fst \<circ> snd) ranged);
          merged = cutTo (ro_TopK opts) ordered;
          totalDropped = int totalCandidates - int (length ordered)
            + (if ro_TopK opts > 0 \<and> int (length ordered) > ro_TopK opts
               then int (length ordered) - ro_TopK opts else 0);
          perTier = (if ro_IncludeProvenance opts
                     then Some (returned_loop origin merged (perTier_init considered part [])) else None)
      in (\<lparr>ur_Results = merged, ur_PerTier = perTier, ur_TotalDropped = totalDropped\<rparr>, w))"

definition Recall :: "env \<Rightarrow> 'z world_scheme RecallEngine \<Rightarrow> ctx \<Rightarrow> string \<Rightarrow> RecallOptions
    \<Rightarrow> 'z world_scheme \<Rightarrow> (error + UnifiedRecall) \<times> 'z world_scheme" where
  "Recall E r c query opts w =
     (let opts = normalizeRecall opts;
          w = emit (recall_observer r) EventSearchTotal [(''query_len'', AInt (int (length query)))] w;
          part = participating (re_mgr r) (ro_Tiers opts)
      in if part = [] then (Inr \<lparr>ur_Results = [], ur_PerTier = maybePerTier opts, ur_TotalDropped = 0\<rparr>, w)
         else case recall_search E (re_mgr r) c query opts w of
                (Inl err, w) \<Rightarrow> (Inl err, w)
              | (Inr perKind, w) \<Rightarrow>
                  let (out, w) = recall_merge E opts part perKind w;
                      w = emit (recall_observer r) EventSearchHits [(''n'', AInt (int (length (ur_Results out))))] w
                  in (Inr out, w))"


section \<open>The merge: facts\<close>

text \<open>Without the tier of origin, the loop is the one of the unified search.\<close>

definition plain :: "(dedupeKey, dedupeVal) gomap \<Rightarrow> (dedupeKey, SearchResult) gomap" where
  "plain best = map (\<lambda>(k, v). (k, fst v)) best"

lemma mget_plain [simp]: "mget (plain best) k = map_option fst (mget best k)"
  by (induction best) (auto simp: plain_def)

lemma plain_mput [simp]: "plain (mput k v best) = mput k (fst v) (plain best)"
  by (induction best) (auto simp: plain_def)

lemma plain_recall_best: "plain (recall_best kind rs best) = best_loop rs (plain best)"
  by (induction kind rs best rule: recall_best.induct) auto

lemma best_loop_append: "best_loop (xs @ ys) best = best_loop ys (best_loop xs best)"
  by (induction xs arbitrary: best) auto

lemma recall_tiers_result:
  "recall_tiers perKind kinds best considered cands = (best', considered', cands') \<Longrightarrow>
    plain best' = best_loop (concat (map (resultsFor perKind) kinds)) (plain best)
    \<and> cands' = cands + length (concat (map (resultsFor perKind) kinds))
    \<and> (\<forall>k. mget considered' k = (if k \<in> set kinds then Some (length (resultsFor perKind k)) else mget considered k))"
proof (induction perKind kinds best considered cands rule: recall_tiers.induct)
  case (2 perKind kind kinds best considered cands)
  have r: "recall_tiers perKind kinds (recall_best kind (resultsFor perKind kind) best)
      (mput kind (length (resultsFor perKind kind)) considered) (cands + length (resultsFor perKind kind))
      = (best', considered', cands')"
    using "2.prems" by (simp add: Let_def)
  show ?case using "2.IH" [OF refl r] by (auto simp: plain_recall_best best_loop_append)
qed simp

lemma plain_values: "map (fst \<circ> snd) (xs :: (dedupeKey \<times> dedupeVal) list) = map snd (plain xs)"
  by (simp add: plain_def split_def comp_def)

text \<open>An entry's kind is one in whose results it occurs.\<close>

lemma recall_best_kind:
  "mget (recall_best kind rs best) k = Some v \<Longrightarrow> mget best k = Some v \<or> snd v = kind \<and> fst v \<in> set rs"
  by (induction kind rs best rule: recall_best.induct) (fastforce split: if_splits)+

lemma recall_tiers_kind:
  "recall_tiers perKind kinds best considered cands = (best', considered', cands') \<Longrightarrow> mget best' k = Some v \<Longrightarrow>
    mget best k = Some v \<or> snd v \<in> set kinds \<and> fst v \<in> set (resultsFor perKind (snd v))"
proof (induction perKind kinds best considered cands rule: recall_tiers.induct)
  case (2 perKind kind kinds best considered cands)
  have r: "recall_tiers perKind kinds (recall_best kind (resultsFor perKind kind) best)
      (mput kind (length (resultsFor perKind kind)) considered) (cands + length (resultsFor perKind kind))
      = (best', considered', cands')"
    using "2.prems" by (simp add: Let_def)
  show ?case using "2.IH" [OF refl r "2.prems"(2)] by (auto dest: recall_best_kind)
qed simp

lemma recall_merge_parts:
  assumes "recall_merge E opts part perKind w = (u, w')"
  shows "\<exists>best considered. recall_tiers perKind allKinds [] [] 0 = (best, considered, length (candidates perKind))
    \<and> mwf best \<and> best_of (plain best) (candidates perKind)
    \<and> ur_Results u = cutTo (ro_TopK opts) (sort_by merge_less (map snd (plain (shuffle (rank_at E (tick w)) best))))
    \<and> ur_PerTier u = (if ro_IncludeProvenance opts
        then Some (returned_loop (origin_loop (shuffle (rank_at E (tick w)) best) []) (ur_Results u)
          (perTier_init considered part [])) else None)
    \<and> ur_TotalDropped u = int (length (candidates perKind)) - int (length (ur_Results u))
    \<and> w' = w\<lparr>tick := Suc (tick w)\<rparr>"
proof -
  obtain best considered n where t: "recall_tiers perKind allKinds [] [] 0 = (best, considered, n)"
    by (metis prod_cases3)
  from recall_tiers_result [OF t] have p: "plain best = best_loop (candidates perKind) []" and n: "n = length (candidates perKind)"
    by (simp_all add: candidates_def plain_def)
  have b: "best_of (plain best) (candidates perKind)" unfolding p by (rule best_loop_all)
  have "mwf best" using b by (simp add: best_of_def mwf_def plain_def split_def comp_def)
  then show ?thesis using assms t n b
    by (auto simp: recall_merge_def go_range_def Let_def plain_values cutTo_def split: if_splits)
qed

lemma plain_shuffle: "mset (map snd (plain (shuffle r best))) = mset (map snd (plain best))"
  by (simp add: plain_def)

lemma recall_merge_spec:
  assumes "recall_merge E opts part perKind w = (u, w')" and "0 < ro_TopK opts"
  shows "merge_of (nat (ro_TopK opts)) (candidates perKind) (ur_Results u)"
proof -
  from recall_merge_parts [OF assms(1)] obtain best where b: "best_of (plain best) (candidates perKind)"
    "ur_Results u = cutTo (ro_TopK opts) (sort_by merge_less (map snd (plain (shuffle (rank_at E (tick w)) best))))"
    by blast
  show ?thesis unfolding b(2) by (rule merge_of_best [OF b(1) plain_shuffle assms(2)])
qed

lemma normalizeRecall_pos: "0 < ro_TopK (normalizeRecall opts)"
  by (simp add: normalizeRecall_def Let_def)

lemma normalizeRecall_provenance [simp]: "ro_IncludeProvenance (normalizeRecall opts) = ro_IncludeProvenance opts"
  by (simp add: normalizeRecall_def Let_def)

text \<open>A recall in which no tier takes part is the merge of no candidates.\<close>

lemma Recall_cases:
  assumes "Recall E r c q opts w = (Inr u, w')"
  shows "\<exists>perKind w1 w2. recall_search E (re_mgr r) c q (normalizeRecall opts)
        (emit (recall_observer r) EventSearchTotal [(''query_len'', AInt (int (length q)))] w) = (Inr perKind, w1)
      \<and> recall_merge E (normalizeRecall opts) (participating (re_mgr r) (ro_Tiers (normalizeRecall opts))) perKind w1 = (u, w2)"
proof (cases "participating (re_mgr r) (ro_Tiers (normalizeRecall opts)) = []")
  case True
  have "candidates [] = []" by (simp add: candidates_def resultsFor_def)
  then show ?thesis using assms True
    by (simp add: Recall_def recall_search_def fan_out_def go_range_def recall_merge_def maybePerTier_def
        resultsFor_def allKinds_def cutTo_def Let_def)
      (use normalizeRecall_pos [of opts] in \<open>auto\<close>)
next
  case False
  then show ?thesis using assms
    by (auto simp: Recall_def Let_def split: prod.splits sum.splits)
qed


section \<open>Provenance: facts\<close>

lemma statsFor_mput [simp]: "statsFor (mput k st pt) k' = (if k' = k then st else statsFor pt k')"
  by (simp add: statsFor_def)

lemma origin_loop_get:
  "mwf ranged \<Longrightarrow> mget (origin_loop ranged origin) k = (case mget ranged k of Some v \<Rightarrow> Some (snd v) | None \<Rightarrow> mget origin k)"
proof (induction ranged origin rule: origin_loop.induct)
  case (2 k' v rest origin)
  then have "mwf rest" "mget rest k' = None" by (simp_all add: mwf_def map_of_eq_None_iff)
  then show ?case using "2.IH" by (auto split: option.splits)
qed simp

lemma perTier_init_stats:
  "mkeys (perTier_init considered kinds pt) = mkeys pt \<union> set kinds"
  "k \<in> set kinds \<Longrightarrow> statsFor (perTier_init considered kinds pt) k
     = \<lparr>ts_Considered = (case mget considered k of Some n \<Rightarrow> n | None \<Rightarrow> 0), ts_Returned = 0\<rparr>"
proof -
  show "mkeys (perTier_init considered kinds pt) = mkeys pt \<union> set kinds"
    by (induction considered kinds pt rule: perTier_init.induct) simp_all
  have keep: "k \<notin> set ks \<Longrightarrow> statsFor (perTier_init considered ks pt) k = statsFor pt k" for k ks pt
    by (induction considered ks pt rule: perTier_init.induct) simp_all
  show "k \<in> set kinds \<Longrightarrow> statsFor (perTier_init considered kinds pt) k
     = \<lparr>ts_Considered = (case mget considered k of Some n \<Rightarrow> n | None \<Rightarrow> 0), ts_Returned = 0\<rparr>"
  proof (induction kinds arbitrary: pt)
    case (Cons kind kinds)
    then show ?case by (cases "k \<in> set kinds") (simp_all add: keep)
  qed simp
qed

lemma returned_loop_stats:
  assumes "\<forall>sr \<in> set rs. \<exists>k \<in> K. mget origin (resultKey sr) = Some k" and "mkeys pt = K"
  shows "mkeys (returned_loop origin rs pt) = K
    \<and> (\<forall>k. ts_Considered (statsFor (returned_loop origin rs pt) k) = ts_Considered (statsFor pt k)
         \<and> ts_Returned (statsFor (returned_loop origin rs pt) k)
           = ts_Returned (statsFor pt k) + length (filter (\<lambda>sr. mget origin (resultKey sr) = Some k) rs))"
  using assms
proof (induction rs arbitrary: pt)
  case (Cons sr rs)
  then obtain k where k: "k \<in> K" "mget origin (resultKey sr) = Some k" by auto
  let ?pt = "mput k ((statsFor pt k)\<lparr>ts_Returned := Suc (ts_Returned (statsFor pt k))\<rparr>) pt"
  have "mkeys ?pt = K" unfolding mkeys_mput using k(1) Cons.prems(2) by (simp add: insert_absorb)
  then show ?case using Cons.IH [of ?pt] Cons.prems(1) k(2) by (auto simp: Let_def)
qed simp

lemma sum_filter_length:
  assumes "finite A" and "\<forall>x \<in> set xs. f x \<in> A"
  shows "(\<Sum>a \<in> A. length (filter (\<lambda>x. f x = a) xs)) = length xs"
  using assms(2)
proof (induction xs)
  case (Cons x xs)
  have "(\<Sum>a \<in> A. length (filter (\<lambda>x. f x = a) (x # xs)))
      = (\<Sum>a \<in> A. (if a = f x then 1 else 0) + length (filter (\<lambda>x. f x = a) xs))"
    by (rule sum.cong) auto
  also have "\<dots> = Suc (length xs)"
    using Cons assms(1) by (simp add: sum.distrib)
  finally show ?case by simp
qed simp

lemma receive_keys:
  "receive skip msg rs out = Inr out' \<Longrightarrow> mget out' k = Some v \<Longrightarrow> mget out k = Some v \<or> k \<in> fst ` set rs"
  by (induction skip msg rs out rule: receive.induct) (fastforce split: if_splits)+

lemma run_searches_keys: "map fst (fst (run_searches m c q jobs w)) = map fst jobs"
  by (induction jobs arbitrary: w) (auto simp: Let_def split_beta)

lemma fan_out_keys:
  assumes "fan_out E m c q jobs w = (rs, w')"
  shows "fst ` set rs = fst ` set jobs"
proof -
  let ?run = "run_searches m c q (shuffle (rank_at E (tick w)) jobs) (w\<lparr>tick := Suc (tick w)\<rparr>)"
  have "set rs = set (fst ?run)" using assms by (auto simp: fan_out_def go_range_def split_beta Let_def)
  moreover have "fst ` set (fst ?run) = fst ` set jobs"
    using arg_cong [OF run_searches_keys [of m c q "shuffle (rank_at E (tick w)) jobs" "w\<lparr>tick := Suc (tick w)\<rparr>"], of set]
    by simp
  ultimately show ?thesis by simp
qed

lemma recall_search_keys:
  assumes "recall_search E m c q opts w = (Inr perKind, w')" and "resultsFor perKind k \<noteq> []"
  shows "k \<in> set (participating m (ro_Tiers opts))"
proof -
  let ?jobs = "map (\<lambda>k. (k, budgetFor opts k)) (participating m (ro_Tiers opts))"
  obtain rs w1 where f: "fan_out E m c q ?jobs w = (rs, w1)" by fastforce
  then have r: "receive tierDisabled ''memory: recall'' rs [] = Inr perKind"
    using assms(1) by (simp add: recall_search_def)
  obtain res where "mget perKind k = Some res" using assms(2) by (auto simp: resultsFor_def split: option.splits)
  then have "k \<in> fst ` set rs" using receive_keys [OF r] by fastforce
  then show ?thesis using fan_out_keys [OF f] by (auto simp: image_image)
qed

lemma participating_kinds: "set (participating m tiers) \<subseteq> set allKinds"
  by (auto simp: participating_def pick_def allKinds_def)

lemma participating_distinct: "distinct (participating m tiers)"
  by (simp add: participating_def pick_def)

context reading_search
begin

text \<open>When every participating tier answers, so does the recall.\<close>

lemma recall_search_ok:
  assumes "\<forall>k \<in> set (participating m (ro_Tiers opts)). \<forall>t. \<exists>res.
      fst (Manager_Search m c k q (budgetFor opts k) (w\<lparr>tick := t\<rparr>)) = Inr res"
  shows "\<exists>perKind t. recall_search E m c q opts w = (Inr perKind, w\<lparr>tick := t\<rparr>)"
proof -
  let ?jobs = "map (\<lambda>k. (k, budgetFor opts k)) (participating m (ro_Tiers opts))"
  obtain rs w1 where f: "fan_out E m c q ?jobs w = (rs, w1)" by fastforce
  have d: "distinct (map fst ?jobs)" by (simp add: comp_def participating_distinct)
  note fo = fan_out_result [OF f d]
  have ok: "\<forall>(k, r) \<in> set rs. \<forall>err. r = Inl err \<longrightarrow> tierDisabled err"
  proof clarify
    fix k err
    assume "(k, Inl err) \<in> set rs"
    then have "served c q ?jobs w (k, Inl err)" using fo by blast
    then show "tierDisabled err" using assms by (auto simp: served_def) (metis Inl_Inr_False)
  qed
  show ?thesis using receive_ok [OF ok, of "[]" "''memory: recall''"] fo f by (auto simp: recall_search_def)
qed

end


text \<open>The rows of the provenance, by the tier of origin of each result.\<close>

lemma recall_rows:
  assumes s: "recall_search E mgr c q opts w = (Inr perKind, w1)" and prov: "ro_IncludeProvenance opts"
    and m: "recall_merge E opts (participating mgr (ro_Tiers opts)) perKind w1 = (u, w2)"
  shows "\<exists>pt tier. ur_PerTier u = Some pt \<and> mkeys pt = set (participating mgr (ro_Tiers opts))
    \<and> (\<forall>sr \<in> set (ur_Results u). tier sr \<in> set (participating mgr (ro_Tiers opts)) \<and> sr \<in> set (resultsFor perKind (tier sr)))
    \<and> (\<forall>k \<in> set (participating mgr (ro_Tiers opts)). ts_Considered (statsFor pt k) = length (resultsFor perKind k)
         \<and> ts_Returned (statsFor pt k) = length (filter (\<lambda>sr. tier sr = k) (ur_Results u)))"
proof -
  let ?part = "participating mgr (ro_Tiers opts)"
  obtain best considered where t: "recall_tiers perKind allKinds [] [] 0 = (best, considered, length (candidates perKind))"
      and wf: "mwf best" and bo: "best_of (plain best) (candidates perKind)"
      and res: "ur_Results u = cutTo (ro_TopK opts) (sort_by merge_less (map snd (plain (shuffle (rank_at E (tick w1)) best))))"
      and per: "ur_PerTier u = Some (returned_loop (origin_loop (shuffle (rank_at E (tick w1)) best) []) (ur_Results u)
          (perTier_init considered ?part []))"
    using recall_merge_parts [OF m] prov by auto
  define origin where "origin = origin_loop (shuffle (rank_at E (tick w1)) best) []"
  let ?pt = "returned_loop origin (ur_Results u) (perTier_init considered ?part [])"
  have orig: "mget origin k = map_option snd (mget best k)" for k
    using wf mget_eq_mset [of "shuffle (rank_at E (tick w1)) best" best] unfolding origin_def
    by (subst origin_loop_get) (auto split: option.splits)
  have o: "\<exists>k \<in> set ?part. mget origin (resultKey sr) = Some k \<and> sr \<in> set (resultsFor perKind k)"
    if sr: "sr \<in> set (ur_Results u)" for sr
  proof -
    have "sr \<in> set (map snd (plain (shuffle (rank_at E (tick w1)) best)))"
      using sr set_take_subset unfolding res cutTo_def by (fastforce split: if_splits)
    then obtain k v where v: "(k, v) \<in> set best" "fst v = sr" by (auto simp: plain_def)
    then have g: "mget best k = Some v" using in_mget_Some [OF wf] by blast
    then have "mget (plain best) k = Some sr" using v by simp
    then have k: "k = resultKey sr" using best_ofD(2) [OF bo] by blast
    have "sr \<in> set (resultsFor perKind (snd v))" using recall_tiers_kind [OF t g] v by auto
    moreover from this have "snd v \<in> set ?part" using recall_search_keys [OF s, of "snd v"] by fastforce
    ultimately show ?thesis using orig [of k] g k by auto
  qed
  have init: "mkeys (perTier_init considered ?part []) = set ?part"
    unfolding perTier_init_stats(1) by simp
  have stats: "mkeys ?pt = set ?part
    \<and> (\<forall>k. ts_Considered (statsFor ?pt k) = ts_Considered (statsFor (perTier_init considered ?part []) k)
         \<and> ts_Returned (statsFor ?pt k) = ts_Returned (statsFor (perTier_init considered ?part []) k)
             + length (filter (\<lambda>sr. mget origin (resultKey sr) = Some k) (ur_Results u)))"
    by (rule returned_loop_stats [OF _ init]) (use o in blast)
  have f: "filter (\<lambda>sr. mget origin (resultKey sr) = Some k) (ur_Results u)
      = filter (\<lambda>sr. the (mget origin (resultKey sr)) = k) (ur_Results u)" for k
    by (rule filter_cong) (use o in fastforce)+
  note kinds = participating_kinds [of mgr "ro_Tiers opts"]
  have "ts_Considered (statsFor ?pt k) = length (resultsFor perKind k)
      \<and> ts_Returned (statsFor ?pt k) = length (filter (\<lambda>sr. the (mget origin (resultKey sr)) = k) (ur_Results u))"
    if "k \<in> set ?part" for k
    using stats perTier_init_stats(2) [OF that, of considered "[]"] recall_tiers_result [OF t] that kinds f by auto
  then show ?thesis using per stats o unfolding origin_def [symmetric]
    by (intro exI [of _ ?pt] exI [of _ "\<lambda>sr. the (mget origin (resultKey sr))"]) fastforce
qed


section \<open>Properties\<close>

text \<open>
  C8. A recall returns the best of what the tiers answered: among the candidates of the
  participating tiers, without duplicates, best first and at most \<open>TopK\<close> of them (ten when
  none is asked for); a candidate is missing only when a duplicate of at least its score is
  returned, or when the list is full of results that score at least as high. The number of
  dropped candidates accounts for every candidate not returned.
\<close>

theorem recall_returns_best:
  assumes "Recall E r c q opts w = (Inr u, w')"
  shows "\<exists>perKind w1. recall_search E (re_mgr r) c q (normalizeRecall opts)
        (emit (recall_observer r) EventSearchTotal [(''query_len'', AInt (int (length q)))] w) = (Inr perKind, w1)
    \<and> merge_of (nat (if ro_TopK opts \<le> 0 then 10 else ro_TopK opts)) (candidates perKind) (ur_Results u)
    \<and> ur_TotalDropped u + int (length (ur_Results u)) = int (length (candidates perKind))
    \<and> 0 \<le> ur_TotalDropped u"
proof -
  obtain perKind w1 w2 where s: "recall_search E (re_mgr r) c q (normalizeRecall opts)
        (emit (recall_observer r) EventSearchTotal [(''query_len'', AInt (int (length q)))] w) = (Inr perKind, w1)"
      and m: "recall_merge E (normalizeRecall opts) (participating (re_mgr r) (ro_Tiers (normalizeRecall opts))) perKind w1 = (u, w2)"
    using Recall_cases [OF assms] by blast
  have k: "ro_TopK (normalizeRecall opts) = (if ro_TopK opts \<le> 0 then 10 else ro_TopK opts)"
    by (simp add: normalizeRecall_def Let_def)
  have spec: "merge_of (nat (ro_TopK (normalizeRecall opts))) (candidates perKind) (ur_Results u)"
    by (rule recall_merge_spec [OF m normalizeRecall_pos])
  have "distinct (ur_Results u)" "set (ur_Results u) \<subseteq> set (candidates perKind)"
    using spec by (auto simp: merge_of_def distinct_map)
  then have "length (ur_Results u) \<le> length (candidates perKind)"
    by (metis card_length card_mono distinct_card finite_set order_trans)
  moreover have "ur_TotalDropped u = int (length (candidates perKind)) - int (length (ur_Results u))"
    using recall_merge_parts [OF m] by blast
  ultimately show ?thesis using s spec k by auto
qed

definition plainRecall :: "int \<Rightarrow> RecallOptions" where
  "plainRecall topK = \<lparr>ro_TopK = topK, ro_Tiers = 0, ro_Budgets = [], ro_IncludeProvenance = False\<rparr>"

definition engineRecall :: "env \<Rightarrow> config \<Rightarrow> 'z sys_scheme RecallEngine" where
  "engineRecall E cfg = \<lparr>re_mgr = engineManager E, re_cfg = cfg\<rparr>"

lemma HasKind_engine: "k \<in> set allKinds \<Longrightarrow> HasKind (engineManager E) k"
  by (auto simp: allKinds_def HasKind_def tierFor_def asLocalMemory_def engineManager_def engineOptions_def tierWith_def)

lemma participating_all: "participating (engineManager E) AllTiers = allKinds"
proof -
  have "AllTiers AND TierWorking \<noteq> 0" "AllTiers AND TierEpisodic \<noteq> 0" "AllTiers AND TierSemantic \<noteq> 0"
    by (simp_all add: AllTiers_def TierWorking_def TierEpisodic_def TierSemantic_def)
  then show ?thesis by (simp add: participating_def pick_def HasKind_engine allKinds_def)
qed

lemma sample_recall:
  assumes "ro_Tiers opts = 0" and "ro_TopK opts = 3" and "ro_Budgets opts = []"
  shows "\<exists>u w'. Recall sampleEnv (engineRecall sampleEnv \<lparr>observer = None\<rparr>) sampleCtx ''old'' opts sampleSys = (Inr u, w')"
proof -
  have n: "ro_Tiers (normalizeRecall opts) = AllTiers" "budgetFor (normalizeRecall opts) k = 3" for k
    using assms by (simp_all add: normalizeRecall_def budgetFor_def Let_def)
  have "\<exists>perKind t. recall_search sampleEnv (engineManager sampleEnv) sampleCtx ''old'' (normalizeRecall opts) sampleSys
      = (Inr perKind, sampleSys\<lparr>tick := t\<rparr>)"
    by (rule engine_search.recall_search_ok) (use sample_search_ok in \<open>auto simp: n participating_all\<close>)
  then show ?thesis
    by (auto simp: Recall_def engineRecall_def recall_observer_def n participating_all Let_def split_beta allKinds_def)
qed

theorem recall_returns_best_witness:
  "\<exists>u w'. Recall sampleEnv (engineRecall sampleEnv \<lparr>observer = None\<rparr>) sampleCtx ''old'' (plainRecall 3) sampleSys = (Inr u, w')
    \<and> length (ur_Results u) \<le> 3 \<and> distinct (map resultKey (ur_Results u)) \<and> 0 \<le> ur_TotalDropped u"
proof -
  obtain u w' where r: "Recall sampleEnv (engineRecall sampleEnv \<lparr>observer = None\<rparr>) sampleCtx ''old'' (plainRecall 3) sampleSys = (Inr u, w')"
    using sample_recall [of "plainRecall 3"] by (auto simp: plainRecall_def)
  show ?thesis using recall_returns_best [OF r] r by (auto simp: merge_of_def plainRecall_def)
qed



lemma errors_Is_tier: "errors_Is e ErrTierDisabled \<Longrightarrow> errors_Is e ErrKindDisabled"
  by (induction e) auto

lemma tierDisabled_kind: "tierDisabled = kindDisabled"
  by (rule ext) (auto simp: tierDisabled_def kindDisabled_def errors_Is_tier)

definition reprefix :: "string \<Rightarrow> error \<Rightarrow> error" where
  "reprefix msg e = (case e of ErrWrapKind _ k e' \<Rightarrow> ErrWrapKind msg k e' | _ \<Rightarrow> e)"

lemma receive_prefix:
  "receive skip msg rs out = (case receive skip msg' rs out of Inr out' \<Rightarrow> Inr out' | Inl e \<Rightarrow> Inl (reprefix msg e))"
  by (induction skip msg rs out rule: receive.induct) (auto simp: reprefix_def)

text \<open>
  C25. The recall engine subsumes the unified search: on the three engines, with a positive
  limit and default options, both give the same results, raise the same events and leave the
  same state, or both fail with the error of the same tier, under their own prefixes.
\<close>

theorem unified_is_recall:
  assumes "0 < topK"
  shows "SearchUnified E \<lparr>us_mgr = engineManager E, us_cfg = cfg\<rparr> c q topK w
    = (case Recall E (engineRecall E cfg) c q (plainRecall topK) w of
         (Inl e, w') \<Rightarrow> (Inl (ErrWrap ''memory: unified search fan-out'' (reprefix ''memory: parallel search'' e)), w')
       | (Inr u, w') \<Rightarrow> (Inr (ur_Results u), w'))"
proof -
  let ?w = "emit (observer cfg) EventSearchTotal [(''query_len'', AInt (int (length q)))] w"
  have opts: "ro_Tiers (normalizeRecall (plainRecall topK)) = AllTiers"
      "ro_TopK (normalizeRecall (plainRecall topK)) = topK"
      "budgetFor (normalizeRecall (plainRecall topK)) k = topK" for k
    using assms by (simp_all add: normalizeRecall_def plainRecall_def budgetFor_def)
  obtain rs w1 where f: "fan_out E (engineManager E) c q (map (\<lambda>k. (k, topK)) allKinds) ?w = (rs, w1)" by fastforce
  have rec: "recall_search E (engineManager E) c q (normalizeRecall (plainRecall topK)) ?w
      = (receive kindDisabled ''memory: recall'' rs [], w1)"
    using f by (simp add: recall_search_def opts participating_all tierDisabled_kind)
  have par: "SearchAllParallel E \<lparr>ps_mgr = engineManager E, ps_cfg = cfg'\<rparr> c q topK ?w
      = (case receive kindDisabled ''memory: recall'' rs [] of Inr out \<Rightarrow> Inr out
           | Inl e \<Rightarrow> Inl (reprefix ''memory: parallel search'' e), w1)" for cfg'
    using f receive_prefix [of kindDisabled "''memory: parallel search''" rs "[]" "''memory: recall''"]
    by (simp add: SearchAllParallel_def)
  show ?thesis
  proof (cases "receive kindDisabled ''memory: recall'' rs []")
    case (Inl e)
    then show ?thesis using rec par
      by (simp add: SearchUnified_def Recall_def unified_observer_def recall_observer_def engineRecall_def
          NewParallelSearcher_def opts participating_all Let_def allKinds_def)
  next
    case (Inr perKind)
    obtain u w2 where m: "recall_merge E (normalizeRecall (plainRecall topK)) allKinds perKind w1 = (u, w2)" by fastforce
    obtain best considered where
      p: "plain best = best_loop (candidates perKind) []" and w2: "w2 = w1\<lparr>tick := Suc (tick w1)\<rparr>"
      and u: "ur_Results u = cutTo topK (sort_by merge_less (map snd (plain (shuffle (rank_at E (tick w1)) best))))"
      using recall_merge_parts [OF m] recall_tiers_result [of perKind allKinds "[]" "[]" 0]
      by (auto simp: opts candidates_def plain_def [of "[]"])
    have "plain (shuffle r best) = shuffle r (plain best)" for r
      by (simp add: plain_def shuffle_def)
    then show ?thesis using rec par Inr m u w2 p
      by (simp add: SearchUnified_def Recall_def unified_observer_def recall_observer_def engineRecall_def
          NewParallelSearcher_def opts participating_all Let_def allKinds_def go_range_def)
  qed
qed

theorem unified_is_recall_witness:
  "\<exists>out w'. SearchUnified sampleEnv \<lparr>us_mgr = engineManager sampleEnv, us_cfg = \<lparr>observer = None\<rparr>\<rparr> sampleCtx ''old'' 3
      sampleSys = (Inr out, w') \<and> length out \<le> 3"
proof -
  obtain u w' where r: "Recall sampleEnv (engineRecall sampleEnv \<lparr>observer = None\<rparr>) sampleCtx ''old'' (plainRecall 3) sampleSys = (Inr u, w')"
    using sample_recall [of "plainRecall 3"] by (auto simp: plainRecall_def)
  obtain perKind part and w1 w2 :: sys where
      "recall_merge sampleEnv (normalizeRecall (plainRecall 3)) part perKind w1 = (u, w2)"
    using Recall_cases [OF r] by blast
  then have "length (ur_Results u) \<le> 3"
    using recall_merge_spec [OF _ normalizeRecall_pos] by (fastforce simp: merge_of_def normalizeRecall_def plainRecall_def)
  then show ?thesis
    using unified_is_recall [of 3 sampleEnv "\<lparr>observer = None\<rparr>" sampleCtx "''old''" sampleSys] r by simp
qed

end
