(* ===== verification/System.thy ===== *)
theory System
  imports Consolidator WritePolicy RecallEngine
begin

text \<open>
  The parts together: a program that builds the three engines and a manager over them, and
  then calls the manager, the scoped manager, the policy-enforcing memory, the recall engine,
  the consolidator and the scoped lifecycle in any order. What holds in every state such a
  program reaches, and that its maintenance operations return.
\<close>


section \<open>Operations of any tier keep its invariant\<close>

context memory_tier
begin

lemma get_keeps: "inv w \<Longrightarrow> inv (snd (mem_Get mem c i w)) \<and> frame (snd (mem_Get mem c i w)) = frame w"
  using get_hit [of w i _ c] get_miss [of w i c] by (cases "view w i") fastforce+

lemma remove_keeps: "inv w \<Longrightarrow> inv (snd (mem_Remove mem c i w)) \<and> frame (snd (mem_Remove mem c i w)) = frame w"
  using remove_hit [of w i _ c] remove_miss [of w i c] by (cases "view w i") fastforce+

lemma update_keeps:
  "inv w \<Longrightarrow> keepsID fn \<Longrightarrow> inv (snd (mem_Update mem c i fn w)) \<and> frame (snd (mem_Update mem c i fn w)) = frame w"
  using update_hit [of w fn i _ c] update_miss [of w i c fn] by (cases "view w i") fastforce+

lemma add_keeps: "inv w \<Longrightarrow> inv (snd (mem_Add mem c item w)) \<and> frame (snd (mem_Add mem c item w)) = frame w"
  using add_result [of w c item "fst (mem_Add mem c item w)" "snd (mem_Add mem c item w)"] by simp

lemma search_keeps: "inv w \<Longrightarrow> inv (snd (mem_Search mem c q k w)) \<and> frame (snd (mem_Search mem c q k w)) = frame w"
  using search_result [of w c q k "fst (mem_Search mem c q k w)" "snd (mem_Search mem c q k w)"] tick_free by auto

end


section \<open>Operations of the manager\<close>

text \<open>An operation dispatched by kind keeps the system's invariant when it keeps that of each tier.\<close>

lemma dispatch_keeps:
  assumes "sys_inv w"
    and W: "working_inv w \<Longrightarrow> working_inv (snd (f (workingMemory E)))
      \<and> (\<lambda>w. (wm_opts (wrk w), epi w, sem w, events w)) (snd (f (workingMemory E))) = (wm_opts (wrk w), epi w, sem w, events w)"
    and P: "episodic_inv w \<Longrightarrow> episodic_inv (snd (f (episodicMemory E)))
      \<and> (\<lambda>w. (wrk w, em_opts (epi w), sem w, events w)) (snd (f (episodicMemory E))) = (wrk w, em_opts (epi w), sem w, events w)"
    and S: "semantic_inv w \<Longrightarrow> semantic_inv (snd (f (semanticMemory E)))
      \<and> (\<lambda>w. (wrk w, epi w, sm_opts (sem w), events w)) (snd (f (semanticMemory E))) = (wrk w, epi w, sm_opts (sem w), events w)"
  shows "sys_inv (snd (case requireMemory (engineManager E) kind of Inl err \<Rightarrow> (Inl err, w) | Inr mem \<Rightarrow> f mem))"
proof (cases kind)
  case KindWorking
  then show ?thesis using W working_frame [OF _ assms(1)] assms(1) by (simp add: sys_inv_def)
next
  case KindEpisodic
  then show ?thesis using P episodic_frame [OF _ assms(1)] assms(1) by (simp add: sys_inv_def)
next
  case KindSemantic
  then show ?thesis using S semantic_frame [OF _ assms(1)] assms(1) by (simp add: sys_inv_def)
next
  case (KindOther s)
  then show ?thesis using assms(1) by (simp add: requireMemory_def tierFor_def)
qed

lemma manager_keeps:
  assumes "sys_inv w"
  shows "sys_inv (snd (Manager_Add (engineManager E) c kind item w))"
    and "sys_inv (snd (Manager_Get (engineManager E) c kind i w))"
    and "keepsID fn \<Longrightarrow> sys_inv (snd (Manager_Update (engineManager E) c kind i fn w))"
    and "sys_inv (snd (Manager_Remove (engineManager E) c kind i w))"
    and "sys_inv (snd (Manager_Search (engineManager E) c kind q n w))"
proof -
  show "sys_inv (snd (Manager_Add (engineManager E) c kind item w))" unfolding Manager_Add_def
    by (rule dispatch_keeps [OF assms]) (rule working_tier.add_keeps episodic_tier.add_keeps semantic_tier.add_keeps; assumption)+
  show "sys_inv (snd (Manager_Get (engineManager E) c kind i w))" unfolding Manager_Get_def
    by (rule dispatch_keeps [OF assms]) (rule working_tier.get_keeps episodic_tier.get_keeps semantic_tier.get_keeps; assumption)+
  show "sys_inv (snd (Manager_Update (engineManager E) c kind i fn w))" if "keepsID fn" unfolding Manager_Update_def
    by (rule dispatch_keeps [OF assms])
      (rule working_tier.update_keeps [OF _ that] episodic_tier.update_keeps [OF _ that] semantic_tier.update_keeps [OF _ that]; assumption)+
  show "sys_inv (snd (Manager_Remove (engineManager E) c kind i w))" unfolding Manager_Remove_def
    by (rule dispatch_keeps [OF assms]) (rule working_tier.remove_keeps episodic_tier.remove_keeps semantic_tier.remove_keeps; assumption)+
  show "sys_inv (snd (Manager_Search (engineManager E) c kind q n w))" unfolding Manager_Search_def
    by (rule dispatch_keeps [OF assms]) (rule working_tier.search_keeps episodic_tier.search_keeps semantic_tier.search_keeps; assumption)+
qed

text \<open>The same as rules on a result.\<close>

lemma manager_keepsD:
  "Manager_Add (engineManager E) c kind item w = (a, w') \<Longrightarrow> sys_inv w \<Longrightarrow> sys_inv w'"
  "Manager_Get (engineManager E) c kind i w = (g, w') \<Longrightarrow> sys_inv w \<Longrightarrow> sys_inv w'"
  "Manager_Update (engineManager E) c kind i fn w = (u, w') \<Longrightarrow> sys_inv w \<Longrightarrow> keepsID fn \<Longrightarrow> sys_inv w'"
  "Manager_Remove (engineManager E) c kind i w = (u, w') \<Longrightarrow> sys_inv w \<Longrightarrow> sys_inv w'"
  "Manager_Search (engineManager E) c kind q n w = (s, w') \<Longrightarrow> sys_inv w \<Longrightarrow> sys_inv w'"
  using manager_keeps(1) [of w E c kind item] manager_keeps(2) [of w E c kind i]
    manager_keeps(3) [of w fn E c kind i] manager_keeps(4) [of w E c kind i]
    manager_keeps(5) [of w E c kind q n] by simp_all

lemma sys_inv_heap [simp]: "sys_inv (w\<lparr>heap := h\<rparr>) = sys_inv w"
  by (simp add: sys_inv_def working_inv_def episodic_inv_def semantic_inv_def)


section \<open>Import\<close>

lemma engine_importers:
  "importerOf (tierOf (engineManager E) KindWorking)
     = Some (\<lambda>c s mode w. case Working_Import E s mode (wrk w) of (r, m) \<Rightarrow> (r, w\<lparr>wrk := m\<rparr>))"
  "importerOf (tierOf (engineManager E) KindEpisodic)
     = Some (\<lambda>c s mode w. case Episodic_Import E s mode (epi w) of (r, m) \<Rightarrow> (r, w\<lparr>epi := m\<rparr>))"
  "importerOf (tierOf (engineManager E) KindSemantic)
     = Some (\<lambda>c s mode w. case Semantic_Import E s mode (sem w) of (r, m) \<Rightarrow> (r, w\<lparr>sem := m\<rparr>))"
  "importerOf (tierOf (engineManager E) (KindOther s)) = None"
  by (simp_all add: importerOf_def asLocalMemory_def tierFor_def engineManager_def engineOptions_def tierWith_def
      zeroTier_def workingMemory_def episodicMemory_def semanticMemory_def)

lemma importer_keeps:
  assumes "importerOf (tierOf (engineManager E) kind) = Some imp" and "sys_inv w" and "imp c snap mode w = (r, w')"
  shows "sys_inv w'"
proof (cases kind)
  case KindWorking
  then show ?thesis using assms importIntoStore_wf [of "wm_store (wrk w)" E snap mode]
    by (auto simp: engine_importers Working_Import_def sys_inv_def working_inv_def episodic_inv_def semantic_inv_def
        split: prod.splits if_splits)
next
  case KindEpisodic
  then show ?thesis using assms importIntoStore_wf [of "em_store (epi w)" E snap mode]
    by (auto simp: engine_importers Episodic_Import_def sys_inv_def working_inv_def episodic_inv_def semantic_inv_def
        split: prod.splits if_splits)
next
  case KindSemantic
  then show ?thesis using assms importIntoStore_wf [of "sm_store (sem w)" E snap mode]
    by (auto simp: engine_importers Semantic_Import_def sys_inv_def working_inv_def episodic_inv_def semantic_inv_def
        split: prod.splits if_splits)
next
  case (KindOther s)
  then show ?thesis using assms by (simp add: engine_importers)
qed

lemma import_tiers_keeps:
  "import_tiers (engineManager E) c mode snaps out w = (r, w') \<Longrightarrow> sys_inv w \<Longrightarrow> sys_inv w'"
proof (induction snaps arbitrary: out w)
  case (Cons ks snaps)
  obtain kind snap where ks: "ks = (kind, snap)" by (cases ks)
  show ?case
  proof (cases "importerOf (tierOf (engineManager E :: sys Manager) kind)")
    case None
    then show ?thesis using Cons ks by simp
  next
    case (Some imp)
    obtain rpt e w1 where i: "imp c snap mode w = ((rpt, e), w1)" by (metis prod.exhaust)
    then have "sys_inv w1" using importer_keeps [OF Some Cons.prems(2)] by blast
    then show ?thesis using Cons ks Some i by (cases e) auto
  qed
qed simp

lemma ImportAll_keeps:
  assumes "Manager_ImportAll E (engineManager E) c snaps key mode w = (r, w')" and "sys_inv w"
  shows "sys_inv w'"
proof (cases "snaps = None \<and> key \<noteq> ''''")
  case True
  then show ?thesis using assms by (auto simp: Manager_ImportAll_def engineManager_def engineOptions_def)
next
  case False
  then obtain loaded where "import_tiers (engineManager E) c mode (fst (go_range E loaded w)) [] (snd (go_range E loaded w)) = (r, w')"
    using assms(1) by (auto simp: Manager_ImportAll_def Let_def split_beta split: if_splits)
  then show ?thesis using import_tiers_keeps assms(2) by (auto simp: go_range_def)
qed


section \<open>Paging\<close>

text \<open>Listing moves nothing but the clock, whatever cursors and page sizes it is given.\<close>

lemma tick_self [simp]: "\<exists>t. w = w\<lparr>tick := t\<rparr>"
  by (rule exI [of _ "tick w"]) simp

lemma listFromStore_tick: "\<exists>t. snd (listFromStore E f n cur w s) = w\<lparr>tick := t\<rparr>"
  by (auto simp: listFromStore_def Let_def go_range_def split: sum.splits)

lemma engine_lister_tick:
  assumes "listerOf (tierOf (engineManager E :: sys Manager) kind) = Some l"
  shows "\<exists>t. snd (l c f n cur w) = w\<lparr>tick := t\<rparr>"
proof (cases kind)
  case (KindOther s)
  then show ?thesis using assms by (simp add: listerOf_def asLocalMemory_def tierFor_def zeroTier_def)
qed (use assms in \<open>auto simp: engine_listers Working_List_def Episodic_List_def Semantic_List_def listFromStore_tick\<close>)

lemma ListAll_loop_tick:
  "\<exists>t. snd (ListAll_loop (engineManager E :: sys Manager) c f n cursors kinds out w) = w\<lparr>tick := t\<rparr>"
proof (induction kinds arbitrary: out w)
  case Nil
  show ?case by simp
next
  case (Cons kind kinds)
  show ?case
  proof (cases "listerOf (tierOf (engineManager E :: sys Manager) kind)")
    case None
    then show ?thesis using Cons [of out w] by simp
  next
    case (Some l)
    obtain p t where l: "l c f n (cursorFor cursors kind) w = (p, w\<lparr>tick := t\<rparr>)"
      using engine_lister_tick [OF Some, of c f n "cursorFor cursors kind" w] by (metis prod.collapse)
    show ?thesis
    proof (cases p)
      case (Inl e)
      then show ?thesis using Some l by auto
    next
      case (Inr page)
      obtain t' where "snd (ListAll_loop (engineManager E) c f n cursors kinds (mput kind page out) (w\<lparr>tick := t\<rparr>))
          = w\<lparr>tick := t\<rparr>\<lparr>tick := t'\<rparr>"
        using Cons by blast
      then show ?thesis using Some l Inr by auto
    qed
  qed
qed

text \<open>So a run of the paging loop over the engines, if it ends, leaves the state but for the clock.\<close>

lemma paged_loop_tick:
  assumes "paged_loop E listAll cursors out w = Some r" and "\<And>cursors w. \<exists>t. snd (listAll cursors w) = w\<lparr>tick := t\<rparr>"
  shows "\<exists>t. snd r = w\<lparr>tick := t\<rparr>"
  using assms
proof (induct rule: paged_loop.raw_induct [rotated, consumes 1])
  case (1 rec E listAll cursors out w r)
  obtain pages err t where a: "listAll cursors w = ((pages, err), w\<lparr>tick := t\<rparr>)"
    using 1(3) [of cursors w] by (metis prod.collapse)
  show ?case
  proof (cases err)
    case (Some e)
    then show ?thesis using 1(2) a by auto
  next
    case None
    obtain out' next' more' where cp: "collect_pages (fst (go_range E pages (w\<lparr>tick := t\<rparr>))) out [] False = (out', next', more')"
      by (metis prod.exhaust)
    show ?thesis
    proof (cases more')
      case True
      then have "rec E listAll next' out' (snd (go_range E pages (w\<lparr>tick := t\<rparr>))) = Some r"
        using 1(2) a None cp by (simp add: split_beta)
      from 1(1) [OF this 1(3)] show ?thesis by (auto simp: go_range_def)
    next
      case False
      then show ?thesis using 1(2) a None cp by (auto simp: split_beta go_range_def)
    qed
  qed
qed

lemma engine_paging_tick:
  "listAllPaged E (engineConsolidator E cfg) c n w = Some r \<Longrightarrow> \<exists>t. snd r = w\<lparr>tick := t\<rparr>"
  "listAllScoped E (engineLifecycle E cfg) c n w = Some r \<Longrightarrow> \<exists>t. snd r = w\<lparr>tick := t\<rparr>"
  unfolding listAllPaged_def listAllScoped_def Let_def
  by (rule paged_loop_tick; assumption?;
      simp add: engineConsolidator_def engineLifecycle_def Scoped_ListAll_def Let_def ListAll_def ListAll_loop_tick)+


section \<open>Maintenance\<close>

lemma consolidate_loop_keeps:
  "consolidate_loop E (engineConsolidator E cfg) c opts now its cnt w = (r, w') \<Longrightarrow> sys_inv w \<Longrightarrow> sys_inv w'"
proof (induction its arbitrary: cnt w)
  case (Cons it its)
  show ?case
  proof (cases "skipped E opts now (heap w) it")
    case True
    then show ?thesis using Cons by simp
  next
    case False
    obtain clone h where cl: "cloneFor it (heap w) = (clone, h)" by (cases "cloneFor it (heap w)")
    obtain a w1 where a: "Manager_Add (engineManager E) c KindEpisodic clone (w\<lparr>heap := h\<rparr>) = (a, w1)"
      by (cases "Manager_Add (engineManager E) c KindEpisodic clone (w\<lparr>heap := h\<rparr>)")
    have i1: "sys_inv w1" using manager_keepsD(1) [OF a] Cons.prems(2) by simp
    let ?w = "emit (consolidator_observer (engineConsolidator E cfg)) EventAddTotal [(''kind'', AKind KindEpisodic)] w1"
    obtain u w2 where u: "Manager_Update (engineManager E) c KindWorking (ID it) (stampSource E now) ?w = (u, w2)"
      by (cases "Manager_Update (engineManager E) c KindWorking (ID it) (stampSource E now) ?w")
    have "sys_inv w2" using manager_keepsD(3) [OF u] i1 keepsID_stampSource by simp
    then show ?thesis using Cons False cl a u i1
      by (cases a; cases u) (auto simp: Let_def engineConsolidator_def consolidator_observer_def)
  qed
qed simp

lemma consolidate_scoped_loop_keeps:
  "consolidate_scoped_loop E (engineManager E) c opts its cnt w = (r, w') \<Longrightarrow> sys_inv w \<Longrightarrow> sys_inv w'"
proof (induction its arbitrary: cnt w)
  case (Cons it its)
  obtain old w1 where o: "oldEnough E (co_MinAge opts) it w = (old, w1)" by (cases "oldEnough E (co_MinAge opts) it w")
  then have i1: "sys_inv w1" using Cons.prems(2) by (auto simp: oldEnough_def Let_def time_Now_def split: if_splits)
  obtain a w2 where a: "Manager_Add (engineManager E) c KindEpisodic (it\<lparr>ID := ''''\<rparr>) w1 = (a, w2)"
    by (cases "Manager_Add (engineManager E) c KindEpisodic (it\<lparr>ID := ''''\<rparr>) w1")
  have "sys_inv w2" by (rule manager_keepsD(1) [OF a i1])
  then show ?case using Cons o a i1 by (cases a) (auto split: if_splits)
qed simp

lemma evict_loop_keeps: "evict_loop (engineManager E) c kind ids cnt w = (n, w') \<Longrightarrow> sys_inv w \<Longrightarrow> sys_inv w'"
proof (induction ids arbitrary: cnt w)
  case (Cons i ids)
  obtain u w1 where u: "Manager_Remove (engineManager E) c kind i w = (u, w1)"
    by (cases "Manager_Remove (engineManager E) c kind i w")
  have "sys_inv w1" by (rule manager_keepsD(4) [OF u Cons.prems(2)])
  then show ?case using Cons u by (cases u) auto
qed simp

lemma forget_loop_keeps: "forget_loop E (engineManager E) c kind P its cnt w = (n, w') \<Longrightarrow> sys_inv w \<Longrightarrow> sys_inv w'"
proof (induction its arbitrary: cnt w)
  case (Cons it its)
  obtain u w1 where u: "Manager_Remove (engineManager E) c kind (ID it) w = (u, w1)"
    by (cases "Manager_Remove (engineManager E) c kind (ID it) w")
  have "sys_inv w1" by (rule manager_keepsD(4) [OF u Cons.prems(2)])
  then show ?case using Cons u by (cases u) (auto split: if_splits)
qed simp

lemma emitForgotten_keeps: "sys_inv (snd (emitForgotten s kind r)) = sys_inv (snd r)"
  by (simp add: emitForgotten_def)

lemma forget_candidates_keeps:
  assumes "sys_inv w"
  shows "sys_inv (snd (forget_candidates E (engineLifecycle E cfg) c kind opts its w))"
proof -
  have f: "sys_inv (snd (forget_loop E (engineManager E) c kind P its 0 (w\<lparr>tick := t\<rparr>)))" for P t
    using forget_loop_keeps [of E c kind P its 0 "w\<lparr>tick := t\<rparr>"] assms by (metis prod.collapse sys_inv_tick)
  have f0: "sys_inv (snd (forget_loop E (engineManager E) c kind P its 0 w))" for P
    using forget_loop_keeps [of E c kind P its 0 w] assms by (metis prod.collapse)
  have e: "sys_inv (snd (evict_loop (engineManager E) c kind ids 0 w))" for ids
    using evict_loop_keeps [of E c kind ids 0 w] assms by (metis prod.collapse)
  show ?thesis unfolding forget_candidates_def Let_def
    using f f0 e assms by (auto simp: emitForgotten_keeps time_Now_def split: ForgetStrategy.split)
qed

lemma Consolidate_keeps:
  assumes "sys_inv w" and run: "Consolidate E (engineConsolidator E cfg) c opts w = Some (n, w')"
  shows "sys_inv w'"
proof -
  obtain r t where l: "listAllPaged E (engineConsolidator E cfg) c 200 w = Some (r, w\<lparr>tick := t\<rparr>)"
    using run engine_paging_tick(1) [of E cfg c 200 w]
    by (cases "listAllPaged E (engineConsolidator E cfg) c 200 w") (auto simp: Consolidate_def)
  show ?thesis
  proof (cases r)
    case (Inl e)
    then show ?thesis using run l assms by (simp add: Consolidate_def) (metis sys_inv_tick)
  next
    case (Inr all)
    obtain k e w2 where k: "consolidate_loop E (engineConsolidator E cfg) c (defaultThreshold opts)
        (fst (time_Now E (w\<lparr>tick := t\<rparr>))) (itemsFor all KindWorking) 0 (snd (time_Now E (w\<lparr>tick := t\<rparr>))) = ((k, e), w2)"
      by (metis prod.exhaust)
    have "sys_inv w2" by (rule consolidate_loop_keeps [OF k]) (use assms in \<open>simp add: time_Now_def\<close>)
    then show ?thesis using run l Inr k by (cases e) (auto simp: Consolidate_def Let_def split_beta)
  qed
qed

lemma ConsolidateScoped_keeps:
  assumes "sys_inv w" and run: "ConsolidateScoped E (engineLifecycle E cfg) c opts w = Some (n, w')"
  shows "sys_inv w'"
proof -
  obtain r t where l: "listAllScoped E (engineLifecycle E cfg) c 200 w = Some (r, w\<lparr>tick := t\<rparr>)"
    using run engine_paging_tick(2) [of E cfg c 200 w]
    by (cases "listAllScoped E (engineLifecycle E cfg) c 200 w") (auto simp: ConsolidateScoped_def)
  show ?thesis
  proof (cases r)
    case (Inl e)
    then show ?thesis using run l assms by (simp add: ConsolidateScoped_def) (metis sys_inv_tick)
  next
    case (Inr all)
    obtain k e w2 where k: "consolidate_scoped_loop E (engineManager E) c (defaultThreshold opts)
        (itemsFor all KindWorking) 0 (w\<lparr>tick := t\<rparr>) = ((k, e), w2)" by (metis prod.exhaust)
    have "sys_inv w2" by (rule consolidate_scoped_loop_keeps [OF k]) (use assms in simp)
    then show ?thesis using run l Inr k by (cases e) (auto simp: ConsolidateScoped_def Let_def)
  qed
qed

lemma ForgetScoped_keeps:
  assumes "sys_inv w" and run: "ForgetScoped E (engineLifecycle E cfg) c kind fo w = Some (n, w')"
  shows "sys_inv w'"
proof -
  obtain r t where l: "listAllScoped E (engineLifecycle E cfg) c 200 w = Some (r, w\<lparr>tick := t\<rparr>)"
    using run engine_paging_tick(2) [of E cfg c 200 w]
    by (cases "listAllScoped E (engineLifecycle E cfg) c 200 w") (auto simp: ForgetScoped_def)
  show ?thesis
  proof (cases r)
    case (Inl e)
    then show ?thesis using run l assms by (simp add: ForgetScoped_def) (metis sys_inv_tick)
  next
    case (Inr all)
    then show ?thesis using run l assms forget_candidates_keeps [of "w\<lparr>tick := t\<rparr>" E cfg c kind fo "itemsFor all kind"]
      by (simp add: ForgetScoped_def)
  qed
qed

lemmas maintenance_keeps = Consolidate_keeps ConsolidateScoped_keeps ForgetScoped_keeps


section \<open>Recall and policy\<close>

lemma run_searches_tick: "\<exists>t. snd (run_searches (engineManager E :: sys Manager) c q jobs w) = w\<lparr>tick := t\<rparr>"
proof (induction jobs arbitrary: w)
  case (Cons j jobs)
  obtain k n where j: "j = (k, n)" by (cases j)
  obtain t where t: "snd (Manager_Search (engineManager E) c k q n w) = w\<lparr>tick := t\<rparr>"
    using engine_search.search_tick by blast
  obtain t' where "snd (run_searches (engineManager E) c q jobs (w\<lparr>tick := t\<rparr>)) = w\<lparr>tick := t\<rparr>\<lparr>tick := t'\<rparr>"
    using Cons by blast
  then show ?case using t by (auto simp: j Let_def split_beta)
qed simp

lemma fan_out_tick: "\<exists>t. snd (fan_out E (engineManager E :: sys Manager) c q jobs w) = w\<lparr>tick := t\<rparr>"
proof -
  obtain t where "snd (run_searches (engineManager E) c q (fst (go_range E jobs w)) (snd (go_range E jobs w)))
      = snd (go_range E jobs w)\<lparr>tick := t\<rparr>"
    using run_searches_tick by blast
  then show ?thesis by (auto simp: fan_out_def Let_def split_beta go_range_def)
qed

lemma Recall_keeps:
  assumes "Recall E (engineRecall E cfg) c q opts w = (r, w')" and "sys_inv w"
  shows "sys_inv w'"
proof -
  have s: "sys_inv (snd (recall_search E (engineManager E) c q o' v)) = sys_inv v" for o' v
    using fan_out_tick [of E c q "map (\<lambda>k. (k, budgetFor o' k)) (participating (engineManager E :: sys Manager) (ro_Tiers o'))" v]
    by (auto simp: recall_search_def Let_def split_beta)
  have m: "sys_inv (snd (recall_merge E o' part pk v)) = sys_inv v" for o' part pk v
    by (simp add: recall_merge_def Let_def split_beta go_range_def)
  have re: "re_mgr (engineRecall E cfg) = engineManager E" by (simp add: engineRecall_def)
  have "sys_inv (snd (Recall E (engineRecall E cfg) c q opts w))"
    unfolding Recall_def Let_def re using assms(2)
    by (auto simp: split_beta m split: sum.splits) (metis s emit_views(2) snd_conv)+
  then show ?thesis using assms(1) by simp
qed

lemma Policy_Add_keeps:
  assumes "Policy_Add p c pw w = (r, w')" and "sys_inv (snd (pe_policy p c pw w))" and "pe_mgr p = engineManager E"
  shows "sys_inv w'"
proof -
  obtain d w1 where d: "pe_policy p c pw w = (d, w1)" by (cases "pe_policy p c pw w")
  obtain a w2 where a: "Manager_Add (engineManager E) c (wd_Kind d) (wd_Item d) w1 = (a, w2)"
    by (cases "Manager_Add (engineManager E) c (wd_Kind d) (wd_Item d) w1")
  have i: "sys_inv w1" using assms(2) d by simp
  have "sys_inv w2" by (rule manager_keepsD(1) [OF a i])
  then show ?thesis using assms(1,3) d a i by (cases a) (auto simp: Policy_Add_def split: if_splits)
qed

lemma scoped_keeps:
  assumes "sys_inv w"
  shows "Scoped_Add E (engineScoped E) c kind item w = (a, w') \<Longrightarrow> sys_inv w'"
    and "Scoped_Get E (engineScoped E) c kind i w = (g, w') \<Longrightarrow> sys_inv w'"
    and "Scoped_Update E (engineScoped E) c kind i fn w = (u, w') \<Longrightarrow> keepsID fn \<Longrightarrow> sys_inv w'"
    and "Scoped_Remove E (engineScoped E) c kind i w = (u, w') \<Longrightarrow> sys_inv w'"
proof -
  show "sys_inv w'" if "Scoped_Add E (engineScoped E) c kind item w = (a, w')"
    using manager_keepsD(1) [of E c kind _ _ a w'] that assms by (auto simp: Scoped_Add_def Let_def split_beta)
  obtain g1 w1 where g: "Manager_Get (engineManager E) c kind i w = (g1, w1)"
    by (cases "Manager_Get (engineManager E) c kind i w")
  have i1: "sys_inv w1" by (rule manager_keepsD(2) [OF g assms])
  show "sys_inv w'" if "Scoped_Get E (engineScoped E) c kind i w = (g, w')"
    using that g i1 by (cases g1) (auto simp: Scoped_Get_def split: if_splits)
  show "sys_inv w'" if "Scoped_Update E (engineScoped E) c kind i fn w = (u, w')" "keepsID fn"
    using that g i1 manager_keepsD(3) [of E c kind i fn w1 u w'] by (cases g1) (auto simp: Scoped_Update_def split: if_splits)
  show "sys_inv w'" if "Scoped_Remove E (engineScoped E) c kind i w = (u, w')"
    using that g i1 manager_keepsD(4) [of E c kind i w1 u w'] by (cases g1) (auto simp: Scoped_Remove_def split: if_splits)
qed


section \<open>Reachable systems\<close>

text \<open>
  The states of a program over the engines with the bundled vector backend. Between two calls
  the program may write any metadata map it holds and time passes; a policy may do the same
  while it decides. Updaters keep the identifier of the item they are given.
\<close>

inductive sys_reach :: "env \<Rightarrow> sys \<Rightarrow> bool" for E where
  start: "NewWorking (Some e1) wo = Inr wm \<Longrightarrow> NewEpisodic (Some e2) eo = Inr em \<Longrightarrow> eo_VectorBackend eo = None \<Longrightarrow>
    NewSemantic (Some e3) so = Inr sm \<Longrightarrow> so_VectorBackend so = None \<Longrightarrow>
    sys_reach E \<lparr>tick = t, heap = h, events = [], wrk = wm, epi = em, sem = sm\<rparr>"
| caller: "sys_reach E w \<Longrightarrow> sys_reach E (w\<lparr>tick := t, heap := h\<rparr>)"
| add: "sys_reach E w \<Longrightarrow> Manager_Add (engineManager E) c kind item w = (a, w') \<Longrightarrow> sys_reach E w'"
| get: "sys_reach E w \<Longrightarrow> Manager_Get (engineManager E) c kind i w = (g, w') \<Longrightarrow> sys_reach E w'"
| update: "sys_reach E w \<Longrightarrow> keepsID fn \<Longrightarrow> Manager_Update (engineManager E) c kind i fn w = (u, w') \<Longrightarrow> sys_reach E w'"
| remove: "sys_reach E w \<Longrightarrow> Manager_Remove (engineManager E) c kind i w = (u, w') \<Longrightarrow> sys_reach E w'"
| search: "sys_reach E w \<Longrightarrow> Manager_Search (engineManager E) c kind q n w = (s, w') \<Longrightarrow> sys_reach E w'"
| import_all: "sys_reach E w \<Longrightarrow> Manager_ImportAll E (engineManager E) c snaps key mode w = (m, w') \<Longrightarrow> sys_reach E w'"
| scoped_add: "sys_reach E w \<Longrightarrow> Scoped_Add E (engineScoped E) c kind item w = (a, w') \<Longrightarrow> sys_reach E w'"
| scoped_get: "sys_reach E w \<Longrightarrow> Scoped_Get E (engineScoped E) c kind i w = (g, w') \<Longrightarrow> sys_reach E w'"
| scoped_update: "sys_reach E w \<Longrightarrow> keepsID fn \<Longrightarrow> Scoped_Update E (engineScoped E) c kind i fn w = (u, w') \<Longrightarrow> sys_reach E w'"
| scoped_remove: "sys_reach E w \<Longrightarrow> Scoped_Remove E (engineScoped E) c kind i w = (u, w') \<Longrightarrow> sys_reach E w'"
| policy: "sys_reach E w \<Longrightarrow> pe_mgr p = engineManager E \<Longrightarrow> snd (pe_policy p c pw w) = w\<lparr>tick := t, heap := h\<rparr> \<Longrightarrow>
    Policy_Add p c pw w = (a, w') \<Longrightarrow> sys_reach E w'"
| recall: "sys_reach E w \<Longrightarrow> Recall E (engineRecall E cfg) c q ro w = (u, w') \<Longrightarrow> sys_reach E w'"
| consolidate: "sys_reach E w \<Longrightarrow> Consolidate E (engineConsolidator E cfg) c co w = Some (n, w') \<Longrightarrow> sys_reach E w'"
| consolidate_scoped: "sys_reach E w \<Longrightarrow> ConsolidateScoped E (engineLifecycle E cfg) c co w = Some (n, w') \<Longrightarrow> sys_reach E w'"
| forget_scoped: "sys_reach E w \<Longrightarrow> ForgetScoped E (engineLifecycle E cfg) c kind fo w = Some (n, w') \<Longrightarrow> sys_reach E w'"

lemmas keeps_rules = manager_keepsD scoped_keeps maintenance_keeps ImportAll_keeps Recall_keeps

lemma sys_reach_inv: "sys_reach E w \<Longrightarrow> sys_inv w"
proof (induction rule: sys_reach.induct)
  case (start e1 wo wm e2 eo em e3 so sm t h)
  then show ?case
    by (auto simp: sys_inv_def working_inv_def episodic_inv_def semantic_inv_def NewWorking_def NewEpisodic_def
        NewSemantic_def Let_def store_wf_new split: if_splits)
next
  case (policy w p c pw t h a w')
  show ?case by (rule Policy_Add_keeps [OF policy.hyps(4) _ policy.hyps(2)]) (use policy in simp)
qed (simp, (rule keeps_rules; assumption)+)


section \<open>The life of an item\<close>

context unbounded_tier
begin

lemma add_get_remove:
  assumes "inv w" and "mem_Add mem c item w = (Inr i, w1)"
  shows "\<exists>it w2 w3. mem_Get mem c i w1 = (Inr it, w2) \<and> ID it = i \<and> Content it = Content item \<and> Tags it = Tags item
    \<and> mem_Remove mem c i w2 = (Inr (), w3) \<and> mem_Get mem c i w3 = (Inl ErrNotFound, w3)
    \<and> view w3 = (view w)(i := None) \<and> frame w3 = frame w"
proof -
  obtain now where v1: "view w1 = (view w)(i \<mapsto> (stampAdded now item)\<lparr>ID := i\<rparr>)" using add_stores [OF assms] by blast
  have i1: "inv w1" and f1: "frame w1 = frame w" using add_result [OF assms] by simp_all
  let ?it = "(stampAdded now item)\<lparr>ID := i\<rparr>"
  obtain t w2 where g: "mem_Get mem c i w1 = (Inr (?it\<lparr>AccessedAt := t\<rparr>), w2)" "view w2 = (view w1)(i \<mapsto> ?it\<lparr>AccessedAt := t\<rparr>)"
      "frame w2 = frame w1" "inv w2"
    using get_hit [OF i1, of i ?it c] v1 by auto
  obtain w3 where r: "mem_Remove mem c i w2 = (Inr (), w3)" "view w3 = (view w2)(i := None)" "frame w3 = frame w2" "inv w3"
    using remove_hit [OF g(4), of i _ c] g(2) by fastforce
  have "mem_Get mem c i w3 = (Inl ErrNotFound, w3)" by (rule get_miss [OF r(4)]) (simp add: r(2))
  moreover have "view w3 = (view w)(i := None)" using r(2) g(2) v1 by auto
  ultimately show ?thesis using g r f1 by (auto simp: stampAdded_def)
qed

end

text \<open>An addition fails only when the embedder does.\<close>

lemma store_add_succeeds:
  assumes "\<forall>t. \<exists>vs. embedder s t c [Content item] = Inr vs"
  shows "\<exists>i w1 s1. store_add E c item (w :: 'a world_scheme) s = (Inr i, w1, s1)"
proof -
  have e: "\<exists>v. fst (queryEmbedding (embedder s) c (Content item) w') = Inr v" for w' :: "'a world_scheme"
    using spec [OF assms, of "tick w'"] by (auto simp: queryEmbedding_def split: list.splits)
  obtain v v' where "fst (queryEmbedding (embedder s) c (Content item) (snd (time_Now E w))) = Inr v"
      "fst (queryEmbedding (embedder s) c (Content item) (snd (time_Now E (w\<lparr>tick := Suc (tick w)\<rparr>)))) = Inr v'"
    using e by meson
  then show ?thesis by (simp add: store_add_def assignID_cases stampAdded_def Let_def split_beta)
qed

lemma engine_add_succeeds:
  "\<forall>t. \<exists>vs. embedder (em_store (epi w)) t c [Content item] = Inr vs \<Longrightarrow>
     \<exists>i w1. mem_Add (episodicMemory E) c item w = (Inr i, w1)"
  "\<forall>t. \<exists>vs. embedder (sm_store (sem w)) t c [Content item] = Inr vs \<Longrightarrow>
     \<exists>i w1. mem_Add (semanticMemory E) c item w = (Inr i, w1)"
  using store_add_succeeds [of "em_store (epi w)" c item E w] store_add_succeeds [of "sm_store (sem w)" c item E w]
  by (auto simp: engine_ops)


section \<open>Reading a reachable system\<close>

context memory_tier
begin

lemma get_iff: "inv w \<Longrightarrow> view w i \<noteq> None \<longleftrightarrow> (\<exists>it. fst (mem_Get mem c i w) = Inr it \<and> ID it = i)"
proof (cases "view w i")
  case (Some it)
  assume inv: "inv w"
  obtain t w' where "mem_Get mem c i w = (Inr (it\<lparr>AccessedAt := t\<rparr>), w')" using get_hit [OF inv Some, of c] by blast
  then show ?thesis using Some view_ID [OF inv Some] by simp
qed (use get_miss in simp)

end

lemma engine_get_iff:
  assumes "sys_inv w" and "kind \<in> set allKinds"
  shows "tier_view kind w i \<noteq> None \<longleftrightarrow> (\<exists>it. fst (Manager_Get (engineManager E) c kind i w) = Inr it \<and> ID it = i)"
  using assms working_tier.get_iff [of w i E c] episodic_tier.get_iff [of w i E c] semantic_tier.get_iff [of w i E c]
  by (auto simp: allKinds_def Manager_Get_def sys_inv_def)

text \<open>A system as it is when the program starts.\<close>

definition newSys :: sys where
  "newSys = \<lparr>tick = 0, heap = [], events = [],
     wrk = \<lparr>wm_store = newScoredStore ''wrk'' sampleEmbedder, wm_opts = wm_opts sampleWorking\<rparr>,
     epi = \<lparr>em_store = newScoredStore ''epi'' sampleEmbedder, em_opts = em_opts sampleEpisodic\<rparr>,
     sem = \<lparr>sm_store = newScoredStore ''sem'' sampleEmbedder, sm_opts = sm_opts sampleSemantic\<rparr>\<rparr>"

lemma newSys_reach: "sys_reach E newSys"
proof -
  have "sys_reach E \<lparr>tick = 0, heap = [], events = [],
     wrk = \<lparr>wm_store = newScoredStore ''wrk'' sampleEmbedder, wm_opts = \<lparr>wo_Capacity = 1, wo_Decay = hour, wo_SavedBoost = Fin 2\<rparr>\<rparr>,
     epi = \<lparr>em_store = newScoredStore ''epi'' sampleEmbedder,
       em_opts = \<lparr>eo_RecencyHalfLifeDays = Fin 30, eo_SavedBoost = Fin 1, eo_VectorBackend = Some inMemoryVectorBackend\<rparr>\<rparr>,
     sem = \<lparr>sm_store = newScoredStore ''sem'' sampleEmbedder, sm_opts = \<lparr>so_SavedBoost = Fin 1, so_VectorBackend = Some inMemoryVectorBackend\<rparr>\<rparr>\<rparr>"
    by (rule sys_reach.start [where ?e1.0 = sampleEmbedder and ?e2.0 = sampleEmbedder and ?e3.0 = sampleEmbedder
        and wo = "\<lparr>wo_Capacity = 1, wo_Decay = hour, wo_SavedBoost = Fin 2\<rparr>"
        and eo = "\<lparr>eo_RecencyHalfLifeDays = Fin 30, eo_SavedBoost = Fin 1, eo_VectorBackend = None\<rparr>"
        and so = "\<lparr>so_SavedBoost = Fin 1, so_VectorBackend = None\<rparr>"])
      (simp_all add: NewWorking_def NewEpisodic_def NewSemantic_def Let_def f_le_def hour_def)
  then show ?thesis by (simp add: newSys_def sampleWorking_def sampleEpisodic_def sampleSemantic_def)
qed

end
