(* ===== verification/Specification.thy ===== *)
theory Specification
  imports System
begin

text \<open>
  What the manager promises its callers, as an abstract machine: one finite map of items per
  kind, and for every request the responses and the changes of the map that are allowed. The
  manager over the three engines implements it; eviction is the freedom the working
  memory has to lose items when one is added.
\<close>


section \<open>Requests\<close>

datatype request =
    ReqAdd ctx Kind MemoryItem
  | ReqGet ctx Kind string
  | ReqUpdate ctx Kind string updater
  | ReqRemove ctx Kind string
  | ReqSearch ctx Kind string int

datatype response =
    RespID "error + string"
  | RespItem "error + MemoryItem"
  | RespUnit "error + unit"
  | RespHits "error + SearchResult list"

fun perform :: "'s Manager \<Rightarrow> request \<Rightarrow> 's \<Rightarrow> response \<times> 's" where
  "perform m (ReqAdd c kind item) w = map_prod RespID id (Manager_Add m c kind item w)"
| "perform m (ReqGet c kind i) w = map_prod RespItem id (Manager_Get m c kind i w)"
| "perform m (ReqUpdate c kind i fn) w = map_prod RespUnit id (Manager_Update m c kind i fn w)"
| "perform m (ReqRemove c kind i) w = map_prod RespUnit id (Manager_Remove m c kind i w)"
| "perform m (ReqSearch c kind q n) w = map_prod RespHits id (Manager_Search m c kind q n w)"

fun perform_all :: "'s Manager \<Rightarrow> request list \<Rightarrow> 's \<Rightarrow> response list \<times> 's" where
  "perform_all m [] w = ([], w)"
| "perform_all m (req # reqs) w = (case perform m req w of (resp, w) \<Rightarrow>
     map_prod ((#) resp) id (perform_all m reqs w))"

fun kind_of :: "request \<Rightarrow> Kind" where
  "kind_of (ReqAdd c kind item) = kind"
| "kind_of (ReqGet c kind i) = kind"
| "kind_of (ReqUpdate c kind i fn) = kind"
| "kind_of (ReqRemove c kind i) = kind"
| "kind_of (ReqSearch c kind q n) = kind"

text \<open>Updaters keep the identifier of the item they are given.\<close>

fun lawful :: "request \<Rightarrow> bool" where
  "lawful (ReqUpdate c kind i fn) = keepsID fn"
| "lawful _ = True"


section \<open>The specification\<close>

text \<open>
  The map of one kind before and after a request; \<open>bounded\<close> tells whether an addition may
  drop items.
\<close>

inductive tier_promise :: "bool \<Rightarrow> request \<Rightarrow> response \<Rightarrow> (string \<rightharpoonup> MemoryItem) \<Rightarrow> (string \<rightharpoonup> MemoryItem) \<Rightarrow> bool" for bounded where
  added: "i \<noteq> '''' \<Longrightarrow> (ID item \<noteq> '''' \<longrightarrow> i = ID item) \<Longrightarrow> m' \<subseteq>\<^sub>m m(i \<mapsto> (stampAdded now item)\<lparr>ID := i\<rparr>) \<Longrightarrow>
    (\<not> bounded \<longrightarrow> m' = m(i \<mapsto> (stampAdded now item)\<lparr>ID := i\<rparr>)) \<Longrightarrow>
    tier_promise bounded (ReqAdd c kind item) (RespID (Inr i)) m m'"
| not_added: "tier_promise bounded (ReqAdd c kind item) (RespID (Inl err)) m m"
| found: "m i = Some it \<Longrightarrow>
    tier_promise bounded (ReqGet c kind i) (RespItem (Inr (it\<lparr>AccessedAt := t\<rparr>))) m (m(i \<mapsto> it\<lparr>AccessedAt := t\<rparr>))"
| not_found: "m i = None \<Longrightarrow> tier_promise bounded (ReqGet c kind i) (RespItem (Inl err)) m m"
| updated: "m i = Some it \<Longrightarrow> it' = fst (fn it h) \<Longrightarrow>
    tier_promise bounded (ReqUpdate c kind i fn) (RespUnit u) m
      (m(i \<mapsto> it'\<lparr>AccessedAt := t, Importance := clampUnit (Importance it')\<rparr>))"
| not_updated: "m i = None \<Longrightarrow> tier_promise bounded (ReqUpdate c kind i fn) (RespUnit (Inl err)) m m"
| removed: "m i = Some it \<Longrightarrow> tier_promise bounded (ReqRemove c kind i) (RespUnit (Inr ())) m (m(i := None))"
| not_removed: "m i = None \<Longrightarrow> tier_promise bounded (ReqRemove c kind i) (RespUnit (Inl err)) m m"
| hits: "sr_Item ` set rs \<subseteq> ran m \<Longrightarrow> tier_promise bounded (ReqSearch c kind q n) (RespHits (Inr rs)) m m"
| no_hits: "tier_promise bounded (ReqSearch c kind q n) (RespHits (Inl err)) m m"

type_synonym tiers = "Kind \<Rightarrow> string \<rightharpoonup> MemoryItem"

definition promise :: "request \<Rightarrow> response \<Rightarrow> tiers \<Rightarrow> tiers \<Rightarrow> bool" where
  "promise req resp a a' \<longleftrightarrow> tier_promise (kind_of req = KindWorking) req resp (a (kind_of req)) (a' (kind_of req))
     \<and> (\<forall>k. k \<noteq> kind_of req \<longrightarrow> a' k = a k)"

inductive promises :: "request list \<Rightarrow> response list \<Rightarrow> tiers \<Rightarrow> tiers \<Rightarrow> bool" where
  promises_Nil: "promises [] [] a a"
| promises_Cons: "promise req resp a a' \<Longrightarrow> promises reqs resps a' a'' \<Longrightarrow> promises (req # reqs) (resp # resps) a a''"

inductive_cases promises_NilE: "promises [] resps a a'"
inductive_cases promises_ConsE: "promises (req # reqs) resps a a'"


section \<open>Every engine implements it\<close>

fun serve :: "'s Memory \<Rightarrow> request \<Rightarrow> 's \<Rightarrow> response \<times> 's" where
  "serve mem (ReqAdd c kind item) w = map_prod RespID id (mem_Add mem c item w)"
| "serve mem (ReqGet c kind i) w = map_prod RespItem id (mem_Get mem c i w)"
| "serve mem (ReqUpdate c kind i fn) w = map_prod RespUnit id (mem_Update mem c i fn w)"
| "serve mem (ReqRemove c kind i) w = map_prod RespUnit id (mem_Remove mem c i w)"
| "serve mem (ReqSearch c kind q n) w = map_prod RespHits id (mem_Search mem c q n w)"

lemma perform_serve: "requireMemory m (kind_of req) = Inr mem \<Longrightarrow> perform m req w = serve mem req w"
  by (cases req) (simp_all add: Manager_Add_def Manager_Get_def Manager_Update_def Manager_Remove_def Manager_Search_def)

context memory_tier
begin

lemma serve_promise:
  assumes "inv w" and "lawful req" and "serve mem req w = (resp, w')"
  shows "tier_promise True req resp (view w) (view w') \<and> inv w' \<and> frame w' = frame w"
proof (cases req)
  case (ReqAdd c kind item)
  then obtain r where a: "mem_Add mem c item w = (r, w')" and resp: "resp = RespID r"
    using assms(3) by (cases "mem_Add mem c item w") simp
  show ?thesis using add_result [OF assms(1) a] ReqAdd resp
    by (cases r) (auto intro: tier_promise.added tier_promise.not_added)
next
  case (ReqGet c kind i)
  then show ?thesis using assms get_hit [of w i _ c] get_miss [of w i c]
    by (cases "view w i") (fastforce intro: tier_promise.found tier_promise.not_found)+
next
  case (ReqUpdate c kind i fn)
  show ?thesis
  proof (cases "view w i")
    case None
    then show ?thesis using assms ReqUpdate update_miss [of w i c fn] by (auto intro: tier_promise.not_updated)
  next
    case (Some it)
    then obtain u t where "mem_Update mem c i fn w = (u, w')" "view w' = (view w)(i \<mapsto> (fst (fn it (heap w)))\<lparr>AccessedAt := t,
            Importance := clampUnit (Importance (fst (fn it (heap w))))\<rparr>)" "frame w' = frame w" "inv w'" "resp = RespUnit u"
      using update_hit [of w fn i it c] assms ReqUpdate by auto
    then show ?thesis using tier_promise.updated [where m = "view w" and i = i and fn = fn and h = "heap w", OF Some refl] ReqUpdate by simp
  qed
next
  case (ReqRemove c kind i)
  then show ?thesis using assms remove_hit [of w i _ c] remove_miss [of w i c]
    by (cases "view w i") (fastforce intro: tier_promise.removed tier_promise.not_removed)+
next
  case (ReqSearch c kind q n)
  then obtain r where s: "mem_Search mem c q n w = (r, w')" and resp: "resp = RespHits r"
    using assms(3) by (cases "mem_Search mem c q n w") simp
  obtain t where w': "w' = w\<lparr>tick := t\<rparr>" and hits: "case r of Inl _ \<Rightarrow> True | Inr res \<Rightarrow> sr_Item ` set res \<subseteq> ran (view w)"
    using search_result [OF assms(1) s] by blast
  show ?thesis using hits ReqSearch resp assms(1) unfolding w'
    by (cases r) (auto simp: tick_free intro: tier_promise.hits tier_promise.no_hits)
qed

end

lemma tier_promise_strengthen:
  assumes "tier_promise True req resp m m'"
    and "\<And>c kind item i. req = ReqAdd c kind item \<Longrightarrow> resp = RespID (Inr i) \<Longrightarrow>
      i \<noteq> '''' \<and> (ID item \<noteq> '''' \<longrightarrow> i = ID item) \<and> (\<exists>now. m' = m(i \<mapsto> (stampAdded now item)\<lparr>ID := i\<rparr>))"
  shows "tier_promise False req resp m m'"
  using assms(1)
proof cases
  case (added i item now c kind)
  then obtain now' where "m' = m(i \<mapsto> (stampAdded now' item)\<lparr>ID := i\<rparr>)" using assms(2) by blast
  then show ?thesis using added tier_promise.added [of i item m' m now' False c kind] by simp
qed (auto intro: tier_promise.intros)

context unbounded_tier
begin

lemma serve_promise_unbounded:
  assumes "inv w" and "lawful req" and "serve mem req w = (resp, w')"
  shows "tier_promise False req resp (view w) (view w')"
proof (rule tier_promise_strengthen)
  show "tier_promise True req resp (view w) (view w')" using serve_promise [OF assms] by simp
  fix c kind item i assume req: "req = ReqAdd c kind item" "resp = RespID (Inr i)"
  then have a: "mem_Add mem c item w = (Inr i, w')" using assms(3) by (cases "mem_Add mem c item w") simp
  show "i \<noteq> '''' \<and> (ID item \<noteq> '''' \<longrightarrow> i = ID item) \<and> (\<exists>now. view w' = (view w)(i \<mapsto> (stampAdded now item)\<lparr>ID := i\<rparr>))"
    using add_result [OF assms(1) a] add_stores [OF assms(1) a] by simp
qed

end

lemma perform_promise:
  assumes inv: "sys_inv w" and law: "lawful req" and run: "perform (engineManager E) req w = (resp, w')"
  shows "promise req resp (\<lambda>k. tier_view k w) (\<lambda>k. tier_view k w') \<and> sys_inv w'"
proof (cases "kind_of req")
  case KindWorking
  then have s: "serve (workingMemory E) req w = (resp, w')"
    using run perform_serve [of "engineManager E" req "workingMemory E" w] by simp
  show ?thesis using working_tier.serve_promise [OF _ law s] working_frame [OF _ inv, of w'] inv KindWorking
    by (simp add: promise_def sys_inv_def)
next
  case KindEpisodic
  then have s: "serve (episodicMemory E) req w = (resp, w')"
    using run perform_serve [of "engineManager E" req "episodicMemory E" w] by simp
  show ?thesis using episodic_tier.serve_promise [OF _ law s] episodic_store.serve_promise_unbounded [OF _ law s]
      episodic_frame [OF _ inv, of w'] inv KindEpisodic
    by (simp add: promise_def sys_inv_def)
next
  case KindSemantic
  then have s: "serve (semanticMemory E) req w = (resp, w')"
    using run perform_serve [of "engineManager E" req "semanticMemory E" w] by simp
  show ?thesis using semantic_tier.serve_promise [OF _ law s] semantic_store.serve_promise_unbounded [OF _ law s]
      semantic_frame [OF _ inv, of w'] inv KindSemantic
    by (simp add: promise_def sys_inv_def)
next
  case (KindOther s)
  obtain err where "requireMemory (engineManager E) (KindOther s) = (Inl err :: error + sys Memory)"
    by (simp add: requireMemory_def tierFor_def)
  then have "w' = w \<and> tier_promise False req resp Map.empty Map.empty" using run KindOther
    by (cases req) (auto simp: Manager_Add_def Manager_Get_def Manager_Update_def Manager_Remove_def Manager_Search_def
        intro: tier_promise.intros)
  then show ?thesis using inv KindOther by (simp add: promise_def)
qed


section \<open>Properties\<close>

text \<open>
  C7. The manager over the three engines refines the abstract machine: for every sequence of
  requests whose updates keep the identifier of their item, in any reachable state, the
  responses and the maps of items before and after are those the specification allows, step by
  step. The episodic and the semantic tier are exactly the maps of the specification; an
  addition to the working tier may also drop items.
\<close>

theorem manager_refines_spec:
  assumes "sys_reach E w" and "\<forall>req \<in> set reqs. lawful req"
    and "perform_all (engineManager E) reqs w = (resps, w')"
  shows "promises reqs resps (\<lambda>k. tier_view k w) (\<lambda>k. tier_view k w')"
proof -
  have "promises reqs resps (\<lambda>k. tier_view k w) (\<lambda>k. tier_view k w')" if "sys_inv w"
    using that assms(2,3)
  proof (induction reqs arbitrary: w resps)
    case Nil
    then show ?case by (simp add: promises_Nil)
  next
    case (Cons req reqs)
    obtain resp w1 where p: "perform (engineManager E) req w = (resp, w1)" by (cases "perform (engineManager E) req w")
    obtain resps' where r: "perform_all (engineManager E) reqs w1 = (resps', w')" "resps = resp # resps'"
      using Cons.prems(3) p by (cases "perform_all (engineManager E) reqs w1") simp
    have s: "promise req resp (\<lambda>k. tier_view k w) (\<lambda>k. tier_view k w1)" "sys_inv w1"
      using perform_promise [OF Cons.prems(1) _ p] Cons.prems(2) by simp_all
    have "promises reqs resps' (\<lambda>k. tier_view k w1) (\<lambda>k. tier_view k w')"
      using Cons.IH [OF s(2) _ r(1)] Cons.prems(2) by simp
    then show ?case unfolding r(2) by (rule promises_Cons [OF s(1)])
  qed
  then show ?thesis using sys_reach_inv [OF assms(1)] by blast
qed

theorem manager_refines_spec_witness:
  "promises [ReqAdd sampleCtx KindSemantic (sampleItem ''x'' ''hi''), ReqGet sampleCtx KindSemantic ''x'', ReqRemove sampleCtx KindWorking ''x'']
     (fst (perform_all (engineManager sampleEnv) [ReqAdd sampleCtx KindSemantic (sampleItem ''x'' ''hi''),
        ReqGet sampleCtx KindSemantic ''x'', ReqRemove sampleCtx KindWorking ''x''] newSys))
     (\<lambda>k. tier_view k newSys)
     (\<lambda>k. tier_view k (snd (perform_all (engineManager sampleEnv) [ReqAdd sampleCtx KindSemantic (sampleItem ''x'' ''hi''),
        ReqGet sampleCtx KindSemantic ''x'', ReqRemove sampleCtx KindWorking ''x''] newSys)))"
  by (rule manager_refines_spec [OF newSys_reach]) (simp, rule prod.collapse [symmetric])

end
