(* ===== verification/Goroutines.thy ===== *)
theory Goroutines
  imports Working
begin

text \<open>
  Many goroutines on one memory. The mutex of the store makes each locked section of
  \<^verbatim>\<open>engine_scored_store.go\<close> atomic, but \<^verbatim>\<open>get\<close>, \<^verbatim>\<open>update\<close> and the eviction after an
  addition (\<^verbatim>\<open>engine_working.go\<close>) take the lock several times, and other goroutines run in
  between. Here a goroutine is where it stands between two sections, with the local
  variables the rest of the call needs; \<open>advance\<close> runs its next section, and a step of the
  system runs one section of any goroutine. A panic of one goroutine ends the program. The
  ranking of the eviction runs after the lock is released and reads metadata maps that the
  snapshot shares with the store; an update that writes one of them meanwhile makes the
  runtime abort the program (\<^verbatim>\<open>concurrent map read and map write\<close>), which is a step of its own.
  That a section is atomic is what the mutex is for and is taken for granted: lock and unlock
  are not steps, and no theorem here is about deadlock. The other two engines have the same
  operations without the eviction, so what is shown of the store holds for them as well.
\<close>


section \<open>Calls and their sections\<close>

datatype call =
    CallAdd ctx MemoryItem
  | CallGet string
  | CallUpdate ctx string updater
  | CallRemove string
  | CallImport Snapshot ImportMode

text \<open>What a call returns; a run-time panic ends the goroutine, and with it the program.\<close>

datatype outcome =
    RetID "error + string"
  | RetItem "error + MemoryItem"
  | RetUnit "error + unit"
  | RetReport "ImportReport \<times> error option"
  | Panic string

text \<open>
  The constructors after \<open>Start\<close> are the points between sections: in \<^verbatim>\<open>get\<close> before the
  touch; in \<^verbatim>\<open>update\<close> before the embedding and before the vector is stored; in \<^verbatim>\<open>Add\<close> before
  the check of the capacity, before the embedding of the probe, before the snapshot of
  \<^verbatim>\<open>evictOldest\<close> or of the ranking, with the snapshot before the ranking itself, and before the
  removal of the victim. The last string of the points of \<^verbatim>\<open>Add\<close> is the identifier it will
  return.
\<close>

datatype goroutine =
    Start call
  | Touch string MemoryItem
  | Reembed ctx string string
  | SetVector string vector
  | CheckCapacity ctx string string
  | EmbedProbe ctx string string
  | PickOldest string
  | PickLowest string vector string
  | RankLowest string vector "(string, MemoryItem) gomap" "(string, vector) gomap" string
  | Evict string string
  | Done outcome

definition after_add :: "ctx \<Rightarrow> string \<Rightarrow> error + string \<Rightarrow> goroutine" where
  "after_add c probe r = (case r of Inl err \<Rightarrow> Done (RetID (Inl err)) | Inr i \<Rightarrow> CheckCapacity c probe i)"

definition check_capacity :: "WorkingMemory \<Rightarrow> ctx \<Rightarrow> string \<Rightarrow> string \<Rightarrow> goroutine" where
  "check_capacity wm c probe i =
     (if wo_Capacity (wm_opts wm) \<le> 0 then Done (RetID (Inr i))
      else if int (length (items (wm_store wm))) \<le> wo_Capacity (wm_opts wm) then Done (RetID (Inr i))
      else EmbedProbe c probe i)"

definition pick_oldest :: "env \<Rightarrow> string \<Rightarrow> 'z world_scheme \<Rightarrow> WorkingMemory \<Rightarrow> goroutine \<times> 'z world_scheme" where
  "pick_oldest E i w wm =
     (let (its, _) = snapshot (wm_store wm);
          (oldest, w) = time_Now E w;
          (ordered, w) = go_range E its w;
          oldestID = oldest_loop ordered oldest ''''
      in (if oldestID \<noteq> '''' then Evict oldestID i else Done (RetID (Inr i)), w))"

text \<open>
  The snapshot is taken under the lock. The scoring after it reads the metadata as it is then.
  The index expression \<^verbatim>\<open>scores[0]\<close> panics on an empty slice.
\<close>

definition pick_lowest :: "string \<Rightarrow> vector \<Rightarrow> string \<Rightarrow> WorkingMemory \<Rightarrow> goroutine" where
  "pick_lowest probe qv i wm = (let (its, vecs) = snapshot (wm_store wm) in RankLowest probe qv its vecs i)"

definition rank_lowest :: "env \<Rightarrow> string \<Rightarrow> vector \<Rightarrow> (string, MemoryItem) gomap \<Rightarrow> (string, vector) gomap \<Rightarrow> string
    \<Rightarrow> 'z world_scheme \<Rightarrow> WorkingMemory \<Rightarrow> goroutine \<times> 'z world_scheme" where
  "rank_lowest E probe qv its vecs i w wm =
     (let (ordered, w) = go_range E its w;
          (scores, w) = evict_scores E (wm_opts wm) probe qv vecs ordered w
      in (case sort_by pair_less scores of
            [] \<Rightarrow> Done (Panic ''index out of range'')
          | (k, _) # _ \<Rightarrow> Evict k i, w))"

fun advance :: "env \<Rightarrow> goroutine \<Rightarrow> 'z world_scheme \<Rightarrow> WorkingMemory \<Rightarrow> goroutine \<times> 'z world_scheme \<times> WorkingMemory" where
  "advance E (Start (CallAdd c item)) w wm = (case store_add E c item w (wm_store wm) of
       (r, w, s) \<Rightarrow> (after_add c (Content item) r, w, wm\<lparr>wm_store := s\<rparr>))"
| "advance E (CheckCapacity c probe i) w wm = (check_capacity wm c probe i, w, wm)"
| "advance E (EmbedProbe c probe i) w wm = (case queryEmbedding (embedder (wm_store wm)) c probe w of
       (Inl err, w) \<Rightarrow> (PickOldest i, w, wm)
     | (Inr qv, w) \<Rightarrow> (PickLowest probe qv i, w, wm))"
| "advance E (PickOldest i) w wm = (case pick_oldest E i w wm of (g, w) \<Rightarrow> (g, w, wm))"
| "advance E (PickLowest probe qv i) w wm = (pick_lowest probe qv i wm, w, wm)"
| "advance E (RankLowest probe qv its vecs i) w wm = (case rank_lowest E probe qv its vecs i w wm of (g, w) \<Rightarrow> (g, w, wm))"
| "advance E (Evict k i) w wm = (Done (RetID (Inr i)), w, wm\<lparr>wm_store := snd (store_remove k (wm_store wm))\<rparr>)"
| "advance E (Start (CallGet i)) w wm = (case get_read i (wm_store wm) of
       None \<Rightarrow> (Done (RetItem (Inl ErrNotFound)), w, wm)
     | Some item \<Rightarrow> (Touch i item, w, wm))"
| "advance E (Touch i item) w wm = (case get_touch E i item w (wm_store wm) of
       (item, w, s) \<Rightarrow> (Done (RetItem (Inr item)), w, wm\<lparr>wm_store := s\<rparr>))"
| "advance E (Start (CallUpdate c i fn)) w wm = (case update_item E i fn w (wm_store wm) of
       (r, w, s) \<Rightarrow>
         (case r of
            Inl err \<Rightarrow> Done (RetUnit (Inl err))
          | Inr None \<Rightarrow> Done (RetUnit (Inr ()))
          | Inr (Some content) \<Rightarrow> Reembed c i content, w, wm\<lparr>wm_store := s\<rparr>))"
| "advance E (Reembed c i content) w wm = (case queryEmbedding (embedder (wm_store wm)) c content w of
       (Inl err, w) \<Rightarrow> (Done (RetUnit (Inl (ErrWrap ''memory: re-embed'' err))), w, wm)
     | (Inr vec, w) \<Rightarrow> (SetVector i vec, w, wm))"
| "advance E (SetVector i vec) w wm = (Done (RetUnit (Inr ())), w, wm\<lparr>wm_store := update_vector i vec (wm_store wm)\<rparr>)"
| "advance E (Start (CallRemove i)) w wm = (case store_remove i (wm_store wm) of
       (r, s) \<Rightarrow> (Done (RetUnit r), w, wm\<lparr>wm_store := s\<rparr>))"
| "advance E (Start (CallImport snap mode)) w wm = (case Working_Import E snap mode wm of
       (r, wm) \<Rightarrow> (Done (RetReport r), w, wm))"
| "advance E (Done r) w wm = (Done r, w, wm)"


section \<open>Interleavings\<close>

type_synonym config_state = "goroutine list \<times> world \<times> WorkingMemory"

fun finished :: "goroutine \<Rightarrow> bool" where
  "finished (Done _) = True"
| "finished _ = False"

text \<open>A goroutine that has panicked has ended the program.\<close>

fun panicked :: "goroutine \<Rightarrow> bool" where
  "panicked (Done (Panic msg)) = True"
| "panicked _ = False"

definition crashed :: "goroutine list \<Rightarrow> bool" where
  "crashed gs \<longleftrightarrow> list_ex panicked gs"

text \<open>The metadata maps the ranking is reading, and those the function of an update is about to change.\<close>

fun reads_map :: "goroutine \<Rightarrow> ref set" where
  "reads_map (RankLowest probe qv its vecs i) = {r. Some r \<in> Metadata ` snd ` set its}"
| "reads_map _ = {}"

fun writes_map :: "'z world_scheme \<Rightarrow> WorkingMemory \<Rightarrow> goroutine \<Rightarrow> ref set" where
  "writes_map w wm (Start (CallUpdate c i fn)) = (case mget (items (wm_store wm)) i of
       None \<Rightarrow> {}
     | Some it \<Rightarrow> {r. meta_at (snd (fn it (heap w))) r \<noteq> meta_at (heap w) r})"
| "writes_map w wm _ = {}"

definition mapRace :: outcome where
  "mapRace = Panic ''concurrent map read and map write''"

inductive interleave :: "env \<Rightarrow> config_state \<Rightarrow> config_state \<Rightarrow> bool" for E where
  step: "k < length gs \<Longrightarrow> \<not> finished (gs ! k) \<Longrightarrow> \<not> crashed gs \<Longrightarrow> advance E (gs ! k) w wm = (g, w', wm') \<Longrightarrow>
    interleave E (gs, w, wm) (gs[k := g], w', wm')"
| abort: "k < length gs \<Longrightarrow> \<not> crashed gs \<Longrightarrow> r \<in> writes_map w wm (gs ! k) \<Longrightarrow> \<exists>g \<in> set gs. r \<in> reads_map g \<Longrightarrow>
    interleave E (gs, w, wm) (gs[k := Done mapRace], w, wm)"

inductive_cases interleaveE: "interleave E (gs, w, wm) c"

lemma writes_map_update: "r \<in> writes_map w wm g \<Longrightarrow> \<exists>c i fn. g = Start (CallUpdate c i fn)"
  by (cases "(w, wm, g)" rule: writes_map.cases) auto

text \<open>Runs of any number of sections, in any order of the goroutines.\<close>

inductive runs :: "env \<Rightarrow> config_state \<Rightarrow> nat \<Rightarrow> config_state \<Rightarrow> bool" for E c0 where
  runs_0: "runs E c0 0 c0"
| runs_Suc: "runs E c0 n c \<Longrightarrow> interleave E c c' \<Longrightarrow> runs E c0 (Suc n) c'"

text \<open>
  A schedule names the goroutine that runs next; finished ones and unknown ones are passed
  over, and it ends with the program.
\<close>

fun schedule :: "env \<Rightarrow> nat list \<Rightarrow> config_state \<Rightarrow> config_state" where
  "schedule E [] c = c"
| "schedule E (k # ks) (gs, w, wm) =
     (if k < length gs \<and> \<not> finished (gs ! k) \<and> \<not> crashed gs
      then (case advance E (gs ! k) w wm of (g, w, wm) \<Rightarrow> schedule E ks (gs[k := g], w, wm))
      else schedule E ks (gs, w, wm))"

lemma schedule_runs:
  assumes "runs E c0 n c"
  shows "\<exists>m. runs E c0 m (schedule E ks c)"
  using assms
proof (induction E ks c arbitrary: n rule: schedule.induct)
  case (2 E k ks gs w wm)
  show ?case
  proof (cases "k < length gs \<and> \<not> finished (gs ! k) \<and> \<not> crashed gs")
    case True
    obtain g w' wm' where s: "advance E (gs ! k) w wm = (g, w', wm')" by (metis prod.exhaust)
    have "interleave E (gs, w, wm) (gs[k := g], w', wm')" using True s by (intro interleave.step) auto
    from runs_Suc [OF "2.prems" this] show ?thesis using "2.IH"(1) [OF True s [symmetric] refl] True s by auto
  next
    case False
    then show ?thesis using "2.IH"(2) [OF False "2.prems"] by auto
  qed
qed auto

text \<open>An invariant of every section is one of every run.\<close>

lemma runs_invariant:
  assumes "runs E c0 n c" and "I c0" and "\<And>c c'. I c \<Longrightarrow> interleave E c c' \<Longrightarrow> I c'"
  shows "I c"
  using assms by (induction rule: runs.induct) auto



lemma filter_update_length:
  "k < length xs \<Longrightarrow> length (filter P (xs[k := x])) + of_bool (P (xs ! k)) = length (filter P xs) + of_bool (P x)"
proof (induction xs arbitrary: k)
  case (Cons y xs)
  then show ?case by (cases k) auto
qed simp


section \<open>Well-formed stores up to orphan vectors\<close>

text \<open>
  As \<open>store_wf\<close>, except that the identifiers of \<open>U\<close> may have a vector without an item.
\<close>

definition store_wf_upto :: "string set \<Rightarrow> scoredStore \<Rightarrow> bool" where
  "store_wf_upto U s \<longleftrightarrow> mwf (items s) \<and> mwf (vectors s)
     \<and> (\<forall>k it. mget (items s) k = Some it \<longrightarrow> ID it = k \<and> k \<noteq> '''')
     \<and> mkeys (vectors s) \<subseteq> mkeys (items s) \<union> U"

lemma store_wf_upto_empty: "store_wf_upto {} s = store_wf s"
proof
  assume "store_wf_upto {} s"
  then show "store_wf s" by (intro store_wfI) (simp_all add: store_wf_upto_def)
next
  assume "store_wf s"
  then show "store_wf_upto {} s" using store_wfD by (simp add: store_wf_upto_def)
qed

lemma store_wf_upto_mono: "store_wf_upto U s \<Longrightarrow> U \<subseteq> V \<Longrightarrow> store_wf_upto V s"
  unfolding store_wf_upto_def by (meson Un_mono order_refl subset_trans)

lemma upto_put:
  assumes "store_wf_upto U s" and "ID it = i" and "i \<noteq> ''''"
  shows "store_wf_upto U (s\<lparr>items := mput i it (items s)\<rparr>)"
    and "store_wf_upto U (s\<lparr>items := mput i it (items s), vectors := mput i v (vectors s)\<rparr>)"
    and "store_wf_upto U (s\<lparr>items := mput i it (items s), vectors := mdel i (vectors s)\<rparr>)"
  using assms by (auto simp: store_wf_upto_def split: if_splits)

lemma upto_remove:
  assumes "store_wf_upto U s"
  shows "store_wf_upto U (snd (store_remove i s))"
  using assms by (auto simp: store_wf_upto_def store_remove_def split: option.splits if_splits)

lemma upto_vector:
  assumes "store_wf_upto U s" and "i \<in> U"
  shows "store_wf_upto U (update_vector i v s)"
  using assms by (auto simp: store_wf_upto_def update_vector_def)

lemma upto_add:
  assumes "store_wf_upto U s" and "store_add E c item w s = (r, w', s')"
  shows "store_wf_upto U s'"
proof (cases r)
  case (Inl e)
  then show ?thesis using store_add_Inl [of E c item w s e w' s'] assms by (simp add: store_wf_upto_def)
next
  case (Inr i)
  then obtain now vec where *: "i \<noteq> ''''" "items s' = mput i ((stampAdded now item)\<lparr>ID := i\<rparr>) (items s)"
      "vectors s' = mput i vec (vectors s)"
    using store_add_Inr [of E c item w s i w' s'] assms(2) by auto
  have "store_wf_upto U (s\<lparr>items := items s', vectors := vectors s'\<rparr>)"
    unfolding *(2,3) by (rule upto_put(2) [OF assms(1) _ *(1)]) simp
  then show ?thesis by (simp add: store_wf_upto_def)
qed

lemma upto_import_loop: "store_wf_upto U s \<Longrightarrow> store_wf_upto U (snd (import_loop mode sis rpt s))"
proof (induction mode sis rpt s rule: import_loop.induct)
  case (2 mode si sis rpt s)
  show ?case
  proof (cases "ID (si_Item si) = ''''")
    case True
    then show ?thesis using 2 by simp
  next
    case False
    have put: "store_wf_upto U (put_vector (ID (si_Item si)) v (s\<lparr>items := mput (ID (si_Item si)) (si_Item si) (items s)\<rparr>))" for v
      using upto_put(1,2) [OF "2.prems" refl False] by (cases v) (simp_all add: put_vector_def)
    show ?thesis using 2 False put upto_put(3) [OF "2.prems" refl False]
      by (cases mode) (auto simp: Let_def)
  qed
qed simp

lemma upto_import: "store_wf_upto U s \<Longrightarrow> store_wf_upto U (snd (importIntoStore E snap mode s))"
  by (auto simp: importIntoStore_def Let_def intro!: upto_import_loop) (simp add: store_wf_upto_def)


section \<open>Every section keeps the store\<close>

text \<open>The identifiers whose vector a goroutine may still write, or is going to.\<close>

fun writes_vector :: "goroutine \<Rightarrow> string set" where
  "writes_vector (Start (CallUpdate c i fn)) = {i}"
| "writes_vector (Reembed c i content) = {i}"
| "writes_vector (SetVector i v) = {i}"
| "writes_vector _ = {}"

text \<open>Updaters keep the identifier of the item they are given.\<close>

fun well_behaved :: "goroutine \<Rightarrow> bool" where
  "well_behaved (Start (CallUpdate c i fn)) = keepsID fn"
| "well_behaved _ = True"

lemma upto_update_item:
  assumes "store_wf_upto U s" and "keepsID fn" and "update_item E i fn w s = (r, w', s')"
  shows "store_wf_upto U s'"
proof (cases "mget (items s) i")
  case None
  then show ?thesis using assms by (simp add: update_item_def)
next
  case (Some it)
  then have "ID it = i" "i \<noteq> ''''" using assms(1) by (auto simp: store_wf_upto_def)
  then show ?thesis using assms Some
    by (auto simp: update_item_hit updatedItem_def keepsID_def Let_def intro!: upto_put)
qed

lemma upto_get_touch:
  assumes "store_wf_upto U s" and "get_touch E i it w s = (r, w', s')"
  shows "store_wf_upto U s'"
proof (cases "mget (items s) i")
  case None
  then show ?thesis using assms by (simp add: get_touch_def)
next
  case (Some jt)
  then have "ID jt = i" "i \<noteq> ''''" using assms(1) by (auto simp: store_wf_upto_def)
  then show ?thesis using assms Some by (auto simp: get_touch_def Let_def split_beta intro!: upto_put)
qed

lemma advance_keeps:
  assumes "store_wf_upto U (wm_store wm)" and "well_behaved g" and "writes_vector g \<subseteq> U"
    and "advance E g w wm = (g', w', wm')"
  shows "store_wf_upto U (wm_store wm') \<and> well_behaved g' \<and> writes_vector g' \<subseteq> U"
  using assms(2-4)
proof (cases "(E, g, w, wm)" rule: advance.cases)
  case (1 E c item w wm)
  then show ?thesis using assms upto_add [OF assms(1)]
    by (auto simp: after_add_def split: prod.splits sum.splits)
next
  case (2 E c probe i w wm)
  then show ?thesis using assms by (auto simp: check_capacity_def split: if_splits)
next
  case (3 E c probe i w wm)
  then show ?thesis using assms by (auto split: prod.splits sum.splits)
next
  case (4 E i w wm)
  then show ?thesis using assms by (auto simp: pick_oldest_def Let_def split_beta split: if_splits)
next
  case (5 E probe qv i w wm)
  then show ?thesis using assms by (auto simp: pick_lowest_def split_beta)
next
  case (6 E probe qv its vecs i w wm)
  then show ?thesis using assms by (auto simp: rank_lowest_def Let_def split_beta split: list.splits)
next
  case (7 E k i w wm)
  then show ?thesis using assms upto_remove by auto
next
  case (8 E i w wm)
  then show ?thesis using assms by (auto split: option.splits)
next
  case (9 E i item w wm)
  then show ?thesis using assms upto_get_touch [OF assms(1)] by (auto split: prod.splits)
next
  case (10 E c i fn w wm)
  then show ?thesis using assms upto_update_item [OF assms(1)]
    by (auto split: prod.splits sum.splits option.splits)
next
  case (11 E c i content w wm)
  then show ?thesis using assms by (auto split: prod.splits sum.splits)
next
  case (12 E i vec w wm)
  then show ?thesis using assms upto_vector by auto
next
  case (13 E i w wm)
  then show ?thesis using assms upto_remove [of U "wm_store wm" i] by (auto split: prod.splits)
next
  case (14 E snap mode w wm)
  then show ?thesis using assms upto_import [OF assms(1), of E snap mode]
    by (auto simp: Working_Import_def split: prod.splits if_splits)
next
  case (15 E r w wm)
  then show ?thesis using assms by auto
qed


definition conc_ok :: "string set \<Rightarrow> config_state \<Rightarrow> bool" where
  "conc_ok U c \<longleftrightarrow> (case c of (gs, w, wm) \<Rightarrow>
     store_wf_upto U (wm_store wm) \<and> (\<forall>g \<in> set gs. well_behaved g \<and> writes_vector g \<subseteq> U))"

lemma conc_ok_step: "conc_ok U c \<Longrightarrow> interleave E c c' \<Longrightarrow> conc_ok U c'"
proof -
  assume ok: "conc_ok U c" and "interleave E c c'"
  from this(2) show ?thesis
  proof cases
    case (step k gs w wm g w' wm')
    then have "store_wf_upto U (wm_store wm') \<and> well_behaved g \<and> writes_vector g \<subseteq> U"
      using ok by (intro advance_keeps [OF _ _ _ step(6)]) (simp_all add: conc_ok_def)
    then show ?thesis using ok step set_update_subset_insert [of gs k g] by (auto simp: conc_ok_def)
  next
    case (abort k gs r w wm)
    have "well_behaved h \<and> writes_vector h \<subseteq> U" if "h \<in> set (gs[k := Done mapRace])" for h
      using subsetD [OF set_update_subset_insert that] ok abort by (auto simp: conc_ok_def)
    then show ?thesis using ok abort by (simp add: conc_ok_def)
  qed
qed


section \<open>A goroutine on its own\<close>

fun alone :: "env \<Rightarrow> nat \<Rightarrow> goroutine \<Rightarrow> 'z world_scheme \<Rightarrow> WorkingMemory \<Rightarrow> goroutine \<times> 'z world_scheme \<times> WorkingMemory" where
  "alone E 0 g w wm = (g, w, wm)"
| "alone E (Suc n) g w wm = (case advance E g w wm of (g, w, wm) \<Rightarrow> alone E n g w wm)"

text \<open>The calls as the sequential operations.\<close>

fun sequential :: "env \<Rightarrow> call \<Rightarrow> 'z world_scheme \<Rightarrow> WorkingMemory \<Rightarrow> outcome \<times> 'z world_scheme \<times> WorkingMemory" where
  "sequential E (CallAdd c item) w wm = (case Working_Add E c item w wm of (r, w, wm) \<Rightarrow> (RetID r, w, wm))"
| "sequential E (CallGet i) w wm = (case Working_Get E i w wm of (r, w, wm) \<Rightarrow> (RetItem r, w, wm))"
| "sequential E (CallUpdate c i fn) w wm = (case Working_Update E c i fn w wm of (r, w, wm) \<Rightarrow> (RetUnit r, w, wm))"
| "sequential E (CallRemove i) w wm = (case Working_Remove i wm of (r, wm) \<Rightarrow> (RetUnit r, w, wm))"
| "sequential E (CallImport snap mode) w wm = (case Working_Import E snap mode wm of (r, wm) \<Rightarrow> (RetReport r, w, wm))"

lemma alone_Done [simp]: "alone E n (Done r) w wm = (Done r, w, wm)"
  by (induction n) simp_all

lemma evict_alone:
  "alone E 5 (CheckCapacity c probe i) w wm =
     (case evictIfOverCapacity E c probe w wm of (w, wm) \<Rightarrow> (Done (RetID (Inr i)), w, wm))"
proof (cases "wo_Capacity (wm_opts wm) \<le> 0 \<or> int (length (items (wm_store wm))) \<le> wo_Capacity (wm_opts wm)")
  case True
  then show ?thesis by (auto simp: numeral_eq_Suc check_capacity_def evictIfOverCapacity_def)
next
  case False
  then have ne: "items (wm_store wm) \<noteq> []" by auto
  obtain q w1 where q: "queryEmbedding (embedder (wm_store wm)) c probe w = (q, w1)"
    by (cases "queryEmbedding (embedder (wm_store wm)) c probe w")
  show ?thesis
  proof (cases q)
    case (Inl err)
    then show ?thesis using False q
      by (auto simp: numeral_eq_Suc check_capacity_def evictIfOverCapacity_def pick_oldest_def evictOldest_def Let_def split_beta)
  next
    case (Inr qv)
    let ?scores = "fst (evict_scores E (wm_opts wm) probe qv (snd (snapshot (wm_store wm)))
        (fst (go_range E (items (wm_store wm)) w1)) (snd (go_range E (items (wm_store wm)) w1)))"
    have "map fst ?scores = map fst (fst (go_range E (items (wm_store wm)) w1))" by (rule evict_scores_ids)
    then have "?scores \<noteq> []" using ne by (auto simp: go_range_def)
    then have "sort_by pair_less ?scores \<noteq> []" by (metis length_0_conv length_sort_by)
    then show ?thesis using False q Inr
      by (auto simp: numeral_eq_Suc check_capacity_def evictIfOverCapacity_def pick_lowest_def rank_lowest_def snapshot_def
          Let_def split_beta split: list.splits)
  qed
qed


text \<open>
  The sections are those of the operations: run one after the other, at most six of them give
  the result, the state and the clock of the sequential call.
\<close>

lemma call_alone:
  "alone E 6 (Start call) w wm = (case sequential E call w wm of (r, w, wm) \<Rightarrow> (Done r, w, wm))"
proof (cases call)
  case (CallAdd c item)
  obtain r w1 s1 where a: "store_add E c item w (wm_store wm) = (r, w1, s1)"
    by (cases "store_add E c item w (wm_store wm)")
  have "alone E 6 (Start call) w wm = alone E 5 (after_add c (Content item) r) w1 (wm\<lparr>wm_store := s1\<rparr>)"
    using CallAdd a by (simp add: eval_nat_numeral)
  then show ?thesis using CallAdd a by (cases r) (simp_all add: after_add_def Working_Add_def evict_alone split: prod.splits)
next
  case (CallGet i)
  then show ?thesis
    by (cases "get_read i (wm_store wm)") (auto simp: numeral_eq_Suc Working_Get_def store_get_def split: prod.splits)
next
  case (CallUpdate c i fn)
  obtain r w1 s1 where u: "update_item E i fn w (wm_store wm) = (r, w1, s1)"
    by (cases "update_item E i fn w (wm_store wm)")
  then show ?thesis using CallUpdate
    by (auto simp: numeral_eq_Suc Working_Update_def store_update_def split: prod.splits sum.splits option.splits)
next
  case (CallRemove i)
  then show ?thesis by (auto simp: numeral_eq_Suc Working_Remove_def split: prod.splits)
next
  case (CallImport snap mode)
  then show ?thesis by (auto simp: numeral_eq_Suc split: prod.splits)
qed


section \<open>Concurrent additions\<close>

text \<open>The identifier an addition has been given, from its first section on.\<close>

fun minted :: "goroutine \<Rightarrow> string option" where
  "minted (CheckCapacity c probe i) = Some i"
| "minted (EmbedProbe c probe i) = Some i"
| "minted (PickOldest i) = Some i"
| "minted (PickLowest probe qv i) = Some i"
| "minted (RankLowest probe qv its vecs i) = Some i"
| "minted (Evict k i) = Some i"
| "minted (Done (RetID (Inr i))) = Some i"
| "minted _ = None"

text \<open>An addition that may still evict an item.\<close>

fun evicting :: "goroutine \<Rightarrow> bool" where
  "evicting (CheckCapacity c probe i) = True"
| "evicting (EmbedProbe c probe i) = True"
| "evicting (PickOldest i) = True"
| "evicting (PickLowest probe qv i) = True"
| "evicting (RankLowest probe qv its vecs i) = True"
| "evicting (Evict k i) = True"
| "evicting _ = False"

text \<open>
  Additions that leave the identifier to the store, reads, and updates that write no metadata
  map. A snapshot they take is not empty.
\<close>

definition leavesMaps :: "updater \<Rightarrow> bool" where
  "leavesMaps fn \<longleftrightarrow> (\<forall>it h. snd (fn it h) = h)"

fun gentle :: "goroutine \<Rightarrow> bool" where
  "gentle (Start (CallAdd c item)) = (ID item = '''')"
| "gentle (Start (CallUpdate c i fn)) = leavesMaps fn"
| "gentle (RankLowest probe qv its vecs i) = (its \<noteq> [])"
| "gentle (Start (CallRemove i)) = False"
| "gentle (Start (CallImport snap mode)) = False"
| "gentle (Done (Panic msg)) = False"
| "gentle _ = True"

text \<open>An addition that has not begun.\<close>

fun adding :: "goroutine \<Rightarrow> bool" where
  "adding (Start (CallAdd c item)) = True"
| "adding _ = False"

definition flight :: "goroutine list \<Rightarrow> nat" where
  "flight gs = length (filter evicting gs)"

definition mints :: "scoredStore \<Rightarrow> goroutine list \<Rightarrow> bool" where
  "mints s gs \<longleftrightarrow>
     (\<forall>k < length gs. \<forall>i. minted (gs ! k) = Some i \<longrightarrow> (\<exists>nano n. i = generatedID (prefix s) nano n \<and> n \<le> seq s))
     \<and> (\<forall>k < length gs. \<forall>l < length gs. k \<noteq> l \<longrightarrow> minted (gs ! k) \<noteq> None \<longrightarrow> minted (gs ! k) \<noteq> minted (gs ! l))"

text \<open>
  What a section of one goroutine guarantees to the others: the store still knows its
  identifiers, an identifier is minted once and beyond all earlier ones, and an item is
  taken away only by a goroutine that put one in and ends with that.
\<close>

definition fair_section :: "goroutine \<Rightarrow> scoredStore \<Rightarrow> goroutine \<Rightarrow> scoredStore \<Rightarrow> bool" where
  "fair_section g s g' s' \<longleftrightarrow> mwf (items s') \<and> ids_below s' \<and> prefix s' = prefix s \<and> gentle g' \<and> \<not> adding g'
     \<and> seq s' = seq s + of_bool (adding g)
     \<and> length (items s) + of_bool (evicting g') \<le> length (items s') + of_bool (evicting g)
     \<and> (minted g' = minted g
        \<or> minted g = None \<and> (\<exists>nano. minted g' = Some (generatedID (prefix s) nano (seq s + 1))) \<and> seq s' = seq s + 1)"

lemma fair_same: "mwf (items s) \<Longrightarrow> ids_below s \<Longrightarrow> gentle g' \<Longrightarrow> minted g' = minted g \<Longrightarrow>
    (evicting g' \<longrightarrow> evicting g) \<Longrightarrow> \<not> adding g \<Longrightarrow> \<not> adding g' \<Longrightarrow> fair_section g s g' s"
  by (simp add: fair_section_def)

lemma fair_put: "mwf (items s) \<Longrightarrow> ids_below s \<Longrightarrow> gentle g' \<Longrightarrow> minted g' = minted g \<Longrightarrow>
    (evicting g' \<longrightarrow> evicting g) \<Longrightarrow> \<not> adding g \<Longrightarrow> \<not> adding g' \<Longrightarrow> mget (items s) i \<noteq> None \<Longrightarrow>
    fair_section g s g' (s\<lparr>items := mput i it (items s)\<rparr>)"
proof -
  assume *: "mwf (items s)" "ids_below s" "gentle g'" "minted g' = minted g" "evicting g' \<longrightarrow> evicting g"
    "\<not> adding g" "\<not> adding g'" "mget (items s) i \<noteq> None"
  then have i: "i \<in> mkeys (items s)" using mget_None_iff by metis
  then have "mkeys (mput i it (items s)) = mkeys (items s)" by auto
  then have "ids_below (s\<lparr>items := mput i it (items s)\<rparr>)" using *(2) by (simp add: ids_below_def)
  then show ?thesis using * i by (simp add: fair_section_def length_mput)
qed

lemma fair_remove: "mwf (items s) \<Longrightarrow> ids_below s \<Longrightarrow> fair_section (Evict k i) s (Done (RetID (Inr i))) (snd (store_remove k s))"
proof (cases "mget (items s) k")
  case None
  assume *: "mwf (items s)" "ids_below s"
  then show ?thesis using None by (simp add: store_remove_miss fair_section_def)
next
  case (Some it)
  assume *: "mwf (items s)" "ids_below s"
  have k: "k \<in> mkeys (items s)" using Some mget_None_iff by (metis option.distinct(1))
  have "ids_below (snd (store_remove k s))" using *(2) Some by (auto simp: store_remove_hit ids_below_def)
  then show ?thesis using * Some k by (simp add: store_remove_hit fair_section_def length_mdel)
qed

lemma fair_add:
  assumes "mwf (items s)" and "ids_below s" and "ID item = ''''" and "store_add E c item w s = (r, w', s')"
    and room: "seq_room (Suc m) s"
  shows "fair_section (Start (CallAdd c item)) s (after_add c probe r) s'"
proof (cases r)
  case (Inl e)
  note f = store_add_Inl [OF assms(4) [unfolded Inl]]
  have "seq s' = seq s + 1" using store_add_seq [OF assms(4,3)] seq_room_step [OF room] by simp
  then show ?thesis using f assms(1) ids_below_seq_mono [OF assms(2), of s'] Inl by (simp add: fair_section_def after_add_def)
next
  case (Inr i)
  note st = store_add_fresh_step [OF assms(2,3) assms(4) [unfolded Inr] room]
  obtain now vec where f: "i = addedID E item w s" "items s' = mput i ((stampAdded now item)\<lparr>ID := i\<rparr>) (items s)"
      "prefix s' = prefix s" "seq s' = seq s + 1"
    using store_add_Inr [OF assms(4) [unfolded Inr]] assms(3) seq_room_step [OF room] by auto
  have "length (items s') = Suc (length (items s))" using f(2) st assms(1) by (simp add: length_mput)
  moreover have "mwf (items s')" using f(2) assms(1) by simp
  moreover have "\<exists>nano. i = generatedID (prefix s) nano (seq s + 1)"     using f(1) addedID_generated [OF assms(3), of E w s] seq_room_step [OF room] by auto
  ultimately show ?thesis using st f(3,4) Inr by (simp add: fair_section_def after_add_def)
qed


text \<open>The ranking of a snapshot that is not empty ends with one of its identifiers.\<close>

lemma rank_lowest_victim:
  assumes "its \<noteq> []"
  shows "\<exists>k w'. k \<in> mkeys its \<and> rank_lowest E probe qv its vecs i w wm = (Evict k i, w')"
proof -
  let ?scores = "fst (evict_scores E (wm_opts wm) probe qv vecs (fst (go_range E its w)) (snd (go_range E its w)))"
  have ids: "map fst ?scores = map fst (fst (go_range E its w))" by (rule evict_scores_ids)
  then have "?scores \<noteq> []" using assms by (auto simp: go_range_def)
  then have "sort_by pair_less ?scores \<noteq> []" by (metis length_0_conv length_sort_by)
  then obtain k x ps where kx: "sort_by pair_less ?scores = (k, x) # ps" by (cases "sort_by pair_less ?scores") auto
  then have "(k, x) \<in> set ?scores" by (metis list.set_intros(1) set_sort_by)
  then have "k \<in> set (map fst ?scores)" by force
  then have "k \<in> mkeys its" unfolding ids by (simp add: go_range_def)
  then show ?thesis using kx by (auto simp: rank_lowest_def Let_def split_beta)
qed

lemma advance_fair:
  assumes "mwf (items (wm_store wm))" and "ids_below (wm_store wm)" and "gentle g"
    and "evicting g \<Longrightarrow> items (wm_store wm) \<noteq> []" and "advance E g w wm = (g', w', wm')"
    and room: "adding g \<Longrightarrow> \<exists>m. seq_room (Suc m) (wm_store wm)"
  shows "fair_section g (wm_store wm) g' (wm_store wm')"
  using assms(3-6)
proof (cases "(E, g, w, wm)" rule: advance.cases)
  case (1 E c item w wm)
  obtain r w1 s1 where "store_add E c item w (wm_store wm) = (r, w1, s1)" by (cases "store_add E c item w (wm_store wm)")
  moreover obtain m where "seq_room (Suc m) (wm_store wm)" using room 1 by auto
  ultimately show ?thesis using 1 assms fair_add [of "wm_store wm" item E c w r w1 s1 m] by auto
next
  case (2 E c probe i w wm)
  then show ?thesis using assms fair_same by (auto simp: check_capacity_def split: if_splits)
next
  case (3 E c probe i w wm)
  then show ?thesis using assms fair_same by (auto split: prod.splits sum.splits)
next
  case (4 E i w wm)
  then show ?thesis using assms fair_same by (auto simp: pick_oldest_def Let_def split_beta split: if_splits)
next
  case (5 E probe qv i w wm)
  then show ?thesis using assms fair_same by (auto simp: pick_lowest_def snapshot_def)
next
  case (6 E probe qv its vecs i w wm)
  then show ?thesis using assms fair_same rank_lowest_victim [of its E probe qv vecs i w wm] by auto
next
  case (7 E k i w wm)
  then show ?thesis using assms fair_remove by auto
next
  case (8 E i w wm)
  then show ?thesis using assms fair_same by (auto split: option.splits)
next
  case (9 E i item w wm)
  then show ?thesis using assms
    by (cases "mget (items (wm_store wm)) i")
      (auto simp: get_touch_def Let_def split_beta intro!: fair_same fair_put)
next
  case (10 E c i fn w wm)
  show ?thesis
  proof (cases "mget (items (wm_store wm)) i")
    case None
    then show ?thesis using 10 assms fair_same by (auto simp: update_item_def)
  next
    case (Some it)
    then show ?thesis using 10 assms by (auto simp: update_item_hit intro!: fair_put)
  qed
next
  case (11 E c i content w wm)
  then show ?thesis using assms fair_same by (auto split: prod.splits sum.splits)
next
  case (12 E i vec w wm)
  then show ?thesis using assms by (auto simp: update_vector_def fair_section_def ids_below_def)
next
  case (15 E r w wm)
  then show ?thesis using assms(1-3,5) by (auto intro: fair_same)
qed simp_all

lemma flight_update:
  "k < length gs \<Longrightarrow> flight (gs[k := g]) + of_bool (evicting (gs ! k)) = flight gs + of_bool (evicting g)"
  unfolding flight_def by (rule filter_update_length)

lemma flight_pos: "k < length gs \<Longrightarrow> evicting (gs ! k) \<Longrightarrow> 0 < flight gs"
  unfolding flight_def by (metis filter_empty_conv length_greater_0_conv nth_mem)

lemma mints_step:
  assumes "mints s gs" and "k < length gs" and "fair_section (gs ! k) s g s'"
  shows "mints s' (gs[k := g])"
proof -
  have pre: "prefix s' = prefix s" and le: "seq s \<le> seq s'"
    and mk: "minted g = minted (gs ! k) \<or> minted (gs ! k) = None
      \<and> (\<exists>nano. minted g = Some (generatedID (prefix s) nano (seq s + 1))) \<and> seq s' = seq s + 1"
    using assms(3) by (auto simp: fair_section_def)
  have old: "\<exists>nano n. i = generatedID (prefix s) nano n \<and> n \<le> seq s" if "l < length gs" "minted (gs ! l) = Some i" for l i
    using assms(1) that unfolding mints_def by blast
  have dis: "minted (gs ! l) \<noteq> minted (gs ! m)" if "l < length gs" "m < length gs" "l \<noteq> m" "minted (gs ! l) \<noteq> None" for l m
    using assms(1) that unfolding mints_def by blast
  have new: "minted (gs ! l) \<noteq> minted g" if l: "l < length gs" "l \<noteq> k" "minted (gs ! l) \<noteq> None" for l
    using mk
  proof
    assume "minted g = minted (gs ! k)"
    then show ?thesis using dis [OF l(1) assms(2) l(2,3)] by simp
  next
    assume n: "minted (gs ! k) = None \<and> (\<exists>nano. minted g = Some (generatedID (prefix s) nano (seq s + 1))) \<and> seq s' = seq s + 1"
    obtain i where i: "minted (gs ! l) = Some i" using l(3) by blast
    obtain nano m where m: "i = generatedID (prefix s) nano m" "m \<le> seq s" using old [OF l(1) i] by blast
    have "i \<noteq> generatedID (prefix s) nano' (seq s + 1)" for nano'
      using m generatedID_inj [of "prefix s" nano m "prefix s" nano' "seq s + 1"] by auto
    then show ?thesis using n i by auto
  qed
  have bound: "\<exists>nano n. i = generatedID (prefix s') nano n \<and> n \<le> seq s'"
    if l: "l < length gs" "minted (gs[k := g] ! l) = Some i" for l i
  proof (cases "l = k \<and> minted g \<noteq> minted (gs ! k)")
    case True
    then show ?thesis using mk l assms(2) pre by auto
  next
    case False
    then have "minted (gs ! l) = Some i" using l by (cases "l = k") auto
    then obtain nano n where "i = generatedID (prefix s) nano n" "n \<le> seq s" using old [OF l(1)] by blast
    then have "i = generatedID (prefix s') nano n \<and> n \<le> seq s'" using pre le by simp
    then show ?thesis by blast
  qed
  have sep: "minted (gs[k := g] ! l) \<noteq> minted (gs[k := g] ! m)"
    if "l < length gs" "m < length gs" "l \<noteq> m" "minted (gs[k := g] ! l) \<noteq> None" for l m
    using that dis [of l m] new [of l] new [of m] by (cases "l = k"; cases "m = k") (auto simp: nth_list_update)
  show ?thesis unfolding mints_def using bound sep by simp
qed

definition adds_ok :: "config_state \<Rightarrow> bool" where
  "adds_ok c \<longleftrightarrow> (case c of (gs, w, wm) \<Rightarrow> mwf (items (wm_store wm)) \<and> ids_below (wm_store wm)
     \<and> (\<forall>g \<in> set gs. gentle g) \<and> flight gs \<le> length (items (wm_store wm)) \<and> mints (wm_store wm) gs
     \<and> seq_room (length (filter adding gs)) (wm_store wm))"

lemma seq_room_fair:
  assumes "seq_room (length (filter adding gs)) s" and "k < length gs" and "fair_section (gs ! k) s g s'"
  shows "seq_room (length (filter adding (gs[k := g]))) s'"
  using assms(1,3) filter_update_length [OF assms(2), of adding g] by (auto simp: seq_room_def fair_section_def)

lemma adds_ok_step: "adds_ok c \<Longrightarrow> interleave E c c' \<Longrightarrow> adds_ok c'"
proof -
  assume ok: "adds_ok c" and "interleave E c c'"
  from this(2) show ?thesis
  proof cases
    case (step k gs w wm g w' wm')
    have fl: "flight gs \<le> length (items (wm_store wm))" and gk: "gentle (gs ! k)"
      using ok step by (auto simp: adds_ok_def)
    have room: "seq_room (length (filter adding gs)) (wm_store wm)" using ok step by (simp add: adds_ok_def)
    have "\<exists>m. seq_room (Suc m) (wm_store wm)" if "adding (gs ! k)"
    proof -
      have "gs ! k \<in> set (filter adding gs)" using that step(3) by simp
      then have "0 < length (filter adding gs)" by (rule length_pos_if_in_set)
      then show ?thesis using room by (metis gr0_conv_Suc)
    qed
    then have fair: "fair_section (gs ! k) (wm_store wm) g (wm_store wm')"
      by (intro advance_fair [OF _ _ gk _ step(6)]) (use ok step flight_pos [of k gs] fl in \<open>auto simp: adds_ok_def\<close>)
    have "flight (gs[k := g]) \<le> length (items (wm_store wm'))"
      using flight_update [OF step(3), of g] fair fl unfolding fair_section_def by linarith
    moreover have "mints (wm_store wm') (gs[k := g])" using mints_step [OF _ step(3) fair] ok step by (simp add: adds_ok_def)
    moreover have "\<forall>h \<in> set (gs[k := g]). gentle h"
      using ok step fair set_update_subset_insert [of gs k g] by (auto simp: adds_ok_def fair_section_def)
    ultimately show ?thesis using fair step seq_room_fair [OF room step(3) fair] by (simp add: adds_ok_def fair_section_def)
  next
    case (abort k gs r w wm)
    obtain c i fn where u: "gs ! k = Start (CallUpdate c i fn)" using writes_map_update [OF abort(5)] by blast
    moreover have "gentle (gs ! k)" using ok abort by (simp add: adds_ok_def)
    ultimately have "snd (fn it h) = h" for it h by (simp add: leavesMaps_def)
    then have False using abort(5) u by (auto split: option.splits)
    then show ?thesis ..
  qed
qed



section \<open>Growth\<close>

text \<open>Only the first section of an addition, and an import, can add items.\<close>

fun importing :: "goroutine \<Rightarrow> bool" where
  "importing (Start (CallImport snap mode)) = True"
| "importing _ = False"

definition grows_by :: "nat \<Rightarrow> scoredStore \<Rightarrow> scoredStore \<Rightarrow> bool" where
  "grows_by n s s' \<longleftrightarrow> length (items s') \<le> length (items s) + n"

lemma grows_remove: "grows_by 0 s (snd (store_remove i s))"
  by (auto simp: grows_by_def store_remove_def length_delete_le split: option.splits)

lemma grows_put: "mget (items s) i \<noteq> None \<Longrightarrow> grows_by 0 s (s\<lparr>items := mput i it (items s)\<rparr>)"
  by (auto simp: grows_by_def length_mput mget_None_iff [symmetric])

lemma grows_add:
  assumes "store_add E c item w s = (r, w', s')"
  shows "grows_by 1 s s'"
proof (cases r)
  case (Inl e)
  then show ?thesis using store_add_Inl [of E c item w s e w' s'] assms by (simp add: grows_by_def)
next
  case (Inr i)
  then show ?thesis using store_add_Inr [of E c item w s i w' s'] assms by (auto simp: grows_by_def length_mput)
qed

lemma advance_grows:
  assumes "\<not> importing g" and "advance E g w wm = (g', w', wm')"
  shows "\<not> importing g' \<and> \<not> adding g' \<and> grows_by (of_bool (adding g)) (wm_store wm) (wm_store wm')"
  using assms
proof (cases "(E, g, w, wm)" rule: advance.cases)
  case (1 E c item w wm)
  then show ?thesis using assms grows_add [of E c item w "wm_store wm"]
    by (auto simp: after_add_def split: prod.splits sum.splits)
next
  case (7 E k i w wm)
  then show ?thesis using assms grows_remove by auto
next
  case (9 E i item w wm)
  then show ?thesis using assms grows_put [of "wm_store wm" i]
    by (cases "mget (items (wm_store wm)) i") (auto simp: get_touch_def Let_def split_beta grows_by_def)
next
  case (10 E c i fn w wm)
  show ?thesis
  proof (cases "mget (items (wm_store wm)) i")
    case None
    then show ?thesis using 10 assms by (auto simp: update_item_def grows_by_def)
  next
    case (Some it)
    then show ?thesis using 10 assms grows_put [of "wm_store wm" i] by (auto simp: update_item_hit split: option.splits if_splits)
  qed
next
  case (13 E i w wm)
  then show ?thesis using assms grows_remove [of "wm_store wm" i] by (auto split: prod.splits)
qed (auto simp: grows_by_def check_capacity_def pick_oldest_def pick_lowest_def rank_lowest_def update_vector_def Let_def split_beta
    split: prod.splits sum.splits option.splits list.splits if_splits)

definition grown :: "nat \<Rightarrow> config_state \<Rightarrow> bool" where
  "grown n c \<longleftrightarrow> (case c of (gs, w, wm) \<Rightarrow> (\<forall>g \<in> set gs. \<not> importing g)
     \<and> length (items (wm_store wm)) + length (filter adding gs) \<le> n)"

lemma grown_step: "grown n c \<Longrightarrow> interleave E c c' \<Longrightarrow> grown n c'"
proof -
  assume ok: "grown n c" and "interleave E c c'"
  from this(2) show ?thesis
  proof cases
    case (step k gs w wm g w' wm')
    then have "\<not> importing (gs ! k)" using ok by (simp add: grown_def)
    from advance_grows [OF this step(6)]
    have adv: "\<not> importing g" "\<not> adding g" "length (items (wm_store wm')) \<le> length (items (wm_store wm)) + of_bool (adding (gs ! k))"
      by (simp_all add: grows_by_def)
    have "\<forall>h \<in> set (gs[k := g]). \<not> importing h"
      using ok step adv(1) set_update_subset_insert [of gs k g] by (auto simp: grown_def)
    moreover have "length (filter adding (gs[k := g])) + of_bool (adding (gs ! k)) = length (filter adding gs)"
      using filter_update_length [OF step(3), of adding g] adv(2) by simp
    ultimately show ?thesis using ok step adv(3) by (simp add: grown_def)
  next
    case (abort k gs r w wm)
    obtain c i fn where u: "gs ! k = Start (CallUpdate c i fn)" using writes_map_update [OF abort(5)] by blast
    have "\<forall>h \<in> set (gs[k := Done mapRace]). \<not> importing h"
      using ok abort set_update_subset_insert [of gs k "Done mapRace"] by (auto simp: grown_def)
    then show ?thesis using ok abort filter_update_length [OF abort(3), of adding "Done mapRace"] u by (simp add: grown_def)
  qed
qed


section \<open>Evictions that hit\<close>

text \<open>An item disappears only when the store gets smaller.\<close>

lemma remove_keys:
  assumes "mwf (items s)"
  shows "mwf (items (snd (store_remove k s)))
    \<and> (mkeys (items s) \<subseteq> mkeys (items (snd (store_remove k s))) \<or> length (items (snd (store_remove k s))) < length (items s))"
    and "k \<in> mkeys (items s) \<Longrightarrow> length (items (snd (store_remove k s))) < length (items s)"
proof -
  have hit: "length (mdel k (items s)) < length (items s)" if "k \<in> mkeys (items s)"
  proof -
    have "items s \<noteq> []" using that by auto
    then show ?thesis using length_mdel [OF assms, of k] that by simp
  qed
  have k: "mget (items s) k = None \<longleftrightarrow> k \<notin> mkeys (items s)" by (rule mget_None_iff)
  show "mwf (items (snd (store_remove k s)))
    \<and> (mkeys (items s) \<subseteq> mkeys (items (snd (store_remove k s))) \<or> length (items (snd (store_remove k s))) < length (items s))"
    using assms hit k by (cases "mget (items s) k") (simp_all add: store_remove_miss store_remove_hit)
  show "k \<in> mkeys (items s) \<Longrightarrow> length (items (snd (store_remove k s))) < length (items s)"
    using hit k by (cases "mget (items s) k") (simp_all add: store_remove_hit)
qed

lemma mkeysI: "(a, b) \<in> set m \<Longrightarrow> a \<in> mkeys m"
  by force

lemma advance_keys:
  assumes "\<not> importing g" and "mwf (items (wm_store wm))" and "advance E g w wm = (g', w', wm')"
  shows "mwf (items (wm_store wm')) \<and> wm_opts wm' = wm_opts wm \<and> embedder (wm_store wm') = embedder (wm_store wm)
    \<and> (mkeys (items (wm_store wm)) \<subseteq> mkeys (items (wm_store wm')) \<or> length (items (wm_store wm')) < length (items (wm_store wm)))"
  using assms
proof (cases "(E, g, w, wm)" rule: advance.cases)
  case (1 E c item w wm)
  obtain r w1 s1 where a: "store_add E c item w (wm_store wm) = (r, w1, s1)" by (cases "store_add E c item w (wm_store wm)")
  have "items s1 = items (wm_store wm) \<or> (\<exists>i it. items s1 = mput i it (items (wm_store wm)))" "embedder s1 = embedder (wm_store wm)"
    using store_add_Inl [of E c item w "wm_store wm" _ w1 s1] store_add_Inr [of E c item w "wm_store wm" _ w1 s1] a
    by (cases r; auto)+
  then have "mwf (items s1) \<and> embedder s1 = embedder (wm_store wm) \<and> mkeys (items (wm_store wm)) \<subseteq> mkeys (items s1)"
    using assms(2) 1 by (elim disjE exE) (simp_all add: mkeys_mput subset_insertI)
  moreover have "wm' = wm\<lparr>wm_store := s1\<rparr>" using 1 assms(3) a by auto
  ultimately show ?thesis using 1 by simp
next
  case (7 E k i w wm)
  have "embedder (snd (store_remove k (wm_store wm))) = embedder (wm_store wm)"
    by (simp add: store_remove_def split: option.splits)
  moreover have "wm' = wm\<lparr>wm_store := snd (store_remove k (wm_store wm))\<rparr>" using 7 assms(3) by auto
  ultimately show ?thesis using 7 assms(2) remove_keys(1) [of "wm_store wm" k] by simp
next
  case (9 E i item w wm)
  then show ?thesis using assms
    by (cases "mget (items (wm_store wm)) i") (auto simp: get_touch_def Let_def split_beta dest: mkeysI)
next
  case (10 E c i fn w wm)
  then show ?thesis using assms
    by (cases "mget (items (wm_store wm)) i") (auto simp: update_item_def Let_def split_beta dest: mkeysI)
next
  case (13 E i w wm)
  have "embedder (snd (store_remove i (wm_store wm))) = embedder (wm_store wm)"
    by (simp add: store_remove_def split: option.splits)
  moreover have "wm' = wm\<lparr>wm_store := snd (store_remove i (wm_store wm))\<rparr>" using 13 assms(3) by (auto split: prod.splits)
  ultimately show ?thesis using 13 assms(2) remove_keys(1) [of "wm_store wm" i] by simp
qed (auto simp: check_capacity_def pick_oldest_def pick_lowest_def rank_lowest_def update_vector_def Let_def split_beta
    split: prod.splits sum.splits option.splits list.splits if_splits)

text \<open>An addition on its way to the removal of an item that is there.\<close>

fun pressing :: "scoredStore \<Rightarrow> goroutine \<Rightarrow> bool" where
  "pressing s (CheckCapacity c probe i) = True"
| "pressing s (EmbedProbe c probe i) = True"
| "pressing s (PickLowest probe qv i) = True"
| "pressing s (RankLowest probe qv its vecs i) = (its \<noteq> [] \<and> mkeys its \<subseteq> mkeys (items s))"
| "pressing s (Evict k i) = (k \<in> mkeys (items s))"
| "pressing s _ = False"

lemma pressing_mono: "pressing s g \<Longrightarrow> mkeys (items s) \<subseteq> mkeys (items s') \<Longrightarrow> pressing s' g"
proof (cases "(s, g)" rule: pressing.cases)
  case (4 t probe qv its vecs i)
  assume *: "pressing s g" "mkeys (items s) \<subseteq> mkeys (items s')"
  then show ?thesis using 4 subset_trans [OF _ *(2), of "mkeys its"] by simp
next
  case (5 t k i)
  assume *: "pressing s g" "mkeys (items s) \<subseteq> mkeys (items s')"
  then show ?thesis using 5 subsetD [OF *(2), of k] by simp
qed simp_all

lemma pressing_unfinished: "pressing s g \<Longrightarrow> \<not> finished g \<and> \<not> adding g \<and> \<not> importing g"
  by (cases "(s, g)" rule: pressing.cases) auto

text \<open>
  A step of such an addition, in a memory over its capacity and with an embedder that answers,
  leads closer to the removal, or is it.
\<close>

lemma pressing_step:
  assumes p: "pressing (wm_store wm) g" and over: "0 < wo_Capacity (wm_opts wm)"
      "wo_Capacity (wm_opts wm) < int (length (items (wm_store wm)))" and wf: "mwf (items (wm_store wm))"
    and emb: "\<And>c t w :: world. \<exists>v. fst (queryEmbedding (embedder (wm_store wm)) c t w) = Inr v"
    and adv: "advance E g (w :: world) wm = (g', w', wm')"
  shows "pressing (wm_store wm') g' \<or> length (items (wm_store wm')) < length (items (wm_store wm))"
proof (cases "(wm_store wm, g)" rule: pressing.cases)
  case (1 s c probe i)
  then have "g' = EmbedProbe c probe i" using adv over by (auto simp: check_capacity_def)
  then show ?thesis by simp
next
  case (2 s c probe i)
  obtain v w1 where "queryEmbedding (embedder (wm_store wm)) c probe w = (Inr v, w1)" using emb [of c probe w] by (metis prod.collapse)
  then have "g' = PickLowest probe v i" using 2 adv by simp
  then show ?thesis by simp
next
  case (3 s probe qv i)
  have ne: "items (wm_store wm) \<noteq> []" using over by auto
  have g: "g = PickLowest probe qv i" using 3 by simp
  have "wm' = wm" "\<exists>vecs. g' = RankLowest probe qv (items (wm_store wm)) vecs i"
    using adv unfolding g by (auto simp: pick_lowest_def snapshot_def)
  then show ?thesis using ne by (elim exE) simp
next
  case (4 s probe qv its vecs i)
  then have its: "its \<noteq> []" "mkeys its \<subseteq> mkeys (items (wm_store wm))" using p by simp_all
  obtain k w1 where k: "k \<in> mkeys its" "rank_lowest E probe qv its vecs i w wm = (Evict k i, w1)"
    using rank_lowest_victim [OF its(1), of E probe qv vecs i w wm] by (elim exE conjE) (rule that)
  have g: "g = RankLowest probe qv its vecs i" using 4 by simp
  have "g' = Evict k i" "wm' = wm" using adv k(2) unfolding g by simp_all
  then show ?thesis using subsetD [OF its(2) k(1)] by simp
next
  case (5 s k i)
  then have "k \<in> mkeys (items (wm_store wm))" "wm' = wm\<lparr>wm_store := snd (store_remove k (wm_store wm))\<rparr>"
    using p adv by simp_all
  then show ?thesis using remove_keys(2) [OF wf] by simp
qed (use p in simp_all)

text \<open>
  The additions are the goroutines of \<open>K\<close>. As long as the memory has not fallen short of its
  capacity and all additions together, each of them is still to begin or on its way.
\<close>

definition room_left :: "goroutine list \<Rightarrow> WorkingMemory \<Rightarrow> nat" where
  "room_left gs wm = length (items (wm_store wm)) + length (filter adding gs)"

definition pressed :: "nat set \<Rightarrow> int \<Rightarrow> Embedder \<Rightarrow> config_state \<Rightarrow> bool" where
  "pressed K cap e c \<longleftrightarrow> (case c of (gs, w, wm) \<Rightarrow> mwf (items (wm_store wm)) \<and> wo_Capacity (wm_opts wm) = cap
     \<and> embedder (wm_store wm) = e \<and> (\<forall>g \<in> set gs. \<not> importing g)
     \<and> {k. k < length gs \<and> adding (gs ! k)} \<subseteq> K \<and> K \<subseteq> {..<length gs}
     \<and> int (room_left gs wm) \<le> cap + int (card K)
     \<and> (int (room_left gs wm) = cap + int (card K) \<longrightarrow>
          (\<forall>k \<in> K. adding (gs ! k) \<or> pressing (wm_store wm) (gs ! k))))"

lemma adding_others:
  assumes "{k. k < length gs \<and> adding (gs ! k)} \<subseteq> K" and "finite K" and "k \<in> K" and "\<not> adding (gs ! k)"
  shows "length (filter adding gs) < card K"
proof -
  have "length (filter adding gs) = card {k. k < length gs \<and> adding (gs ! k)}" by (rule length_filter_conv_card)
  also have "\<dots> \<le> card (K - {k})" by (rule card_mono) (use assms in auto)
  also have "\<dots> < card K" using assms(2,3) by (rule card_Diff1_less)
  finally show ?thesis .
qed

lemma pressed_advance:
  assumes ok: "pressed K cap e (gs, w, wm)" and k: "k < length gs" and cap: "0 < cap"
    and emb: "\<And>c t w :: world. \<exists>v. fst (queryEmbedding e c t w) = Inr v"
    and adv: "advance E (gs ! k) w wm = (g, w', wm')"
  shows "pressed K cap e (gs[k := g], w', wm')"
proof -
  have inv: "mwf (items (wm_store wm))" "wo_Capacity (wm_opts wm) = cap" "embedder (wm_store wm) = e"
      "\<forall>h \<in> set gs. \<not> importing h" "{k. k < length gs \<and> adding (gs ! k)} \<subseteq> K" "K \<subseteq> {..<length gs}"
      "int (room_left gs wm) \<le> cap + int (card K)"
    and way: "int (room_left gs wm) = cap + int (card K) \<Longrightarrow> j \<in> K \<Longrightarrow> adding (gs ! j) \<or> pressing (wm_store wm) (gs ! j)" for j
    using ok by (simp_all add: pressed_def)
  have fin: "finite K" using inv(6) finite_subset by blast
  have ni: "\<not> importing (gs ! k)" using inv(4) k by simp
  note grow = advance_grows [OF ni adv] and keys = advance_keys [OF ni inv(1) adv]
  have cnt: "length (filter adding (gs[k := g])) + of_bool (adding (gs ! k)) = length (filter adding gs)"
    using filter_update_length [OF k, of adding g] grow by simp
  have le: "room_left (gs[k := g]) wm' \<le> room_left gs wm"
    using grow cnt by (simp add: room_left_def grows_by_def)
  have short: "room_left (gs[k := g]) wm' < room_left gs wm" if "length (items (wm_store wm')) < length (items (wm_store wm))"
    using that cnt by (simp add: room_left_def)
  have "adding (gs[k := g] ! j) \<or> pressing (wm_store wm') (gs[k := g] ! j)"
    if full: "int (room_left (gs[k := g]) wm') = cap + int (card K)" and j: "j \<in> K" for j
  proof -
    have T: "int (room_left gs wm) = cap + int (card K)" using full le inv(7) by linarith
    have same: "\<not> length (items (wm_store wm')) < length (items (wm_store wm))" using short T full by linarith
    show ?thesis
    proof (cases "j = k")
      case False
      then show ?thesis using way [OF T j] pressing_mono [of "wm_store wm" "gs ! j" "wm_store wm'"] keys same by auto
    next
      case True
      consider "adding (gs ! k)" | "\<not> adding (gs ! k)" "pressing (wm_store wm) (gs ! k)" using way [OF T j] True by blast
      then have "pressing (wm_store wm') g"
      proof cases
        case 1
        then obtain c item where g: "gs ! k = Start (CallAdd c item)" by (cases "gs ! k" rule: adding.cases) simp_all
        obtain r w1 s1 where a: "store_add E c item w (wm_store wm) = (r, w1, s1)" by (cases "store_add E c item w (wm_store wm)")
        have "\<not> (\<exists>err. r = Inl err)"
        proof
          assume "\<exists>err. r = Inl err"
          then have "items s1 = items (wm_store wm)" using store_add_Inl [of E c item w "wm_store wm" _ w1 s1] a by auto
          then have "room_left (gs[k := g]) wm' < room_left gs wm" using adv g a cnt 1 by (auto simp: room_left_def)
          then show False using T full by linarith
        qed
        then show ?thesis using adv g a by (cases r) (auto simp: after_add_def)
      next
        case 2
        have "length (filter adding gs) < card K" by (rule adding_others [OF inv(5) fin j]) (use True 2 in simp)
        then have over: "cap < int (length (items (wm_store wm)))" using T unfolding room_left_def by linarith
        have emb': "\<And>c t w :: world. \<exists>v. fst (queryEmbedding (embedder (wm_store wm)) c t w) = Inr v" unfolding inv(3) by (rule emb)
        show ?thesis using pressing_step [OF 2(2) _ _ inv(1) emb' adv] cap over same inv(2) by simp
      qed
      then show ?thesis using True k by simp
    qed
  qed
  moreover have "\<not> importing h" if "h \<in> set (gs[k := g])" for h
    using subsetD [OF set_update_subset_insert that] inv(4) grow by auto
  moreover have "{j. j < length (gs[k := g]) \<and> adding (gs[k := g] ! j)} \<subseteq> K" using inv(5) grow k by (auto simp: nth_list_update split: if_splits)
  moreover have "int (room_left (gs[k := g]) wm') \<le> cap + int (card K)" using le inv(7) by linarith
  ultimately show ?thesis using keys inv(2,3,6) by (simp add: pressed_def)
qed

lemma pressed_step:
  assumes "0 < cap" and "\<And>c t w :: world. \<exists>v. fst (queryEmbedding e c t w) = Inr v"
  shows "pressed K cap e c \<Longrightarrow> interleave E c c' \<Longrightarrow> pressed K cap e c'"
proof -
  assume ok: "pressed K cap e c" and "interleave E c c'"
  from this(2) show ?thesis
  proof cases
    case (step k gs w wm g w' wm')
    then show ?thesis using pressed_advance [OF _ _ assms] ok by blast
  next
    case (abort k gs r w wm)
    let ?gs = "gs[k := Done mapRace]"
    obtain c i fn where u: "gs ! k = Start (CallUpdate c i fn)" using writes_map_update [OF abort(5)] by blast
    have room: "room_left ?gs wm = room_left gs wm"
      using filter_update_length [OF abort(3), of adding "Done mapRace"] u by (simp add: room_left_def)
    have way: "adding (?gs ! j) \<or> pressing (wm_store wm) (?gs ! j)"
      if "int (room_left ?gs wm) = cap + int (card K)" "j \<in> K" for j
    proof -
      have "adding (gs ! j) \<or> pressing (wm_store wm) (gs ! j)" using ok abort room that by (simp add: pressed_def)
      then show ?thesis using u by (cases "j = k") auto
    qed
    have "\<not> importing h" if "h \<in> set ?gs" for h
      using subsetD [OF set_update_subset_insert that] ok abort by (auto simp: pressed_def)
    moreover have "{j. j < length ?gs \<and> adding (?gs ! j)} \<subseteq> K" using ok abort by (auto simp: pressed_def nth_list_update split: if_splits)
    ultimately show ?thesis using ok abort way room by (simp add: pressed_def)
  qed
qed


section \<open>Properties\<close>

text \<open>
  C14. Concurrent calls keep the store: whatever number of goroutines call the memory, with
  updates that keep the identifier of their item, and however their sections interleave, the
  maps keep distinct keys and every item is stored under its own non-empty identifier. A vector without an item can only be left behind under
  an identifier that one of the calls updates; without updates the store is well formed.
\<close>

theorem concurrent_store_ok:
  assumes "runs E (map Start calls, w0, wm0) n (gs, w, wm)" and "store_wf (wm_store wm0)"
    and "\<forall>c i fn. CallUpdate c i fn \<in> set calls \<longrightarrow> keepsID fn"
  shows "mwf (items (wm_store wm)) \<and> mwf (vectors (wm_store wm))
    \<and> (\<forall>k it. mget (items (wm_store wm)) k = Some it \<longrightarrow> ID it = k \<and> k \<noteq> '''')
    \<and> mkeys (vectors (wm_store wm)) - mkeys (items (wm_store wm)) \<subseteq> {i. \<exists>c fn. CallUpdate c i fn \<in> set calls}
    \<and> ((\<forall>c i fn. CallUpdate c i fn \<notin> set calls) \<longrightarrow> store_wf (wm_store wm))"
proof -
  let ?U = "{i. \<exists>c fn. CallUpdate c i fn \<in> set calls}"
  have "writes_vector (Start call) \<subseteq> ?U \<and> well_behaved (Start call)" if "call \<in> set calls" for call
    using assms(3) that by (cases call) auto
  moreover have "store_wf_upto ?U (wm_store wm0)"
    using store_wf_upto_mono [of "{}" "wm_store wm0" ?U] assms(2) by (simp add: store_wf_upto_empty)
  ultimately have "conc_ok ?U (map Start calls, w0, wm0)" by (simp add: conc_ok_def)
  from runs_invariant [OF assms(1), of "conc_ok ?U", OF this conc_ok_step]
  have ok: "store_wf_upto ?U (wm_store wm)" unfolding conc_ok_def prod.case by (rule conjunct1)
  moreover have "store_wf (wm_store wm)" if "\<forall>c i fn. CallUpdate c i fn \<notin> set calls"
  proof -
    have "?U = {}" using that by simp
    then show ?thesis using ok by (simp only: store_wf_upto_empty)
  qed
  moreover have "V - K \<subseteq> A" if "V \<subseteq> K \<union> A" for V K A :: "string set" using that by blast
  ultimately show ?thesis unfolding store_wf_upto_def by meson
qed

text \<open>
  C16. Concurrent additions are safe: goroutines that add items without identifiers, read, and
  update with functions that write no metadata map, on a memory whose generated identifiers
  are those of its counter and whose counter does not reach the end of its range, never panic
  and are never aborted, and the identifiers the additions return are pairwise distinct, in
  every interleaving.
\<close>

theorem concurrent_adds_safe:
  assumes "runs E (map Start calls, w0, wm0) n (gs, w, wm)"
    and "mwf (items (wm_store wm0))" and "ids_below (wm_store wm0)"
    and "\<forall>call \<in> set calls. case call of CallAdd c item \<Rightarrow> ID item = '''' | CallRemove i \<Rightarrow> False
      | CallImport snap mode \<Rightarrow> False | CallUpdate c i fn \<Rightarrow> leavesMaps fn | _ \<Rightarrow> True"
    and "0 \<le> seq (wm_store wm0)" and "seq (wm_store wm0) + int (length calls) < 2 ^ 63"
  shows "(\<forall>msg. Done (Panic msg) \<notin> set gs)
    \<and> (\<forall>k < length gs. \<forall>l < length gs. \<forall>i. gs ! k = Done (RetID (Inr i)) \<and> gs ! l = Done (RetID (Inr i)) \<longrightarrow> k = l)
    \<and> length (filter evicting gs) \<le> length (items (wm_store wm))"
proof -
  have "gentle (Start call)" if "call \<in> set calls" for call using assms(4) that by (cases call) auto
  moreover have "flight (map Start calls) = 0" by (induction calls) (simp_all add: flight_def)
  moreover have "mints (wm_store wm0) (map Start calls)" by (simp add: mints_def)
  moreover have "length (filter adding (map Start calls)) \<le> length calls"
    using length_filter_le [of adding "map Start calls"] by simp
  then have "seq_room (length (filter adding (map Start calls))) (wm_store wm0)"
    using assms(5,6) unfolding seq_room_def by linarith
  ultimately have "adds_ok (map Start calls, w0, wm0)" using assms(2,3) by (simp add: adds_ok_def)
  from runs_invariant [OF assms(1), of adds_ok, OF this adds_ok_step]
  have ok: "\<forall>g \<in> set gs. gentle g" "mints (wm_store wm) gs" "flight gs \<le> length (items (wm_store wm))"
    by (simp_all add: adds_ok_def)
  have "Done (Panic msg) \<notin> set gs" for msg using ok(1) by auto
  moreover have "k = l" if "k < length gs" "l < length gs" "gs ! k = Done (RetID (Inr i))" "gs ! l = Done (RetID (Inr i))" for k l i
  proof (rule ccontr)
    assume "k \<noteq> l"
    from conjunct2 [OF ok(2) [unfolded mints_def], rule_format, OF that(1,2) this] show False
      using that(3,4) by simp
  qed
  ultimately show ?thesis using ok(3) unfolding flight_def by blast
qed


text \<open>Concrete runs: a schedule of goroutines on a memory that is full with one item.\<close>

definition writeContent :: "string \<Rightarrow> updater" where
  "writeContent t it h = (it\<lparr>Content := t\<rparr>, h)"

text \<open>An embedder that answers until its fourth call and then is out of reach.\<close>

definition flakyEmbedder :: Embedder where
  "flakyEmbedder n c texts = (if n < 4 then sampleEmbedder n c texts else brokenEmbedder n c texts)"

definition fullMemory :: "Embedder \<Rightarrow> WorkingMemory" where
  "fullMemory e = sampleWorking\<lparr>wm_store := sampleStore e\<rparr>"

lemma fullMemory_simps [simp]:
  "wm_store (fullMemory e) = sampleStore e"
  "wm_opts (fullMemory e) = \<lparr>wo_Capacity = 1, wo_Decay = hour, wo_SavedBoost = Fin 2\<rparr>"
  by (simp_all add: fullMemory_def)

lemma keepsID_writeContent: "keepsID (writeContent t)"
  by (simp add: keepsID_def writeContent_def)

lemma ids_below_full: "ids_below (sampleStore e)"
  by (simp add: ids_below_def generatedID_def)

lemma sample_range: "go_range sampleEnv xs w = (xs, w\<lparr>tick := Suc (tick w)\<rparr>)"
proof -
  have "rank_at sampleEnv n = (\<lambda>i. i)" for n by (rule ext) simp
  then show ?thesis by (simp add: go_range_def shuffle_def sorted_sort_id map_nth)
qed

lemmas run_simps = store_add_def assignID_def time_Now_def queryEmbedding_def stampAdded_def after_add_def check_capacity_def
  update_item_def update_vector_def store_remove_def get_read_def get_touch_def pick_oldest_def pick_lowest_def rank_lowest_def crashed_def
  sampleEmbedder_def brokenEmbedder_def flakyEmbedder_def writeContent_def sample_range snapshot_def
  time_IsZero_def Let_def numeral_2_eq_2

theorem concurrent_store_ok_witness:
  "\<exists>n gs w wm. runs sampleEnv (map Start [CallUpdate sampleCtx ''k'' (writeContent ''new''), CallRemove ''k''], sampleWorld,
      fullMemory sampleEmbedder) n (gs, w, wm)
    \<and> mkeys (vectors (wm_store wm)) - mkeys (items (wm_store wm)) \<subseteq> {''k''}"
proof -
  let ?calls = "[CallUpdate sampleCtx ''k'' (writeContent ''new''), CallRemove ''k'']"
  let ?c = "(map Start ?calls, sampleWorld, fullMemory sampleEmbedder)"
  obtain n gs w wm where r: "runs sampleEnv ?c n (gs, w, wm)" "schedule sampleEnv [0, 0, 1, 0] ?c = (gs, w, wm)"
    using schedule_runs [OF runs_0, of sampleEnv ?c "[0, 0, 1, 0]"] by (metis prod_cases3)
  have "\<forall>c i fn. CallUpdate c i fn \<in> set ?calls \<longrightarrow> keepsID fn" by (simp add: keepsID_writeContent)
  from concurrent_store_ok [OF r(1) _ this]
  have "mkeys (vectors (wm_store wm)) - mkeys (items (wm_store wm)) \<subseteq> {i. \<exists>c fn. CallUpdate c i fn \<in> set ?calls}"
    using sampleStore_wf by simp
  then show ?thesis using r(1) by auto
qed

theorem concurrent_adds_safe_witness:
  "\<exists>n gs w wm. runs sampleEnv (map Start [CallAdd sampleCtx (sampleItem '''' ''a''), CallAdd sampleCtx (sampleItem '''' ''b'')],
      sampleWorld, fullMemory sampleEmbedder) n (gs, w, wm)
    \<and> gs = fst (schedule sampleEnv [0, 1, 0, 1, 0, 1] (map Start [CallAdd sampleCtx (sampleItem '''' ''a''),
        CallAdd sampleCtx (sampleItem '''' ''b'')], sampleWorld, fullMemory sampleEmbedder))
    \<and> length (filter evicting gs) \<le> length (items (wm_store wm))"
proof -
  let ?calls = "[CallAdd sampleCtx (sampleItem '''' ''a''), CallAdd sampleCtx (sampleItem '''' ''b'')]"
  let ?c = "(map Start ?calls, sampleWorld, fullMemory sampleEmbedder)"
  obtain n gs w wm where r: "runs sampleEnv ?c n (gs, w, wm)" "schedule sampleEnv [0, 1, 0, 1, 0, 1] ?c = (gs, w, wm)"
    using schedule_runs [OF runs_0, of sampleEnv ?c "[0, 1, 0, 1, 0, 1]"] by (metis prod_cases3)
  have "mwf (items (wm_store (fullMemory sampleEmbedder)))" "ids_below (wm_store (fullMemory sampleEmbedder))"
    using store_wfD(1) [OF sampleStore_wf] ids_below_full by simp_all
  from concurrent_adds_safe [OF r(1) this] have "length (filter evicting gs) \<le> length (items (wm_store wm))" by simp
  then show ?thesis using r by (intro exI [of _ n] exI [of _ gs] exI [of _ w] exI [of _ wm]) simp
qed


text \<open>
  Two races of \<^verbatim>\<open>update\<close>, whose vector is stored in a section of its own. Two updates of one
  item can both succeed and leave the content of the later with the vector of the earlier,
  so the item is found by a text it no longer has. And an update overtaken by a removal
  stores a vector for an item that is gone.
\<close>

theorem update_races:
  "(\<exists>ks w wm. schedule sampleEnv ks (map Start [CallUpdate sampleCtx ''k'' (writeContent ''a''),
        CallUpdate sampleCtx ''k'' (writeContent ''bcdef'')], sampleWorld, fullMemory sampleEmbedder)
      = ([Done (RetUnit (Inr ())), Done (RetUnit (Inr ()))], w, wm)
      \<and> map_option Content (mget (items (wm_store wm)) ''k'') = Some ''bcdef''
      \<and> mget (vectors (wm_store wm)) ''k'' = Some (Some [f_of_nat (length ''a''), Fin 1]))
   \<and> (\<exists>ks w wm. schedule sampleEnv ks (map Start [CallUpdate sampleCtx ''k'' (writeContent ''a''), CallRemove ''k''],
        sampleWorld, fullMemory sampleEmbedder) = ([Done (RetUnit (Inr ())), Done (RetUnit (Inr ()))], w, wm)
      \<and> items (wm_store wm) = [] \<and> mkeys (vectors (wm_store wm)) = {''k''})"
proof
  show "\<exists>ks w wm. schedule sampleEnv ks (map Start [CallUpdate sampleCtx ''k'' (writeContent ''a''),
        CallUpdate sampleCtx ''k'' (writeContent ''bcdef'')], sampleWorld, fullMemory sampleEmbedder)
      = ([Done (RetUnit (Inr ())), Done (RetUnit (Inr ()))], w, wm)
      \<and> map_option Content (mget (items (wm_store wm)) ''k'') = Some ''bcdef''
      \<and> mget (vectors (wm_store wm)) ''k'' = Some (Some [f_of_nat (length ''a''), Fin 1])"
    by (rule exI [of _ "[0, 0, 1, 1, 1, 0]"]) (simp add: run_simps)
  show "\<exists>ks w wm. schedule sampleEnv ks (map Start [CallUpdate sampleCtx ''k'' (writeContent ''a''), CallRemove ''k''],
        sampleWorld, fullMemory sampleEmbedder) = ([Done (RetUnit (Inr ())), Done (RetUnit (Inr ()))], w, wm)
      \<and> items (wm_store wm) = [] \<and> mkeys (vectors (wm_store wm)) = {''k''}"
    by (rule exI [of _ "[0, 0, 1, 0]"]) (simp add: run_simps)
qed

text \<open>
  Two additions to a memory at its capacity can choose the same item to evict: both succeed,
  one item is removed, and with no call under way the memory holds one item more than its
  capacity.
\<close>

theorem capacity_race:
  "\<exists>ks w wm. schedule sampleEnv ks (map Start [CallAdd sampleCtx (sampleItem ''x'' ''a''), CallAdd sampleCtx (sampleItem ''y'' ''b'')],
      sampleWorld, fullMemory flakyEmbedder) = ([Done (RetID (Inr ''x'')), Done (RetID (Inr ''y''))], w, wm)
    \<and> wo_Capacity (wm_opts wm) = 1 \<and> mkeys (items (wm_store wm)) = {''x'', ''y''}"
  by (rule exI [of _ "[0, 1, 0, 1, 0, 1, 0, 1, 0, 1]"]) (simp add: run_simps)

text \<open>
  An addition checks that the memory is over its capacity in one section and ranks a
  snapshot in another. When the items are removed in between, the snapshot is empty and
  \<^verbatim>\<open>scores[0]\<close> panics.
\<close>

theorem eviction_panic_race:
  "\<exists>ks w wm. schedule sampleEnv ks (map Start [CallAdd sampleCtx (sampleItem ''x'' ''a''), CallRemove ''k'', CallRemove ''x''],
      sampleWorld, fullMemory sampleEmbedder)
    = ([Done (Panic ''index out of range''), Done (RetUnit (Inr ())), Done (RetUnit (Inr ()))], w, wm)"
  by (rule exI [of _ "[0, 0, 0, 1, 2, 0, 0]"]) (simp add: run_simps)

text \<open>
  An update that writes into the metadata map of a stored item, while an addition ranks a
  snapshot that shares the map: the runtime aborts the program, and the addition never
  returns.
\<close>

definition writeMeta :: updater where
  "writeMeta it h = meta_put ''note'' (AString ''x'') it h"

definition taggedMemory :: WorkingMemory where
  "taggedMemory = (fullMemory sampleEmbedder)\<lparr>wm_store := (sampleStore sampleEmbedder)
     \<lparr>items := [(''k'', (sampleItem ''k'' ''old'')\<lparr>Metadata := Some 0\<rparr>)]\<rparr>\<rparr>"

theorem metadata_race:
  "\<exists>n g w wm. runs sampleEnv (map Start [CallAdd sampleCtx (sampleItem ''x'' ''a''), CallUpdate sampleCtx ''k'' writeMeta],
      sampleWorld\<lparr>heap := [Map.empty]\<rparr>, taggedMemory) n ([g, Done mapRace], w, wm) \<and> \<not> finished g"
proof -
  let ?u = "Start (CallUpdate sampleCtx ''k'' writeMeta)"
  let ?c = "(map Start [CallAdd sampleCtx (sampleItem ''x'' ''a''), CallUpdate sampleCtx ''k'' writeMeta],
      sampleWorld\<lparr>heap := [Map.empty]\<rparr>, taggedMemory)"
  have "\<exists>its vecs w wm. schedule sampleEnv [0, 0, 0, 0] ?c = ([RankLowest ''a'' qv its vecs ''x'', ?u], w, wm)
      \<and> Some 0 \<in> Metadata ` snd ` set its \<and> 0 \<in> writes_map w wm ?u" if "qv = Some [f_of_nat (length ''a''), Fin 1]" for qv
    using that by (simp add: run_simps taggedMemory_def writeMeta_def meta_put_def meta_at_def)
  from this [OF refl] obtain qv its vecs w wm where
    c: "schedule sampleEnv [0, 0, 0, 0] ?c = ([RankLowest ''a'' qv its vecs ''x'', ?u], w, wm)"
    and "Some 0 \<in> Metadata ` snd ` set its" and race: "0 \<in> writes_map w wm ?u" by blast
  then have reads: "0 \<in> reads_map (RankLowest ''a'' qv its vecs ''x'')" by simp
  obtain n where r: "runs sampleEnv ?c n ([RankLowest ''a'' qv its vecs ''x'', ?u], w, wm)"
    using schedule_runs [OF runs_0, of sampleEnv ?c "[0, 0, 0, 0]"] c by metis
  have "interleave sampleEnv ([RankLowest ''a'' qv its vecs ''x'', ?u], w, wm)
      ([RankLowest ''a'' qv its vecs ''x'', ?u][1 := Done mapRace], w, wm)"
    by (rule interleave.abort [of 1 _ 0]) (use race reads in \<open>simp_all add: crashed_def del: reads_map.simps writes_map.simps\<close>)
  from runs_Suc [OF r this] show ?thesis
    by (intro exI [of _ "Suc n"] exI [of _ "RankLowest ''a'' qv its vecs ''x''"] exI [of _ w] exI [of _ wm]) simp
qed

end
