(* ===== verification/Sessions.thy ===== *)
theory Sessions
  imports Scoped Goroutines
begin

text \<open>
  Clients of one manager in several goroutines. A call reaches the engine of its kind, which
  runs it in the locked sections of \<^verbatim>\<open>engine_scored_store.go\<close>; the methods of
  \<^verbatim>\<open>ScopedManager\<close> (\<^verbatim>\<open>scoped_manager_local.go\<close>) are two such calls with the check of the scope
  in between, and nothing locks the item from one to the other. A session is where such a
  client stands; a step of the system runs one section of any session, until one of them panics,
  which ends the program. (The runtime may also abort it when a metadata map is read and
  written at the same time; what is shown here of the states of a program holds up to then.)
\<close>


section \<open>Sections of the engines\<close>

text \<open>The sections of a store that has no capacity: those of the episodic and the semantic memory.\<close>

fun store_section :: "env \<Rightarrow> goroutine \<Rightarrow> 'z world_scheme \<Rightarrow> scoredStore \<Rightarrow> goroutine \<times> 'z world_scheme \<times> scoredStore" where
  "store_section E (Start (CallAdd c item)) w s = (case store_add E c item w s of
       (r, w, s) \<Rightarrow> (Done (RetID r), w, s))"
| "store_section E (Start (CallGet i)) w s = (case get_read i s of
       None \<Rightarrow> (Done (RetItem (Inl ErrNotFound)), w, s)
     | Some item \<Rightarrow> (Touch i item, w, s))"
| "store_section E (Touch i item) w s = (case get_touch E i item w s of
       (item, w, s) \<Rightarrow> (Done (RetItem (Inr item)), w, s))"
| "store_section E (Start (CallUpdate c i fn)) w s = (case update_item E i fn w s of
       (r, w, s) \<Rightarrow>
         (case r of
            Inl err \<Rightarrow> Done (RetUnit (Inl err))
          | Inr None \<Rightarrow> Done (RetUnit (Inr ()))
          | Inr (Some content) \<Rightarrow> Reembed c i content, w, s))"
| "store_section E (Reembed c i content) w s = (case queryEmbedding (embedder s) c content w of
       (Inl err, w) \<Rightarrow> (Done (RetUnit (Inl (ErrWrap ''memory: re-embed'' err))), w, s)
     | (Inr vec, w) \<Rightarrow> (SetVector i vec, w, s))"
| "store_section E (SetVector i vec) w s = (Done (RetUnit (Inr ())), w, update_vector i vec s)"
| "store_section E (Start (CallRemove i)) w s = (case store_remove i s of
       (r, s) \<Rightarrow> (Done (RetUnit r), w, s))"
| "store_section E g w s = (g, w, s)"

text \<open>What the manager answers to a call for a kind it does not know.\<close>

fun refused :: "call \<Rightarrow> error \<Rightarrow> outcome" where
  "refused (CallAdd c item) err = RetID (Inl err)"
| "refused (CallGet i) err = RetItem (Inl err)"
| "refused (CallUpdate c i fn) err = RetUnit (Inl err)"
| "refused (CallRemove i) err = RetUnit (Inl err)"
| "refused (CallImport snap mode) err = RetReport (zeroReport, Some err)"

text \<open>
  The next section of a call for a kind: the working memory with its eviction, the other two
  engines with the sections of the store and the import of their own.
\<close>

definition episodic_section :: "env \<Rightarrow> goroutine \<Rightarrow> sys \<Rightarrow> goroutine \<times> sys" where
  "episodic_section E g w = (case g of
       Start (CallImport snap mode) \<Rightarrow> (case Episodic_Import E snap mode (epi w) of
         (r, m) \<Rightarrow> (Done (RetReport r), w\<lparr>epi := m\<rparr>))
     | _ \<Rightarrow> (case store_section E g w (em_store (epi w)) of
         (g, w', s) \<Rightarrow> (g, w'\<lparr>epi := (epi w)\<lparr>em_store := s\<rparr>\<rparr>)))"

definition semantic_section :: "env \<Rightarrow> goroutine \<Rightarrow> sys \<Rightarrow> goroutine \<times> sys" where
  "semantic_section E g w = (case g of
       Start (CallImport snap mode) \<Rightarrow> (case Semantic_Import E snap mode (sem w) of
         (r, m) \<Rightarrow> (Done (RetReport r), w\<lparr>sem := m\<rparr>))
     | _ \<Rightarrow> (case store_section E g w (sm_store (sem w)) of
         (g, w', s) \<Rightarrow> (g, w'\<lparr>sem := (sem w)\<lparr>sm_store := s\<rparr>\<rparr>)))"

definition engine_section :: "env \<Rightarrow> Kind \<Rightarrow> goroutine \<Rightarrow> sys \<Rightarrow> goroutine \<times> sys" where
  "engine_section E k g w = (case k of
       KindWorking \<Rightarrow> (case advance E g w (wrk w) of (g, w, m) \<Rightarrow> (g, w\<lparr>wrk := m\<rparr>))
     | KindEpisodic \<Rightarrow> episodic_section E g w
     | KindSemantic \<Rightarrow> semantic_section E g w
     | KindOther _ \<Rightarrow> (case g of
         Start call \<Rightarrow> (Done (refused call (ErrWrapKind '''' k ErrUnknownKind)), w)
       | _ \<Rightarrow> (g, w)))"


section \<open>Sessions\<close>

text \<open>What a scoped call is going to do once the scope of the item has been checked.\<close>

datatype intent = ToGet | ToUpdate updater | ToRemove

fun denied :: "intent \<Rightarrow> error \<Rightarrow> outcome" where
  "denied ToGet err = RetItem (Inl err)"
| "denied _ err = RetUnit (Inl err)"

fun granted :: "intent \<Rightarrow> ctx \<Rightarrow> string \<Rightarrow> MemoryItem \<Rightarrow> goroutine" where
  "granted ToGet c i it = Done (RetItem (Inr it))"
| "granted (ToUpdate fn) c i it = Start (CallUpdate c i fn)"
| "granted ToRemove c i it = Start (CallRemove i)"

text \<open>
  \<open>Running\<close> is a call through the manager, \<open>Stamping\<close> a scoped addition before its stamp,
  \<open>Checking\<close> a scoped call during the read it begins with, and \<open>Acting\<close> one whose check has
  been made.
\<close>

datatype session =
    Running Kind goroutine
  | Stamping ctx Kind MemoryItem
  | Checking ctx Kind string intent goroutine
  | Acting ctx Kind goroutine

definition check_scope :: "env \<Rightarrow> ctx \<Rightarrow> string \<Rightarrow> intent \<Rightarrow> error + MemoryItem \<Rightarrow> sys \<Rightarrow> goroutine" where
  "check_scope E c i what r w = (case r of
       Inl err \<Rightarrow> Done (denied what err)
     | Inr it \<Rightarrow>
         if \<not> c_Scope_Matches E (ScopeFrom c) (readScope (heap w) it) then Done (denied what ErrNotFound)
         else granted what c i it)"

fun session_step :: "env \<Rightarrow> session \<Rightarrow> sys \<Rightarrow> session \<times> sys" where
  "session_step E (Running k g) w = map_prod (Running k) id (engine_section E k g w)"
| "session_step E (Stamping c k item) w = (case stampScope E (ScopeFrom c) item (heap w) of
       (item, h) \<Rightarrow> (Running k (Start (CallAdd c item)), w\<lparr>heap := h\<rparr>))"
| "session_step E (Checking c k i what (Done (RetItem r))) w = (Acting c k (check_scope E c i what r w), w)"
| "session_step E (Checking c k i what g) w = map_prod (Checking c k i what) id (engine_section E k g w)"
| "session_step E (Acting c k g) w = map_prod (Acting c k) id (engine_section E k g w)"

fun ended :: "session \<Rightarrow> bool" where
  "ended (Running k g) = finished g"
| "ended (Acting c k g) = finished g"
| "ended _ = False"

fun failed :: "session \<Rightarrow> bool" where
  "failed (Running k g) = panicked g"
| "failed (Acting c k g) = panicked g"
| "failed (Checking c k i what g) = panicked g"
| "failed (Stamping c k item) = False"

inductive weave :: "env \<Rightarrow> session list \<times> sys \<Rightarrow> session list \<times> sys \<Rightarrow> bool" for E where
  turn: "k < length ss \<Longrightarrow> \<not> ended (ss ! k) \<Longrightarrow> \<not> list_ex failed ss \<Longrightarrow> session_step E (ss ! k) w = (s, w') \<Longrightarrow>
    weave E (ss, w) (ss[k := s], w')"

inductive weaves :: "env \<Rightarrow> session list \<times> sys \<Rightarrow> session list \<times> sys \<Rightarrow> bool" for E c0 where
  weaves_refl: "weaves E c0 c0"
| weaves_step: "weaves E c0 c \<Longrightarrow> weave E c c' \<Longrightarrow> weaves E c0 c'"

lemma weaves_invariant:
  assumes "weaves E c0 c" and "I c0" and "\<And>c c'. I c \<Longrightarrow> weave E c c' \<Longrightarrow> I c'"
  shows "I c"
  using assms by (induction rule: weaves.induct) auto

text \<open>The sessions of a schedule, which names the session that runs next.\<close>

fun attend :: "env \<Rightarrow> nat list \<Rightarrow> session list \<times> sys \<Rightarrow> session list \<times> sys" where
  "attend E [] c = c"
| "attend E (k # ks) (ss, w) =
     (if k < length ss \<and> \<not> ended (ss ! k) \<and> \<not> list_ex failed ss
      then (case session_step E (ss ! k) w of (s, w) \<Rightarrow> attend E ks (ss[k := s], w))
      else attend E ks (ss, w))"

lemma attend_weaves: "weaves E c0 c \<Longrightarrow> weaves E c0 (attend E ks c)"
proof (induction E ks c rule: attend.induct)
  case (2 E k ks ss w)
  show ?case
  proof (cases "k < length ss \<and> \<not> ended (ss ! k) \<and> \<not> list_ex failed ss")
    case True
    obtain s w' where s: "session_step E (ss ! k) w = (s, w')" by fastforce
    have "weave E (ss, w) (ss[k := s], w')" using True s by (intro weave.turn) auto
    from weaves_step [OF "2.prems" this] show ?thesis using "2.IH"(1) [OF True s [symmetric]] True s by auto
  next
    case False
    then show ?thesis using "2.IH"(2) [OF False "2.prems"] by auto
  qed
qed simp


section \<open>A session that runs alone\<close>

fun lone :: "env \<Rightarrow> nat \<Rightarrow> session \<Rightarrow> sys \<Rightarrow> session \<times> sys" where
  "lone E 0 s w = (s, w)"
| "lone E (Suc n) s w = (if ended s then (s, w) else case session_step E s w of (s, w) \<Rightarrow> lone E n s w)"

fun engine_alone :: "env \<Rightarrow> nat \<Rightarrow> Kind \<Rightarrow> goroutine \<Rightarrow> sys \<Rightarrow> goroutine \<times> sys" where
  "engine_alone E 0 k g w = (g, w)"
| "engine_alone E (Suc n) k g w = (if finished g then (g, w) else case engine_section E k g w of (g, w) \<Rightarrow> engine_alone E n k g w)"

text \<open>The sections of the working memory do not look at the engines kept in the state.\<close>

lemma Working_score_wrk:
  "Working_score E opts q qv it iv (w\<lparr>wrk := x\<rparr>) = map_prod id (\<lambda>w. w\<lparr>wrk := x\<rparr>) (Working_score E opts q qv it iv w)"
  by (simp add: Working_score_def timeDecay_def time_Now_def Let_def)

lemma evict_scores_wrk:
  "evict_scores E opts q qv vecs xs (w\<lparr>wrk := x\<rparr>) = map_prod id (\<lambda>w. w\<lparr>wrk := x\<rparr>) (evict_scores E opts q qv vecs xs w)"
proof (induction xs arbitrary: w)
  case (Cons y xs)
  obtain i it where y: "y = (i, it)" by (cases y)
  show ?case by (simp add: y Working_score_wrk Cons Let_def split_beta)
qed simp

lemma rank_lowest_wrk:
  "rank_lowest E probe qv its vecs i (w\<lparr>wrk := x\<rparr>) wm = map_prod id (\<lambda>w. w\<lparr>wrk := x\<rparr>) (rank_lowest E probe qv its vecs i w wm)"
proof -
  have "w\<lparr>wrk := x, tick := t\<rparr> = w\<lparr>tick := t, wrk := x\<rparr>" for t by simp
  then have "evict_scores E opts q v vecs xs (w\<lparr>wrk := x, tick := t\<rparr>)
      = map_prod id (\<lambda>w. w\<lparr>wrk := x\<rparr>) (evict_scores E opts q v vecs xs (w\<lparr>tick := t\<rparr>))" for opts q v vecs xs t
    by (simp only: evict_scores_wrk)
  then show ?thesis by (simp add: rank_lowest_def go_range_def Let_def split_beta)
qed

lemma advance_wrk:
  "advance E g (w\<lparr>wrk := x\<rparr>) wm = (case advance E g w wm of (g, w, m) \<Rightarrow> (g, w\<lparr>wrk := x\<rparr>, m))" for w :: sys
proof (cases "(E, g, w, wm)" rule: advance.cases)
  case (1 E c item w wm)
  then show ?thesis
    by (auto simp: store_add_def assignID_def time_Now_def queryEmbedding_def Let_def split: sum.splits list.splits)
next
  case (6 E probe qv its vecs i w wm)
  then show ?thesis by (simp add: rank_lowest_wrk split_beta)
qed (auto simp: pick_oldest_def go_range_def time_Now_def queryEmbedding_def get_touch_def update_item_def Let_def split_beta
    split: sum.splits list.splits option.splits prod.splits)

lemma engine_alone_working:
  "engine_alone E n KindWorking g w = (case alone E n g w (wrk w) of (g, w, m) \<Rightarrow> (g, w\<lparr>wrk := m\<rparr>))"
proof (induction n arbitrary: g w)
  case (Suc n)
  obtain g1 w1 m1 where a: "advance E g w (wrk w) = (g1, w1, m1)" by (cases "advance E g w (wrk w)")
  have comm: "alone E n g (w\<lparr>wrk := x\<rparr>) m = (case alone E n g w m of (g, w, m) \<Rightarrow> (g, w\<lparr>wrk := x\<rparr>, m))" for g m x and w :: sys
    by (induction n arbitrary: g w m) (simp_all add: advance_wrk split_beta)
  show ?case
  proof (cases "finished g")
    case True
    then obtain r where "g = Done r" by (cases g) simp_all
    then show ?thesis by (simp del: alone.simps)
  next
    case False
    then show ?thesis using Suc [of g1 "w1\<lparr>wrk := m1\<rparr>"] comm [of g1 m1 w1 m1] a
      by (auto simp: engine_section_def split: prod.splits)
  qed
qed (simp add: split_beta)

lemma engine_alone_Done [simp]: "engine_alone E n k (Done r) w = (Done r, w)"
  by (cases n) simp_all

lemma engine_alone_fuel:
  assumes "engine_alone E m k g w = (Done r, w')" and "m \<le> n"
  shows "engine_alone E n k g w = (Done r, w')"
  using assms
proof (induction m arbitrary: g w n)
  case (Suc m)
  obtain n' where n: "n = Suc n'" "m \<le> n'" using Suc.prems(2) by (cases n) auto
  show ?case using Suc.IH [OF _ n(2)] Suc.prems(1) n(1) by (auto split: if_splits prod.splits)
qed simp

lemma lone_Running: "lone E n (Running k g) w = map_prod (Running k) id (engine_alone E n k g w)"
  by (induction n arbitrary: g w) (simp_all split: prod.splits)

lemma lone_Acting: "lone E n (Acting c k g) w = map_prod (Acting c k) id (engine_alone E n k g w)"
  by (induction n arbitrary: g w) (simp_all split: prod.splits)

text \<open>The sections of a call, run one after the other, are the operation of the manager.\<close>

lemma requireMemory_other [simp]:
  "requireMemory (engineManager E) (KindOther x) = Inl (ErrWrapKind '''' (KindOther x) ErrUnknownKind)"
  by (simp add: requireMemory_def tierFor_def)

lemmas section_simps = engine_section_def episodic_section_def semantic_section_def engine_ops eval_nat_numeral

lemma add_alone:
  "engine_alone E 6 k (Start (CallAdd c item)) w = map_prod (Done \<circ> RetID) id (Manager_Add (engineManager E) c k item w)"
proof (cases k)
  case KindWorking
  then show ?thesis
    by (auto simp: Manager_Add_def engine_alone_working call_alone workingMemory_def split: prod.splits)
qed (auto simp: Manager_Add_def section_simps split: prod.splits)

lemma get_alone:
  "engine_alone E 2 k (Start (CallGet i)) w = map_prod (Done \<circ> RetItem) id (Manager_Get (engineManager E) c k i w)"
  by (cases k) (auto simp: Manager_Get_def section_simps store_get_def split: prod.splits option.splits)

lemma queryEmbedding_engines:
  "queryEmbedding e c t (w\<lparr>wrk := x\<rparr>) = map_prod id (\<lambda>w. w\<lparr>wrk := x\<rparr>) (queryEmbedding e c t w)"
  "queryEmbedding e c t (w\<lparr>epi := y\<rparr>) = map_prod id (\<lambda>w. w\<lparr>epi := y\<rparr>) (queryEmbedding e c t w)"
  "queryEmbedding e c t (w\<lparr>sem := z\<rparr>) = map_prod id (\<lambda>w. w\<lparr>sem := z\<rparr>) (queryEmbedding e c t w)"
  by (simp_all add: queryEmbedding_def Let_def split: sum.splits list.splits)

lemma update_outcome_cases:
  obtains err where "r = Inl err" | "r = Inr None" | content where "r = Inr (Some content)"
  by (cases r) auto

lemma update_alone:
  "engine_alone E 3 k (Start (CallUpdate c i fn)) w = map_prod (Done \<circ> RetUnit) id (Manager_Update (engineManager E) c k i fn w)"
proof -
  note simps = Manager_Update_def section_simps store_update_def queryEmbedding_engines
  consider "k = KindWorking" | "k = KindEpisodic" | "k = KindSemantic" | x where "k = KindOther x" by (cases k) auto
  then show ?thesis
  proof cases
    case 1
    obtain r w1 s1 where u: "update_item E i fn w (wm_store (wrk w)) = (r, w1, s1)"
      by (cases "update_item E i fn w (wm_store (wrk w))")
    show ?thesis
      by (cases r rule: update_outcome_cases; cases "fst (queryEmbedding (embedder s1) c (the (projr r)) w1)")
        (simp_all add: simps 1 u split_beta)
  next
    case 2
    obtain r w1 s1 where u: "update_item E i fn w (em_store (epi w)) = (r, w1, s1)"
      by (cases "update_item E i fn w (em_store (epi w))")
    show ?thesis
      by (cases r rule: update_outcome_cases; cases "fst (queryEmbedding (embedder s1) c (the (projr r)) w1)")
        (simp_all add: simps 2 u split_beta)
  next
    case 3
    obtain r w1 s1 where u: "update_item E i fn w (sm_store (sem w)) = (r, w1, s1)"
      by (cases "update_item E i fn w (sm_store (sem w))")
    show ?thesis
      by (cases r rule: update_outcome_cases; cases "fst (queryEmbedding (embedder s1) c (the (projr r)) w1)")
        (simp_all add: simps 3 u split_beta)
  qed (simp add: simps)
qed

lemma remove_alone:
  "engine_alone E 1 k (Start (CallRemove i)) w = map_prod (Done \<circ> RetUnit) id (Manager_Remove (engineManager E) c k i w)"
  by (cases k) (auto simp: Manager_Remove_def section_simps split: prod.splits)


text \<open>The read a scoped call begins with takes one or two sections, and the check another step.\<close>

lemma lone_Checking: "\<not> finished g \<Longrightarrow> lone E (Suc n) (Checking c k i what g) w =
    (case engine_section E k g w of (g, w) \<Rightarrow> lone E n (Checking c k i what g) w)"
  by (cases g) (auto split: prod.splits)

lemma check_alone:
  obtains m where "6 \<le> m" and "lone E 9 (Checking c k i what (Start (CallGet i))) w =
    (case Manager_Get (engineManager E) c k i w of (r, w) \<Rightarrow> lone E m (Acting c k (check_scope E c i what r w)) w)"
proof -
  obtain r w' where get: "Manager_Get (engineManager E) c k i w = (r, w')" by (cases "Manager_Get (engineManager E) c k i w")
  obtain g1 w1 where s1: "engine_section E k (Start (CallGet i)) w = (g1, w1)"
    by (cases "engine_section E k (Start (CallGet i)) w")
  have two: "engine_alone E 1 k g1 w1 = (Done (RetItem r), w')"
    using get_alone [of E k i w c] get s1 by (simp add: eval_nat_numeral)
  have one: "lone E 9 (Checking c k i what (Start (CallGet i))) w = lone E 8 (Checking c k i what g1) w1"
    using lone_Checking [of "Start (CallGet i)" E 8 c k i what w] s1 by (simp add: eval_nat_numeral)
  show ?thesis
  proof (cases "finished g1")
    case True
    then have "g1 = Done (RetItem r)" "w1 = w'" using two by simp_all
    then have "lone E 8 (Checking c k i what g1) w1 = lone E 7 (Acting c k (check_scope E c i what r w')) w'"
      by (simp add: numeral_eq_Suc)
    then show ?thesis using one get that [of 7] by simp
  next
    case False
    then have s2: "engine_section E k g1 w1 = (Done (RetItem r), w')" using two by (auto split: prod.splits)
    have "lone E 8 (Checking c k i what g1) w1 = lone E 7 (Checking c k i what (Done (RetItem r))) w'"
      using lone_Checking [OF False, of E 7 c k i what w1] s2 by (simp add: eval_nat_numeral)
    also have "\<dots> = lone E 6 (Acting c k (check_scope E c i what r w')) w'" by (simp add: numeral_eq_Suc)
    finally show ?thesis using one get that [of 6] by simp
  qed
qed


text \<open>
  The sections are those of the scoped operations: a scoped call that runs alone returns
  after at most nine steps, with the result and the state of the operation of
  \<^verbatim>\<open>ScopedManager\<close> on the same state, for every kind, the unknown ones included.
\<close>

lemma session_alone:
  "lone E 9 (Stamping c k item) w = map_prod (Running k \<circ> Done \<circ> RetID) id (Scoped_Add E (engineScoped E) c k item w)
   \<and> lone E 9 (Checking c k i ToGet (Start (CallGet i))) w
       = map_prod (Acting c k \<circ> Done \<circ> RetItem) id (Scoped_Get E (engineScoped E) c k i w)
   \<and> lone E 9 (Checking c k i (ToUpdate fn) (Start (CallGet i))) w
       = map_prod (Acting c k \<circ> Done \<circ> RetUnit) id (Scoped_Update E (engineScoped E) c k i fn w)
   \<and> lone E 9 (Checking c k i ToRemove (Start (CallGet i))) w
       = map_prod (Acting c k \<circ> Done \<circ> RetUnit) id (Scoped_Remove E (engineScoped E) c k i w)"
proof (intro conjI)
  obtain item' h where st: "stampScope E (ScopeFrom c) item (heap w) = (item', h)"
    by (cases "stampScope E (ScopeFrom c) item (heap w)")
  obtain r w' where a: "Manager_Add (engineManager E) c k item' (w\<lparr>heap := h\<rparr>) = (r, w')"
    by (cases "Manager_Add (engineManager E) c k item' (w\<lparr>heap := h\<rparr>)")
  have "engine_alone E 8 k (Start (CallAdd c item')) (w\<lparr>heap := h\<rparr>) = (Done (RetID r), w')"
    by (rule engine_alone_fuel [of E 6]) (simp_all add: add_alone a)
  then have "lone E 8 (Running k (Start (CallAdd c item'))) (w\<lparr>heap := h\<rparr>) = (Running k (Done (RetID r)), w')"
    by (simp add: lone_Running)
  moreover have "lone E 9 (Stamping c k item) w = lone E 8 (Running k (Start (CallAdd c item'))) (w\<lparr>heap := h\<rparr>)"
    using st by (simp add: eval_nat_numeral)
  ultimately show "lone E 9 (Stamping c k item) w
      = map_prod (Running k \<circ> Done \<circ> RetID) id (Scoped_Add E (engineScoped E) c k item w)"
    using st a by (simp add: Scoped_Add_def)
next
  obtain m where m: "lone E 9 (Checking c k i ToGet (Start (CallGet i))) w =
      (case Manager_Get (engineManager E) c k i w of (r, w) \<Rightarrow> lone E m (Acting c k (check_scope E c i ToGet r w)) w)"
    by (rule check_alone)
  show "lone E 9 (Checking c k i ToGet (Start (CallGet i))) w
      = map_prod (Acting c k \<circ> Done \<circ> RetItem) id (Scoped_Get E (engineScoped E) c k i w)"
    unfolding m by (auto simp: Scoped_Get_def lone_Acting check_scope_def split: prod.splits sum.splits)
next
  obtain m where m: "6 \<le> m" "lone E 9 (Checking c k i (ToUpdate fn) (Start (CallGet i))) w =
      (case Manager_Get (engineManager E) c k i w of (r, w) \<Rightarrow> lone E m (Acting c k (check_scope E c i (ToUpdate fn) r w)) w)"
    by (rule check_alone)
  have "engine_alone E m k (Start (CallUpdate c i fn)) w = map_prod (Done \<circ> RetUnit) id (Manager_Update (engineManager E) c k i fn w)" for w
    using engine_alone_fuel [of E 3 k "Start (CallUpdate c i fn)" w _ _ m] m(1) update_alone [of E k c i fn w]
    by (auto simp: map_prod_def split_beta)
  then show "lone E 9 (Checking c k i (ToUpdate fn) (Start (CallGet i))) w
      = map_prod (Acting c k \<circ> Done \<circ> RetUnit) id (Scoped_Update E (engineScoped E) c k i fn w)"
    unfolding m(2) by (auto simp: Scoped_Update_def lone_Acting check_scope_def map_prod_def split: prod.splits sum.splits)
next
  obtain m where m: "6 \<le> m" "lone E 9 (Checking c k i ToRemove (Start (CallGet i))) w =
      (case Manager_Get (engineManager E) c k i w of (r, w) \<Rightarrow> lone E m (Acting c k (check_scope E c i ToRemove r w)) w)"
    by (rule check_alone)
  have "engine_alone E m k (Start (CallRemove i)) w = map_prod (Done \<circ> RetUnit) id (Manager_Remove (engineManager E) c k i w)" for w
    using engine_alone_fuel [of E 1 k "Start (CallRemove i)" w _ _ m] m(1) remove_alone [of E k i w c]
    by (auto simp: map_prod_def split_beta)
  then show "lone E 9 (Checking c k i ToRemove (Start (CallGet i))) w
      = map_prod (Acting c k \<circ> Done \<circ> RetUnit) id (Scoped_Remove E (engineScoped E) c k i w)"
    unfolding m(2) by (auto simp: Scoped_Remove_def lone_Acting check_scope_def map_prod_def split: prod.splits sum.splits)
qed


text \<open>
  A scoped removal checks the scope in one section and removes in another. When the item is
  removed in between and its identifier is used again under another scope, the removal takes
  away the item of the other scope: both removals and the addition succeed, nothing is left,
  though no scope of \<^verbatim>\<open>ann\<close> matches the one of \<^verbatim>\<open>bob\<close>.
\<close>

lemma scoped_remove_race:
  "\<exists>ks w. attend sampleEnv ks
      ([Checking annCtx KindWorking ''k'' ToRemove (Start (CallGet ''k'')),
        Checking annCtx KindWorking ''k'' ToRemove (Start (CallGet ''k'')),
        Stamping bobCtx KindWorking (sampleItem ''k'' ''note'')], sampleSys)
    = ([Acting annCtx KindWorking (Done (RetUnit (Inr ()))), Acting annCtx KindWorking (Done (RetUnit (Inr ()))),
        Running KindWorking (Done (RetID (Inr ''k'')))], w)
    \<and> items (wm_store (wrk w)) = [] \<and> \<not> c_Scope_Matches sampleEnv (ScopeFrom annCtx) (ScopeFrom bobCtx)"
  by (rule exI [of _ "[0, 0, 0, 1, 1, 1, 1, 2, 2, 2, 0]"])
    (simp add: engine_section_def check_scope_def run_simps sampleSys_def annCtx_def bobCtx_def sample_field_def
      stampScope_def meta_put_def zeroScope_def readScope_def meta_of_def meta_at_def scopeValue_def strAt_def)

end
