(* ===== verification/Isolation.thy ===== *)
theory Isolation
  imports Sessions
begin

text \<open>
  When the check of a scope still holds at the time of the act. A scoped call reads the item
  in one section and removes or updates it in a later one, and other sessions run in between.
  As long as the identifiers are those of the stores, an identifier that was once stored is
  never given to another item, and an item keeps the scope it was added with: then the item
  a scoped call acts on is one of its scope, in every interleaving.
\<close>


section \<open>What a section may do to scopes\<close>

text \<open>The identifiers a store will not generate any more.\<close>

definition known :: "string \<Rightarrow> scoredStore \<Rightarrow> bool" where
  "known i s \<longleftrightarrow> (\<forall>nano n. i = generatedID (prefix s) nano n \<longrightarrow> n \<le> seq s)"

text \<open>Every metadata reference of the store is in the heap, and every identifier is known.\<close>

definition sound :: "meta list \<Rightarrow> scoredStore \<Rightarrow> bool" where
  "sound h s \<longleftrightarrow> ids_below s \<and> (\<forall>i it. mget (items s) i = Some it \<longrightarrow> valid_ref h it)"

definition heap_calm :: "meta list \<Rightarrow> meta list \<Rightarrow> bool" where
  "heap_calm h h' \<longleftrightarrow> (\<forall>it. valid_ref h it \<longrightarrow> valid_ref h' it \<and> readScope h' it = readScope h it)"

text \<open>
  What one section guarantees to the sessions that are between two of theirs: an item under
  a known identifier was there before, with the scope it has now.
\<close>

definition calm :: "meta list \<Rightarrow> scoredStore \<Rightarrow> meta list \<Rightarrow> scoredStore \<Rightarrow> bool" where
  "calm h s h' s' \<longleftrightarrow> heap_calm h h' \<and> sound h' s' \<and> prefix s' = prefix s \<and> seq s \<le> seq s'
     \<and> (\<forall>i it'. known i s \<longrightarrow> mget (items s') i = Some it' \<longrightarrow>
          (\<exists>it. mget (items s) i = Some it \<and> readScope h' it' = readScope h it))"

text \<open>An updater that leaves the scope of its item and of all others as it is.\<close>

definition scope_keeping :: "updater \<Rightarrow> bool" where
  "scope_keeping fn \<longleftrightarrow> (\<forall>it h. valid_ref h it \<longrightarrow> valid_ref (snd (fn it h)) (fst (fn it h))
     \<and> readScope (snd (fn it h)) (fst (fn it h)) = readScope h it \<and> heap_calm h (snd (fn it h)))"

lemma heap_calm_refl [simp]: "heap_calm h h"
  by (simp add: heap_calm_def)

lemma heap_calmD: "heap_calm h h' \<Longrightarrow> valid_ref h it \<Longrightarrow> valid_ref h' it \<and> readScope h' it = readScope h it"
  by (simp add: heap_calm_def)

lemma ids_below_known: "ids_below s \<longleftrightarrow> (\<forall>i \<in> mkeys (items s). known i s)"
  by (simp add: ids_below_def known_def)

lemma stored_known: "sound h s \<Longrightarrow> mget (items s) i = Some it \<Longrightarrow> known i s"
  unfolding sound_def ids_below_known using mget_None_iff [of "items s" i] by fastforce

lemma known_mono: "known i s \<Longrightarrow> prefix s' = prefix s \<Longrightarrow> seq s \<le> seq s' \<Longrightarrow> known i s'"
  unfolding known_def by fastforce

lemma calm_same:
  assumes "sound h s" and "heap_calm h h'" and "items s' = items s" and "prefix s' = prefix s" and "seq s \<le> seq s'"
  shows "calm h s h' s'"
  using assms known_mono [OF _ assms(4,5)] unfolding calm_def sound_def ids_below_known by (auto simp: heap_calm_def)

lemma calm_put:
  assumes "sound h s" and "mget (items s) i = Some it" and "heap_calm h h'" and "valid_ref h' it'"
    and "readScope h' it' = readScope h it"
  shows "calm h s h' (s\<lparr>items := mput i it' (items s)\<rparr>)"
proof -
  have "i \<in> mkeys (items s)" using assms(2) mget_None_iff [of "items s" i] by fastforce
  then have "mkeys (mput i it' (items s)) = mkeys (items s)" by auto
  moreover have "known j (s\<lparr>items := m\<rparr>) = known j s" for j m by (simp add: known_def)
  ultimately show ?thesis using assms unfolding calm_def sound_def ids_below_known by (auto simp: heap_calm_def)
qed

lemma calm_remove:
  assumes "sound h s"
  shows "calm h s h (snd (store_remove i s)) \<and> seq (snd (store_remove i s)) = seq s"
proof (cases "mget (items s) i")
  case None
  then show ?thesis using calm_same [OF assms heap_calm_refl] by (simp add: store_remove_miss)
next
  case (Some it)
  have "ids_below (snd (store_remove i s))" using assms Some by (auto simp: store_remove_hit sound_def ids_below_def)
  then show ?thesis using assms Some by (auto simp: store_remove_hit calm_def sound_def)
qed

lemma calm_add:
  assumes "sound (heap w) s" and "ID item = ''''" and "valid_ref (heap w) item" and room: "seq_room (Suc m) s"
    and "store_add E c item w s = (r, w', s')"
  shows "calm (heap w) s (heap w') s' \<and> seq s' = seq s + 1"
proof -
  have seq: "seq s' = seq s + 1" using store_add_seq [OF assms(5,2)] seq_room_step [OF room] by simp
  show ?thesis
  proof (cases r)
    case (Inl e)
    then show ?thesis using store_add_Inl [OF assms(5) [unfolded Inl]] seq calm_same [OF assms(1), of "heap w" s'] by simp
  next
    case (Inr i)
    obtain now where i: "i = addedID E item w s" "items s' = mput i ((stampAdded now item)\<lparr>ID := i\<rparr>) (items s)"
        "prefix s' = prefix s" "heap w' = heap w"
      using store_add_Inr [OF assms(5) [unfolded Inr]] by blast
    have below: "ids_below s'"
      using store_add_fresh_step [OF _ assms(2) assms(5) [unfolded Inr] room] assms(1) by (simp add: sound_def)
    have "i = generatedID (prefix s) (time_UnixNano (now_at E (tick w))) (seq s + 1)"
      using i(1) addedID_generated [OF assms(2), of E w s] seq_room_step [OF room] by simp
    then have "\<not> known i s" unfolding known_def by (metis less_add_one not_le)
    moreover have "valid_ref (heap w) ((stampAdded now item)\<lparr>ID := i\<rparr>)" using assms(3) by (simp add: valid_ref_def)
    ultimately show ?thesis using assms(1) below i(2-4) seq by (auto simp: calm_def sound_def)
  qed
qed

lemma calm_update:
  assumes "sound (heap w) s" and "scope_keeping fn" and "update_item E i fn w s = (r, w', s')"
  shows "calm (heap w) s (heap w') s' \<and> seq s' = seq s"
proof (cases "mget (items s) i")
  case None
  then show ?thesis using assms calm_same [OF assms(1), of "heap w" s] by (simp add: update_item_def)
next
  case (Some it)
  then have v: "valid_ref (heap w) it" using assms(1) by (simp add: sound_def)
  note k = assms(2) [unfolded scope_keeping_def, rule_format, OF v]
  have meta: "valid_ref h (updatedItem E fn it w) = valid_ref h (fst (fn it (heap w)))"
    "readScope h (updatedItem E fn it w) = readScope h (fst (fn it (heap w)))" for h
    by (auto simp: updatedItem_def valid_ref_def Let_def meta_of_def intro!: readScope_cong)
  show ?thesis using assms(3) k meta calm_put [OF assms(1) Some, of "snd (fn it (heap w))"]
    by (auto simp: update_item_hit [OF Some])
qed

lemma calm_touch:
  assumes "sound (heap w) s" and "get_touch E i item w s = (item', w', s')"
  shows "calm (heap w) s (heap w') s' \<and> seq s' = seq s"
proof (cases "mget (items s) i")
  case None
  then show ?thesis using assms calm_same [OF assms(1), of "heap w" s] by (simp add: get_touch_def)
next
  case (Some it)
  have meta: "valid_ref h (it\<lparr>AccessedAt := t\<rparr>) = valid_ref h it" "readScope h (it\<lparr>AccessedAt := t\<rparr>) = readScope h it" for h t
    by (auto simp: valid_ref_def meta_of_def intro!: readScope_cong)
  show ?thesis using assms Some calm_put [OF assms(1) Some heap_calm_refl] meta
    by (auto simp: get_touch_def sound_def Let_def split_beta)
qed



section \<open>Sections and steps\<close>

text \<open>
  Calls that keep the scopes: additions leave the identifier to the store, updaters keep the
  scopes, and nothing is imported.
\<close>

fun polite :: "meta list \<Rightarrow> goroutine \<Rightarrow> bool" where
  "polite h (Start (CallAdd c item)) = (ID item = '''' \<and> valid_ref h item)"
| "polite h (Start (CallUpdate c i fn)) = scope_keeping fn"
| "polite h (Start (CallImport snap mode)) = False"
| "polite h _ = True"

lemma polite_calm: "polite h g \<Longrightarrow> heap_calm h h' \<Longrightarrow> polite h' g"
  by (cases "(h, g)" rule: polite.cases) (auto simp: heap_calm_def)

text \<open>The store after a section, and what is left to do.\<close>

definition calm_section :: "goroutine \<Rightarrow> meta list \<Rightarrow> scoredStore \<Rightarrow> goroutine \<Rightarrow> meta list \<Rightarrow> scoredStore \<Rightarrow> bool" where
  "calm_section g h s g' h' s' \<longleftrightarrow> calm h s h' s' \<and> seq s' = seq s + of_bool (adding g) \<and> polite h' g' \<and> \<not> adding g'"

lemma calm_section_same: "sound h s \<Longrightarrow> polite h g' \<Longrightarrow> \<not> adding g \<Longrightarrow> \<not> adding g' \<Longrightarrow> calm_section g h s g' h s"
  using calm_same [of h s h s] by (simp add: calm_section_def)

lemma calm_section_remove:
  "sound h s \<Longrightarrow> polite h g' \<Longrightarrow> \<not> adding g \<Longrightarrow> \<not> adding g' \<Longrightarrow> calm_section g h s g' h (snd (store_remove i s))"
  using calm_remove by (simp add: calm_section_def)

lemma calm_section_vector:
  "sound h s \<Longrightarrow> polite h g' \<Longrightarrow> \<not> adding g \<Longrightarrow> \<not> adding g' \<Longrightarrow> calm_section g h s g' h (update_vector i v s)"
  using calm_same [of h s h "update_vector i v s"] by (simp add: calm_section_def update_vector_def)

lemma queryEmbedding_heap: "queryEmbedding e c q w = (r, w') \<Longrightarrow> heap w' = heap w"
  by (metis queryEmbedding_world(1) snd_conv)

lemma store_section_calm:
  assumes "sound (heap w) s" and "polite (heap w) g" and room: "adding g \<Longrightarrow> seq_room (Suc m) s"
    and "store_section E g w s = (g', w', s')"
  shows "calm_section g (heap w) s g' (heap w') s'"
  using assms
proof (cases "(E, g, w, s)" rule: store_section.cases)
  case (1 E c item w s)
  then show ?thesis using assms(2,4) calm_add [OF assms(1), of item m] room
    by (auto simp: calm_section_def split: prod.splits)
next
  case (2 E i w s)
  then show ?thesis using assms(1,4) calm_section_same by (auto split: option.splits)
next
  case (3 E i item w s)
  obtain it w1 s1 where t: "get_touch E i item w s = (it, w1, s1)" by (cases "get_touch E i item w s")
  then show ?thesis using 3 assms(4) calm_touch [OF assms(1)] by (auto simp: calm_section_def)
next
  case (4 E c i fn w s)
  then show ?thesis using assms(2,4) calm_update [OF assms(1)]
    by (auto simp: calm_section_def split: prod.splits sum.splits option.splits)
next
  case (5 E c i content w s)
  then show ?thesis using assms(1,4) calm_section_same by (auto dest!: queryEmbedding_heap split: prod.splits sum.splits)
next
  case (6 E i vec w s)
  then show ?thesis using assms(1,4) calm_section_vector by auto
next
  case (7 E i w s)
  then show ?thesis using assms(4) calm_section_remove [OF assms(1), of _ _ i] by (auto split: prod.splits)
qed (use assms calm_section_same in auto)


lemma advance_calm:
  assumes "sound (heap w) (wm_store wm)" and "polite (heap w) g" and room: "adding g \<Longrightarrow> seq_room (Suc m) (wm_store wm)"
    and "advance E g w wm = (g', w', wm')"
  shows "calm_section g (heap w) (wm_store wm) g' (heap w') (wm_store wm')"
  using assms
proof (cases "(E, g, w, wm)" rule: advance.cases)
  case (1 E c item w wm)
  obtain r w1 s1 where a: "store_add E c item w (wm_store wm) = (r, w1, s1)" by (cases "store_add E c item w (wm_store wm)")
  then show ?thesis using 1 assms(2,4) calm_add [OF assms(1), of item m] room
    by (auto simp: calm_section_def after_add_def split: sum.splits)
next
  case (2 E c probe i w wm)
  then show ?thesis using assms calm_section_same by (auto simp: check_capacity_def split: if_splits)
next
  case (3 E c probe i w wm)
  then show ?thesis using assms(1,4) calm_section_same by (auto dest!: queryEmbedding_heap split: prod.splits sum.splits)
next
  case (4 E i w wm)
  then show ?thesis using assms(1,4) calm_section_same
    by (auto simp: pick_oldest_def time_Now_def go_range_def Let_def split_beta split: if_splits)
next
  case (5 E probe qv i w wm)
  then show ?thesis using assms(1,4) calm_section_same
    by (auto simp: pick_lowest_def split_beta)
next
  case (6 E probe qv its vecs i w wm)
  then show ?thesis using assms(1,4) calm_section_same
    by (auto simp: rank_lowest_def evict_scores_world go_range_def Let_def split_beta split: list.splits)
next
  case (7 E k i w wm)
  then show ?thesis using assms(4) calm_section_remove [OF assms(1)] by auto
next
  case (15 E r w wm)
  then show ?thesis using assms(1,4) calm_section_same by auto
next
  case (8 E i w wm)
  then show ?thesis using assms(1,4) calm_section_same by (auto split: option.splits)
next
  case (9 E i item w wm)
  obtain it w1 s1 where t: "get_touch E i item w (wm_store wm) = (it, w1, s1)" by (cases "get_touch E i item w (wm_store wm)")
  then show ?thesis using 9 assms(4) calm_touch [OF assms(1)] by (auto simp: calm_section_def)
next
  case (10 E c i fn w wm)
  then show ?thesis using assms(2,4) calm_update [OF assms(1)]
    by (auto simp: calm_section_def split: prod.splits sum.splits option.splits)
next
  case (11 E c i content w wm)
  then show ?thesis using assms(1,4) calm_section_same by (auto dest!: queryEmbedding_heap split: prod.splits sum.splits)
next
  case (12 E i vec w wm)
  then show ?thesis using assms(1,4) calm_section_vector by auto
next
  case (13 E i w wm)
  then show ?thesis using assms(4) calm_section_remove [OF assms(1), of _ _ i] by (auto split: prod.splits)
qed simp


text \<open>The sections touch the engine they are given and no other.\<close>

lemma store_section_engines:
  "store_section E g w s = (g', w', s') \<Longrightarrow> wrk w' = wrk w \<and> epi w' = epi w \<and> sem w' = sem w" for w :: sys
  by (cases "(E, g, w, s)" rule: store_section.cases)
    (auto simp: store_add_def assignID_def time_Now_def queryEmbedding_def get_touch_def update_item_def Let_def
      split: prod.splits sum.splits option.splits list.splits if_splits)

lemma evict_scores_engines:
  "wrk (snd (evict_scores E opts q qv vecs xs w)) = wrk w \<and> epi (snd (evict_scores E opts q qv vecs xs w)) = epi w
   \<and> sem (snd (evict_scores E opts q qv vecs xs w)) = sem w" for w :: sys
  by (induction xs arbitrary: w)
    (auto simp: Working_score_def timeDecay_def time_Now_def Let_def split_beta)

lemma advance_engines:
  fixes w :: sys
  assumes "advance E g w wm = (g', w', wm')"
  shows "epi w' = epi w \<and> sem w' = sem w"
  using assms
proof (cases "(E, g, w, wm)" rule: advance.cases)
  case (6 E probe qv its vecs i w wm)
  then show ?thesis using assms by (auto simp: rank_lowest_def evict_scores_engines go_range_def Let_def split_beta)
qed (auto simp: store_add_def assignID_def time_Now_def queryEmbedding_def get_touch_def update_item_def pick_oldest_def
      go_range_def Let_def split_beta
      split: prod.splits sum.splits option.splits list.splits if_splits)

text \<open>The store of a kind; the kinds no engine answers for never change one.\<close>

definition kind_store :: "Kind \<Rightarrow> sys \<Rightarrow> scoredStore" where
  "kind_store k w = (case k of
       KindWorking \<Rightarrow> wm_store (wrk w) | KindEpisodic \<Rightarrow> em_store (epi w) | _ \<Rightarrow> sm_store (sem w))"

lemma kind_store_heap: "kind_store k (w\<lparr>heap := h\<rparr>) = kind_store k w"
  by (cases k) (simp_all add: kind_store_def)

lemma kind_store_simps [simp]:
  "kind_store KindWorking w = wm_store (wrk w)" "kind_store KindEpisodic w = em_store (epi w)"
  "kind_store KindSemantic w = sm_store (sem w)"
  by (simp_all add: kind_store_def)

definition calm_step :: "nat \<Rightarrow> sys \<Rightarrow> sys \<Rightarrow> bool" where
  "calm_step n w w' \<longleftrightarrow> (\<forall>k. calm (heap w) (kind_store k w) (heap w') (kind_store k w')
     \<and> seq (kind_store k w') \<le> seq (kind_store k w) + int n)"

lemma calm_stepI:
  assumes "\<forall>k. sound (heap w) (kind_store k w)"
    and "calm (heap w) (kind_store k0 w) (heap w') (kind_store k0 w')"
    and "seq (kind_store k0 w') \<le> seq (kind_store k0 w) + int n"
    and "\<And>k. kind_store k w' = kind_store k w \<or> kind_store k w' = kind_store k0 w' \<and> kind_store k w = kind_store k0 w"
  shows "calm_step n w w'"
  unfolding calm_step_def
proof (intro allI)
  fix k
  have "heap_calm (heap w) (heap w')" using assms(2) by (simp add: calm_def)
  then have "kind_store k w' = kind_store k w \<longrightarrow> calm (heap w) (kind_store k w) (heap w') (kind_store k w')"
    using calm_same [OF assms(1) [rule_format, of k]] by simp
  then show "calm (heap w) (kind_store k w) (heap w') (kind_store k w') \<and> seq (kind_store k w') \<le> seq (kind_store k w) + int n"
    using assms(2-3) assms(4) [of k] by auto
qed

lemma engine_section_calm:
  assumes "\<forall>k. sound (heap w) (kind_store k w)" and "polite (heap w) g"
    and "adding g \<Longrightarrow> \<forall>k. seq_room (Suc m) (kind_store k w)" and "engine_section E k g w = (g', w')"
  shows "calm_step (of_bool (adding g)) w w' \<and> polite (heap w') g' \<and> \<not> adding g'"
proof -
  have sd: "sound (heap w) (kind_store k w)" for k using assms(1) by simp
  have calmI: "?thesis" if "calm_section g (heap w) (kind_store k w) g' (heap w') (kind_store k w')"
    and "\<And>j. kind_store j w' = kind_store j w \<or> kind_store j w' = kind_store k w' \<and> kind_store j w = kind_store k w"
    using that calm_stepI [OF assms(1), of k w'] by (auto simp: calm_section_def)
  have room: "adding g \<Longrightarrow> seq_room (Suc m) (kind_store k w)" using assms(3) by simp
  have noimp: "g \<noteq> Start (CallImport snap mode)" for snap mode using assms(2) by auto
  consider "k = KindWorking" | "k = KindEpisodic" | "k = KindSemantic" | x where "k = KindOther x" by (cases k) auto
  then show ?thesis
  proof cases
    case 1
    obtain w1 m1 where a: "advance E g w (wrk w) = (g', w1, m1)" "w' = w1\<lparr>wrk := m1\<rparr>"
      using assms(4) 1 by (auto simp: engine_section_def split: prod.splits)
    have "calm_section g (heap w) (wm_store (wrk w)) g' (heap w1) (wm_store m1)"
      by (rule advance_calm [OF _ assms(2) _ a(1), of m]) (use sd [of k] room 1 in simp_all)
    then show ?thesis using advance_engines [OF a(1)] a(2) 1 by (intro calmI) (auto simp: kind_store_def split: Kind.splits)
  next
    case 2
    have "episodic_section E g w = (case store_section E g w (em_store (epi w)) of (g, w', s) \<Rightarrow> (g, w'\<lparr>epi := (epi w)\<lparr>em_store := s\<rparr>\<rparr>))"
      using noimp by (auto simp: episodic_section_def split: goroutine.splits call.splits)
    then obtain w1 s1 where a: "store_section E g w (em_store (epi w)) = (g', w1, s1)" "w' = w1\<lparr>epi := (epi w)\<lparr>em_store := s1\<rparr>\<rparr>"
      using assms(4) 2 by (auto simp: engine_section_def split: prod.splits)
    have "calm_section g (heap w) (em_store (epi w)) g' (heap w1) s1"
      by (rule store_section_calm [OF _ assms(2) _ a(1), of m]) (use sd [of k] room 2 in simp_all)
    then show ?thesis using store_section_engines [OF a(1)] a(2) 2 by (intro calmI) (auto simp: kind_store_def split: Kind.splits)
  next
    case 3
    have "semantic_section E g w = (case store_section E g w (sm_store (sem w)) of (g, w', s) \<Rightarrow> (g, w'\<lparr>sem := (sem w)\<lparr>sm_store := s\<rparr>\<rparr>))"
      using noimp by (auto simp: semantic_section_def split: goroutine.splits call.splits)
    then obtain w1 s1 where a: "store_section E g w (sm_store (sem w)) = (g', w1, s1)" "w' = w1\<lparr>sem := (sem w)\<lparr>sm_store := s1\<rparr>\<rparr>"
      using assms(4) 3 by (auto simp: engine_section_def split: prod.splits)
    have "calm_section g (heap w) (sm_store (sem w)) g' (heap w1) s1"
      by (rule store_section_calm [OF _ assms(2) _ a(1), of m]) (use sd [of k] room 3 in simp_all)
    then show ?thesis using store_section_engines [OF a(1)] a(2) 3 by (intro calmI) (auto simp: kind_store_def split: Kind.splits)
  next
    case (4 x)
    then have "w' = w" "polite (heap w) g' \<and> \<not> adding g'"
      using assms(2,4) by (auto simp: engine_section_def split: goroutine.splits)
    moreover have "calm_step n w w" for n using calm_same [OF sd] by (simp add: calm_step_def)
    ultimately show ?thesis by simp
  qed
qed



section \<open>Sessions between two sections\<close>

text \<open>What a session knows of the item it has read: whatever is stored there has its scope.\<close>

definition tied :: "Kind \<Rightarrow> string \<Rightarrow> MemoryItem \<Rightarrow> sys \<Rightarrow> bool" where
  "tied k i item w \<longleftrightarrow> known i (kind_store k w) \<and> valid_ref (heap w) item
     \<and> (\<forall>it. mget (items (kind_store k w)) i = Some it \<longrightarrow> readScope (heap w) it = readScope (heap w) item)"

lemma tied_calm:
  assumes "tied k i item w" and "calm_step n w w'"
  shows "tied k i item w' \<and> readScope (heap w') item = readScope (heap w) item"
proof -
  have c: "heap_calm (heap w) (heap w')" "prefix (kind_store k w') = prefix (kind_store k w)"
      "seq (kind_store k w) \<le> seq (kind_store k w')"
    and old: "\<And>it'. mget (items (kind_store k w')) i = Some it' \<Longrightarrow>
      \<exists>it. mget (items (kind_store k w)) i = Some it \<and> readScope (heap w') it' = readScope (heap w) it"
    using assms by (auto simp: calm_step_def calm_def tied_def)
  have t: "known i (kind_store k w)" "valid_ref (heap w) item"
      "\<And>it. mget (items (kind_store k w)) i = Some it \<Longrightarrow> readScope (heap w) it = readScope (heap w) item"
    using assms(1) by (auto simp: tied_def)
  note item = heap_calmD [OF c(1) t(2)]
  moreover have "readScope (heap w') it' = readScope (heap w') item" if "mget (items (kind_store k w')) i = Some it'" for it'
    using old [OF that] t(3) item by auto
  ultimately show ?thesis using known_mono [OF t(1) c(2,3)] by (simp add: tied_def)
qed

lemma tied_stored: "sound (heap w) (kind_store k w) \<Longrightarrow> mget (items (kind_store k w)) i = Some item \<Longrightarrow> tied k i item w"
  using stored_known by (auto simp: tied_def sound_def)

text \<open>The sections a scoped call runs after its check.\<close>

fun acting :: "goroutine \<Rightarrow> bool" where
  "acting (Start (CallUpdate c i fn)) = True"
| "acting (Start (CallRemove i)) = True"
| "acting (Reembed c i content) = True"
| "acting (SetVector i v) = True"
| "acting (Done r) = True"
| "acting _ = False"

text \<open>The item a scoped call is about to change.\<close>

fun aim :: "goroutine \<Rightarrow> string option" where
  "aim (Start (CallUpdate c i fn)) = Some i"
| "aim (Start (CallRemove i)) = Some i"
| "aim _ = None"

fun intent_ok :: "intent \<Rightarrow> bool" where
  "intent_ok (ToUpdate fn) = scope_keeping fn"
| "intent_ok _ = True"

text \<open>How a session stands to the state.\<close>

fun standing :: "env \<Rightarrow> sys \<Rightarrow> session \<Rightarrow> bool" where
  "standing E w (Running k g) \<longleftrightarrow> polite (heap w) g"
| "standing E w (Stamping c k item) \<longleftrightarrow> ID item = '''' \<and> Metadata item = None"
| "standing E w (Checking c k i what g) \<longleftrightarrow> intent_ok what
     \<and> (g = Start (CallGet i) \<or> (\<exists>item. g = Touch i item \<and> tied k i item w)
        \<or> (\<exists>r. g = Done (RetItem r) \<and> (\<forall>item. r = Inr item \<longrightarrow> tied k i item w)))"
| "standing E w (Acting c k g) \<longleftrightarrow> polite (heap w) g \<and> acting g
     \<and> (\<forall>i. aim g = Some i \<longrightarrow> (\<exists>item. tied k i item w \<and> c_Scope_Matches E (ScopeFrom c) (readScope (heap w) item)))
     \<and> (\<forall>item. g = Done (RetItem (Inr item)) \<longrightarrow>
          valid_ref (heap w) item \<and> c_Scope_Matches E (ScopeFrom c) (readScope (heap w) item))"

lemma standing_calm:
  assumes "standing E w s" and "calm_step n w w'"
  shows "standing E w' s"
proof -
  have h: "heap_calm (heap w) (heap w')" using assms(2) by (simp add: calm_step_def calm_def)
  note t = tied_calm [OF _ assms(2)]
  show ?thesis
  proof (cases s)
    case (Acting c k g)
    have "\<exists>item. tied k i item w' \<and> c_Scope_Matches E (ScopeFrom c) (readScope (heap w') item)" if "aim g = Some i" for i
      using assms(1) Acting that t [of k i] by fastforce
    moreover have "valid_ref (heap w') item \<and> c_Scope_Matches E (ScopeFrom c) (readScope (heap w') item)"
      if "g = Done (RetItem (Inr item))" for item
      using assms(1) Acting that heap_calmD [OF h, of item] by auto
    ultimately show ?thesis using assms(1) Acting polite_calm [OF _ h] by auto
  next
    case (Checking c k i what g)
    then show ?thesis using assms(1) t [of k i] by auto
  qed (use assms(1) polite_calm [OF _ h] in auto)
qed

lemma get_section:
  assumes "engine_section E k (Start (CallGet i)) w = (g', w')"
  shows "w' = w \<and> ((\<exists>err. g' = Done (RetItem (Inl err)))
    \<or> (\<exists>item. g' = Touch i item \<and> mget (items (kind_store k w)) i = Some item))"
  using assms
  by (cases k) (auto simp: engine_section_def episodic_section_def semantic_section_def get_read_def split: option.splits)

lemma touch_section:
  assumes "engine_section E k (Touch i item) w = (g', w')"
  shows "(g' = Touch i item \<and> w' = w) \<or> (\<exists>item'. g' = Done (RetItem (Inr item')) \<and> heap w' = heap w
    \<and> (item' = item \<or> (\<exists>it t. mget (items (kind_store k w)) i = Some it \<and> item' = it\<lparr>AccessedAt := t\<rparr>)))"
  using assms
  by (cases k) (auto simp: engine_section_def episodic_section_def semantic_section_def get_touch_def time_Now_def Let_def
      split: option.splits)

lemma acting_section:
  assumes "engine_section E k g w = (g', w')" and "acting g" and "\<not> finished g"
  shows "(acting g' \<and> aim g' = None \<and> (\<forall>r. g' \<noteq> Done (RetItem r))) \<or> g' = g \<and> w' = w"
  using assms
  by (cases k; cases g rule: acting.cases)
    (auto simp: engine_section_def episodic_section_def semantic_section_def split: prod.splits sum.splits option.splits)


text \<open>A session whose addition has not begun.\<close>

fun unborn :: "session \<Rightarrow> bool" where
  "unborn (Running k g) = adding g"
| "unborn (Stamping c k item) = True"
| "unborn _ = False"

lemma stamp_calm:
  assumes "Metadata item = None" and "stampScope E sc item (heap w) = (item', h')"
    and "\<forall>k. sound (heap w) (kind_store k w)"
  shows "calm_step 0 w (w\<lparr>heap := h'\<rparr>) \<and> valid_ref h' item' \<and> ID item' = ID item"
proof -
  have "meta_of h' jt = meta_of (heap w) jt" if "valid_ref (heap w) jt" for jt
    by (rule stampScope_other [OF that assms(2)]) (unfold assms(1), blast)
  moreover have "valid_ref h' jt" if "valid_ref (heap w) jt" for jt
    using assms(2) meta_put_valid [OF that] that by (auto simp: stampScope_def split: if_splits)
  ultimately have "valid_ref h' jt \<and> readScope h' jt = readScope (heap w) jt" if "valid_ref (heap w) jt" for jt
    using that by (intro conjI readScope_cong) blast+
  then have "heap_calm (heap w) h'" unfolding heap_calm_def by blast
  then have "calm_step 0 w (w\<lparr>heap := h'\<rparr>)" using calm_same assms(3) by (simp add: calm_step_def kind_store_heap)
  moreover have "valid_ref h' item'"
    using assms(1,2) by (auto simp: stampScope_def meta_put_def valid_ref_def split: if_splits)
  ultimately show ?thesis using stampScope_fields(1) [of E sc item "heap w"] assms(2) by simp
qed

lemma check_standing:
  assumes "intent_ok what" and "\<And>item. r = Inr item \<Longrightarrow> tied k i item w"
  shows "standing E w (Acting c k (check_scope E c i what r w))"
proof (cases r)
  case (Inl err)
  then show ?thesis by (cases what) (simp_all add: check_scope_def)
next
  case (Inr item)
  then have "tied k i item w" using assms(2) by simp
  then show ?thesis using assms(1) Inr by (cases what) (auto simp: check_scope_def tied_def)
qed

lemma checking_standing:
  assumes sd: "\<forall>k. sound (heap w) (kind_store k w)" and "standing E w (Checking c k i what g)" and "\<not> finished g"
    and sec: "engine_section E k g w = (g', w')" and calm: "calm_step 0 w w'"
  shows "standing E w' (Checking c k i what g')"
proof -
  have ok: "intent_ok what" using assms(2) by simp
  from assms(2,3) consider "g = Start (CallGet i)" | item where "g = Touch i item" "tied k i item w" by auto
  then show ?thesis
  proof cases
    case 1
    then show ?thesis using get_section [of E k i w g' w'] sec ok tied_stored [OF sd [rule_format, of k], of i] by auto
  next
    case (2 item)
    have t': "tied k i item w'" using tied_calm [OF 2(2) calm] by simp
    have "tied k i item' w'"
      if "heap w' = heap w" "mget (items (kind_store k w)) i = Some it" "item' = it\<lparr>AccessedAt := t\<rparr>" for item' it t
    proof -
      have "readScope (heap w) it = readScope (heap w) item" using 2(2) that(2) by (simp add: tied_def)
      moreover have "valid_ref (heap w) it" using sd that(2) by (simp add: sound_def)
      moreover have "readScope (heap w) item' = readScope (heap w) it"
        using that(3) by (intro readScope_cong) (simp add: meta_of_def)
      moreover have "valid_ref (heap w) item' = valid_ref (heap w) it" using that(3) by (simp add: valid_ref_def)
      ultimately show ?thesis using t' that(1) by (simp add: tied_def)
    qed
    then show ?thesis using touch_section [of E k i item w g' w'] sec 2 ok t' by auto
  qed
qed

lemma session_step_calm:
  assumes sd: "\<forall>k. sound (heap w) (kind_store k w)" and "standing E w s" and "\<not> ended s"
    and room: "unborn s \<Longrightarrow> \<forall>k. seq_room (Suc m) (kind_store k w)" and "session_step E s w = (s', w')"
  shows "calm_step (of_bool (unborn s) - of_bool (unborn s')) w w' \<and> standing E w' s' \<and> (unborn s' \<longrightarrow> unborn s)"
proof (cases s)
  case (Running k g)
  then obtain g' where g': "engine_section E k g w = (g', w')" "s' = Running k g'"
    using assms(5) by (auto simp: map_prod_def split: prod.splits)
  show ?thesis using engine_section_calm [OF sd _ _ g'(1), of m] assms(2) room Running g'(2) by auto
next
  case (Stamping c k item)
  obtain item' h' where st: "stampScope E (ScopeFrom c) item (heap w) = (item', h')"
    by (cases "stampScope E (ScopeFrom c) item (heap w)")
  then show ?thesis using stamp_calm [OF _ st sd] assms(2,5) Stamping by auto
next
  case (Checking c k i what g)
  show ?thesis
  proof (cases "finished g")
    case True
    then obtain r where r: "g = Done (RetItem r)" "\<And>item. r = Inr item \<Longrightarrow> tied k i item w" "intent_ok what"
      using assms(2) Checking by auto
    then have "s' = Acting c k (check_scope E c i what r w)" "w' = w" using assms(5) Checking by auto
    moreover have "calm_step 0 w w" using calm_same [of "heap w" "kind_store k w" for k] sd by (simp add: calm_step_def)
    ultimately show ?thesis using check_standing [OF r(3,2)] Checking by simp
  next
    case False
    then obtain g' where g': "engine_section E k g w = (g', w')" "s' = Checking c k i what g'"
      using assms(5) Checking by (cases g) (auto simp: map_prod_def split: prod.splits)
    have "polite (heap w) g" "\<not> adding g" using assms(2) Checking by auto
    then have "calm_step 0 w w'" using engine_section_calm [OF sd _ _ g'(1), of m] by simp
    then show ?thesis using checking_standing [OF sd _ False g'(1)] assms(2) Checking g'(2) by simp
  qed
next
  case (Acting c k g)
  then obtain g' where g': "engine_section E k g w = (g', w')" "s' = Acting c k g'"
    using assms(5) by (auto simp: map_prod_def split: prod.splits)
  have g: "polite (heap w) g" "\<not> adding g" "acting g" "\<not> finished g"
    using assms(2,3) Acting by (auto elim: acting.elims)
  then have c: "calm_step 0 w w'" "polite (heap w') g'" using engine_section_calm [OF sd _ _ g'(1), of m] by simp_all
  from acting_section [OF g'(1) g(3,4)] have "standing E w' s'"
    using c(2) g'(2) assms(2) Acting by auto
  then show ?thesis using c(1) Acting g'(2) by simp
qed

definition woven :: "env \<Rightarrow> session list \<times> sys \<Rightarrow> bool" where
  "woven E c \<longleftrightarrow> (case c of (ss, w) \<Rightarrow> (\<forall>k. sound (heap w) (kind_store k w)
     \<and> seq_room (length (filter unborn ss)) (kind_store k w)) \<and> (\<forall>s \<in> set ss. standing E w s))"

lemma woven_step: "woven E c \<Longrightarrow> weave E c c' \<Longrightarrow> woven E c'"
proof -
  assume ok: "woven E c" and "weave E c c'"
  from this(2) show ?thesis
  proof cases
    case (turn j ss w s w')
    have sd: "\<forall>k. sound (heap w) (kind_store k w)" and room: "\<And>k. seq_room (length (filter unborn ss)) (kind_store k w)"
      and st: "\<And>s. s \<in> set ss \<Longrightarrow> standing E w s"
      using ok turn(1) by (simp_all add: woven_def)
    have "\<forall>k. seq_room (Suc (length (filter unborn ss) - 1)) (kind_store k w)" if "unborn (ss ! j)"
    proof -
      have "ss ! j \<in> set (filter unborn ss)" using that turn(3) by simp
      then have "0 < length (filter unborn ss)" by (rule length_pos_if_in_set)
      then show ?thesis using room by simp
    qed
    note step = session_step_calm [OF sd st [OF nth_mem [OF turn(3)]] turn(4) this turn(6)]
    let ?n = "of_bool (unborn (ss ! j)) - of_bool (unborn s) :: nat"
    have calm: "calm_step ?n w w'" using step by (rule conjunct1)
    then have c: "\<And>k. calm (heap w) (kind_store k w) (heap w') (kind_store k w')"
        "\<And>k. seq (kind_store k w') \<le> seq (kind_store k w) + int ?n"
      unfolding calm_step_def by blast+
    have len: "length (filter unborn (ss[j := s])) + ?n = length (filter unborn ss)"
      using filter_update_length [OF turn(3), of unborn s] step by (auto split: if_splits)
    have "seq_room (length (filter unborn (ss[j := s]))) (kind_store k w')" for k
      using room [of k] c(2) [of k] c(1) [of k] len unfolding seq_room_def calm_def by linarith
    moreover have "standing E w' x" if "x \<in> set (ss[j := s])" for x
      using that set_update_subset_insert [of ss j s] step standing_calm [OF st calm] by auto
    moreover have "sound (heap w') (kind_store k w')" for k using c(1) [of k] by (simp add: calm_def)
    ultimately show ?thesis using turn(2) by (simp add: woven_def)
  qed
qed



section \<open>Properties\<close>

text \<open>
  The sessions clients begin with: calls through the manager, scoped additions of items that
  bring neither an identifier nor a metadata map of their own, and scoped reads, updates and
  removals.
\<close>

fun client :: "meta list \<Rightarrow> session \<Rightarrow> bool" where
  "client h (Running k (Start call)) = polite h (Start call)"
| "client h (Stamping c k item) = (ID item = '''' \<and> Metadata item = None)"
| "client h (Checking c k i what g) = (g = Start (CallGet i) \<and> intent_ok what)"
| "client h _ = False"

text \<open>
  C15. The check of a scope holds when the call acts: clients run calls through the manager and
  scoped calls in any number of goroutines, additions leave their identifiers to the stores,
  scoped additions bring no metadata map of their own, updaters keep the identifiers and the
  scopes, and nothing is imported. Then in every interleaving, when a
  scoped call is about to remove or update an item, whatever is stored under that identifier
  at that moment matches the scope of the call, and so does every item a scoped read has
  returned, until the end.
\<close>

theorem scoped_isolation_concurrent:
  assumes "weaves E (ss0, w0) (ss, w)" and "\<forall>s \<in> set ss0. client (heap w0) s"
    and "\<forall>k. sound (heap w0) (kind_store k w0) \<and> seq_room (length ss0) (kind_store k w0)"
    and "Acting c k g \<in> set ss"
  shows "(g = Start (CallRemove i) \<or> g = Start (CallUpdate c' i fn) \<longrightarrow>
      (\<forall>it. tier_view k w i = Some it \<longrightarrow> c_Scope_Matches E (ScopeFrom c) (readScope (heap w) it)))
    \<and> (\<forall>it. g = Done (RetItem (Inr it)) \<longrightarrow> c_Scope_Matches E (ScopeFrom c) (readScope (heap w) it))"
proof -
  have "standing E w0 s" if "s \<in> set ss0" for s
    using assms(2) that by (cases "(heap w0, s)" rule: client.cases) auto
  moreover have "seq_room (length (filter unborn ss0)) (kind_store k w0)" for k
    using assms(3) [rule_format, of k] length_filter_le [of unborn ss0] unfolding seq_room_def by linarith
  ultimately have "woven E (ss0, w0)" using assms(3) by (simp add: woven_def)
  then have "woven E (ss, w)" by (rule weaves_invariant [OF assms(1), of "woven E"]) (rule woven_step)
  then have st: "standing E w (Acting c k g)" using assms(4) unfolding woven_def by blast
  have view: "mget (items (kind_store k w)) i = Some it" if "tier_view k w i = Some it" for it
    using that by (cases k) (simp_all add: working_view_def episodic_view_def semantic_view_def)
  have "c_Scope_Matches E (ScopeFrom c) (readScope (heap w) it)"
    if "g = Start (CallRemove i) \<or> g = Start (CallUpdate c' i fn)" "tier_view k w i = Some it" for it
  proof -
    have "aim g = Some i" using that(1) by auto
    then obtain item where "tied k i item w" "c_Scope_Matches E (ScopeFrom c) (readScope (heap w) item)" using st by auto
    then show ?thesis using view [OF that(2)] by (auto simp: tied_def)
  qed
  then show ?thesis using st by auto
qed

theorem scoped_isolation_concurrent_witness:
  "\<exists>ss w. weaves sampleEnv ([Checking annCtx KindWorking ''k'' ToRemove (Start (CallGet ''k'')),
        Stamping bobCtx KindWorking (sampleItem '''' ''note'')], sampleSys) (ss, w)
    \<and> ss ! 0 = Acting annCtx KindWorking (Start (CallRemove ''k''))
    \<and> map_option (\<lambda>it. User (readScope (heap w) it)) (tier_view KindWorking w ''k'') = Some ''ann''"
proof -
  let ?ss = "[Checking annCtx KindWorking ''k'' ToRemove (Start (CallGet ''k'')), Stamping bobCtx KindWorking (sampleItem '''' ''note'')]"
  obtain ss w where a: "attend sampleEnv [0, 1, 0, 1, 0] (?ss, sampleSys) = (ss, w)" by fastforce
  have run: "weaves sampleEnv (?ss, sampleSys) (ss, w)" using attend_weaves [OF weaves_refl] a by metis
  have ss: "ss ! 0 = Acting annCtx KindWorking (Start (CallRemove ''k''))" "ss \<noteq> []"
    and stored: "tier_view KindWorking w ''k'' \<noteq> None"
    using a by (auto simp: engine_section_def check_scope_def run_simps sampleSys_def annCtx_def bobCtx_def sample_field_def
      stampScope_def meta_put_def zeroScope_def readScope_def meta_of_def meta_at_def scopeValue_def strAt_def working_view_def
      generatedID_def)
  have "sound (heap sampleSys) (kind_store k sampleSys) \<and> seq_room (length ?ss) (kind_store k sampleSys)" for k
    by (cases k) (simp_all add: kind_store_def sampleSys_def sound_def ids_below_def seq_room_def valid_ref_def generatedID_def)
  moreover have "Acting annCtx KindWorking (Start (CallRemove ''k'')) \<in> set ss"
    using ss by (metis length_greater_0_conv nth_mem)
  moreover have "\<forall>s \<in> set ?ss. client (heap sampleSys) s" by simp
  ultimately have "c_Scope_Matches sampleEnv (ScopeFrom annCtx) (readScope (heap w) it)"
    if "tier_view KindWorking w ''k'' = Some it" for it
    using that scoped_isolation_concurrent [OF run, of annCtx KindWorking "Start (CallRemove ''k'')" "''k''"] by blast
  then have "User (readScope (heap w) it) = ''ann''" if "tier_view KindWorking w ''k'' = Some it" for it
    using that by (fastforce simp: annCtx_def sample_field_def)
  then have "map_option (\<lambda>it. User (readScope (heap w) it)) (tier_view KindWorking w ''k'') = Some ''ann''"
    using stored by auto
  with run ss(1) show ?thesis by blast
qed

end
