(* ===== verification/SQLiteStore.thy ===== *)
theory SQLiteStore
  imports Engines
begin

text \<open>
  \<^verbatim>\<open>sqlite_store.go\<close>: snapshots in a table of an SQL database. The database handle of
  \<^verbatim>\<open>database/sql\<close> with its SQLite driver, the JSON codec of a snapshot and the format of
  a time are not part of the repository: they are the fields of the record \<open>sqlDB\<close>, an
  argument of the operations, which pass it the statements of the source (up to their white
  space, which SQL ignores). A query is one
  field together with the scan of its rows.
\<close>


section \<open>The database handle\<close>

datatype sqlval = SInt int | SText string | SBlob string

record 's sqlDB =
  sql_Open :: "string \<Rightarrow> 's \<Rightarrow> error option \<times> 's"
  db_SetMaxOpenConns :: "int \<Rightarrow> 's \<Rightarrow> 's"
  db_Close :: "'s \<Rightarrow> error option \<times> 's"
  db_BeginTx :: "ctx \<Rightarrow> 's \<Rightarrow> error option \<times> 's"
  tx_Exec :: "ctx \<Rightarrow> string \<Rightarrow> sqlval list \<Rightarrow> 's \<Rightarrow> error option \<times> 's"
  tx_Commit :: "'s \<Rightarrow> error option \<times> 's"
  tx_Rollback :: "'s \<Rightarrow> error option \<times> 's"
  db_Exec :: "ctx \<Rightarrow> string \<Rightarrow> sqlval list \<Rightarrow> 's \<Rightarrow> error option \<times> 's"
  db_QueryInts :: "ctx \<Rightarrow> string \<Rightarrow> 's \<Rightarrow> (error + (error + int) list \<times> error option) \<times> 's"
  db_QueryStrings :: "ctx \<Rightarrow> string \<Rightarrow> 's \<Rightarrow> (error + (error + string) list \<times> error option) \<times> 's"
  db_QueryNullInt :: "ctx \<Rightarrow> string \<Rightarrow> 's \<Rightarrow> (error + int option) \<times> 's"
  db_QueryBytes :: "ctx \<Rightarrow> string \<Rightarrow> sqlval list \<Rightarrow> 's \<Rightarrow> (error + string) \<times> 's"
  json_Marshal :: "Snapshot \<Rightarrow> 's \<Rightarrow> error + string"
  json_Unmarshal :: "string \<Rightarrow> 's \<Rightarrow> (error + Snapshot) \<times> 's"
  err_Error :: "error \<Rightarrow> string"
  formatRFC3339Nano :: "time \<Rightarrow> string"
  kindString :: "Kind \<Rightarrow> string"

text \<open>\<^verbatim>\<open>sql.ErrNoRows\<close> of the standard library.\<close>

definition sql_ErrNoRows :: error where
  "sql_ErrNoRows = ErrForeign ''sql: no rows in result set''"

definition SchemaVersion :: int where
  "SchemaVersion = 1"


section \<open>Schema\<close>

definition createSchemaTable :: string where
  "createSchemaTable = ''CREATE TABLE IF NOT EXISTS memory_store_schema (version INTEGER PRIMARY KEY, applied_at TEXT NOT NULL)''"

definition createSnapshotTable :: string where
  "createSnapshotTable = ''CREATE TABLE IF NOT EXISTS memory_snapshots (key TEXT NOT NULL, kind TEXT NOT NULL, snapshot_json BLOB NOT NULL, updated_at TEXT NOT NULL, PRIMARY KEY (key, kind))''"

definition createIndex :: string where
  "createIndex = ''CREATE INDEX IF NOT EXISTS idx_memory_snapshots_key ON memory_snapshots(key)''"

definition migrations :: "(int \<times> string list) list" where
  "migrations = [(1, [createSchemaTable, createSnapshotTable, createIndex])]"

definition insertVersion :: string where
  "insertVersion = ''INSERT OR IGNORE INTO memory_store_schema (version, applied_at) VALUES (?, ?)''"

definition selectVersions :: string where
  "selectVersions = ''SELECT version FROM memory_store_schema''"

definition selectMaxVersion :: string where
  "selectMaxVersion = ''SELECT MAX(version) FROM memory_store_schema''"

text \<open>The rows scanned so far are returned with the error that ends the loop.\<close>

fun scan_versions :: "(error + int) list \<Rightarrow> error option \<Rightarrow> int set \<Rightarrow> int set \<times> error option" where
  "scan_versions [] rowsErr out = (out, rowsErr)"
| "scan_versions (Inl err # rows) rowsErr out = (out, Some err)"
| "scan_versions (Inr v # rows) rowsErr out = scan_versions rows rowsErr (insert v out)"

definition appliedVersions :: "'s sqlDB \<Rightarrow> ctx \<Rightarrow> 's \<Rightarrow> (int set \<times> error option) \<times> 's" where
  "appliedVersions db c w = (case db_QueryInts db c selectVersions w of
       (Inl err, w) \<Rightarrow> (({}, Some err), w)
     | (Inr (rows, rowsErr), w) \<Rightarrow> (scan_versions rows rowsErr {}, w))"

definition currentVersion :: "'s sqlDB \<Rightarrow> ctx \<Rightarrow> 's \<Rightarrow> (error + int) \<times> 's" where
  "currentVersion db c w = (case db_QueryNullInt db c selectMaxVersion w of
       (Inl err, w) \<Rightarrow> (Inl (ErrWrap ''memory: sqlite store: read current version'' err), w)
     | (Inr None, w) \<Rightarrow> (Inr 0, w)
     | (Inr (Some v), w) \<Rightarrow> (Inr v, w))"

definition isNoSchemaTable :: "'s sqlDB \<Rightarrow> error option \<Rightarrow> bool" where
  "isNoSchemaTable db err = (case err of
       None \<Rightarrow> False
     | Some e \<Rightarrow> strings_Contains (err_Error db e) ''no such table: memory_store_schema'')"

fun exec_stmts :: "'s sqlDB \<Rightarrow> ctx \<Rightarrow> string list \<Rightarrow> 's \<Rightarrow> error option \<times> 's" where
  "exec_stmts db c [] w = (None, w)"
| "exec_stmts db c (stmt # stmts) w = (case tx_Exec db c stmt [] w of
       (Some err, w) \<Rightarrow> (Some err, w)
     | (None, w) \<Rightarrow> exec_stmts db c stmts w)"

fun apply_migrations :: "env \<Rightarrow> 'z world_scheme sqlDB \<Rightarrow> ctx \<Rightarrow> int set \<Rightarrow> (int \<times> string list) list \<Rightarrow> 'z world_scheme
    \<Rightarrow> error option \<times> 'z world_scheme" where
  "apply_migrations E db c applied [] w = (None, w)"
| "apply_migrations E db c applied ((version, stmts) # ms) w =
     (if version \<in> applied then apply_migrations E db c applied ms w
      else case exec_stmts db c stmts w of
             (Some err, w) \<Rightarrow> (Some (ErrWrap (''memory: sqlite store migrate v'' @ showInt version) err), w)
           | (None, w) \<Rightarrow>
               let (now, w) = time_Now E w
               in case tx_Exec db c insertVersion [SInt version, SText (formatRFC3339Nano db now)] w of
                    (Some err, w) \<Rightarrow> (Some (ErrWrap (''memory: sqlite store migrate v'' @ showInt version @ '': record'') err), w)
                  | (None, w) \<Rightarrow> apply_migrations E db c applied ms w)"

text \<open>The deferred rollback runs after a return without a commit and after the commit.\<close>

definition migrate :: "env \<Rightarrow> 'z world_scheme sqlDB \<Rightarrow> ctx \<Rightarrow> 'z world_scheme \<Rightarrow> error option \<times> 'z world_scheme" where
  "migrate E db c w = (case appliedVersions db c w of ((applied, err), w) \<Rightarrow>
     if err \<noteq> None \<and> \<not> isNoSchemaTable db err
     then (Some (ErrWrap ''memory: sqlite store migrate: read applied versions'' (the err)), w)
     else case db_BeginTx db c w of
            (Some err, w) \<Rightarrow> (Some (ErrWrap ''memory: sqlite store migrate: begin tx'' err), w)
          | (None, w) \<Rightarrow>
              (case apply_migrations E db c applied migrations w of
                 (Some err, w) \<Rightarrow> (Some err, snd (tx_Rollback db w))
               | (None, w) \<Rightarrow> (case tx_Commit db w of
                   (Some err, w) \<Rightarrow> (Some (ErrWrap ''memory: sqlite store migrate: commit'' err), snd (tx_Rollback db w))
                 | (None, w) \<Rightarrow> (None, snd (tx_Rollback db w)))))"

definition backgroundCtx :: ctx where
  "backgroundCtx = \<lparr>ctx_scope = None, ctx_other = 0\<rparr>"

definition NewSQLiteStore :: "env \<Rightarrow> 'z world_scheme sqlDB \<Rightarrow> string \<Rightarrow> 'z world_scheme
    \<Rightarrow> (error + 'z world_scheme sqlDB) \<times> 'z world_scheme" where
  "NewSQLiteStore E db dsn w =
     (if dsn = '''' then (Inl ErrSQLiteDSNRequired, w)
      else case sql_Open db dsn w of
             (Some err, w) \<Rightarrow> (Inl (ErrWrap ''memory: sqlite store open'' err), w)
           | (None, w) \<Rightarrow>
               let w = (if strings_Contains dsn '':memory:'' \<or> strings_Contains dsn ''mode=memory''
                        then db_SetMaxOpenConns db 1 w else w)
               in case migrate E db backgroundCtx w of
                    (Some err, w) \<Rightarrow> (Inl err, snd (db_Close db w))
                  | (None, w) \<Rightarrow> (case currentVersion db backgroundCtx w of
                      (Inl err, w) \<Rightarrow> (Inl err, snd (db_Close db w))
                    | (Inr current, w) \<Rightarrow>
                        if current > SchemaVersion
                        then (Inl (ErrWrap ''db'' ErrSchemaVersionAhead), snd (db_Close db w))
                        else (Inr db, w)))"

definition SQLite_Close :: "'s sqlDB \<Rightarrow> 's \<Rightarrow> error option \<times> 's" where
  "SQLite_Close db w = db_Close db w"


section \<open>Snapshots\<close>

definition keyChar :: "char \<Rightarrow> bool" where
  "keyChar r \<longleftrightarrow> (CHR ''a'' \<le> r \<and> r \<le> CHR ''z'') \<or> (CHR ''A'' \<le> r \<and> r \<le> CHR ''Z'')
     \<or> (CHR ''0'' \<le> r \<and> r \<le> CHR ''9'') \<or> r = CHR ''-'' \<or> r = CHR ''_''"

text \<open>A rune of more than one byte, and a byte that is no rune, is outside the allowed characters.\<close>

definition keyRune :: "string \<Rightarrow> char" where
  "keyRune r = (case r of [a] \<Rightarrow> if keyChar a then a else CHR ''_'' | _ \<Rightarrow> CHR ''_'')"

definition sanitizeSQLiteKey :: "string \<Rightarrow> string" where
  "sanitizeSQLiteKey s = (let b = map keyRune (runes s) in if b = [] then ''_'' else b)"

definition upsertSnapshot :: string where
  "upsertSnapshot = ''INSERT INTO memory_snapshots (key, kind, snapshot_json, updated_at) VALUES (?, ?, ?, ?) ON CONFLICT(key, kind) DO UPDATE SET snapshot_json = excluded.snapshot_json, updated_at = excluded.updated_at''"

definition selectSnapshot :: string where
  "selectSnapshot = ''SELECT snapshot_json FROM memory_snapshots WHERE key = ? AND kind = ?''"

definition deleteSnapshots :: string where
  "deleteSnapshots = ''DELETE FROM memory_snapshots WHERE key = ?''"

definition selectKeys :: string where
  "selectKeys = ''SELECT DISTINCT key FROM memory_snapshots ORDER BY key ASC''"

definition SQLite_Save :: "env \<Rightarrow> 'z world_scheme sqlDB \<Rightarrow> ctx \<Rightarrow> string \<Rightarrow> Snapshot \<Rightarrow> 'z world_scheme
    \<Rightarrow> error option \<times> 'z world_scheme" where
  "SQLite_Save E db c key snap w =
     (if sn_Kind snap = KindOther '''' then (Some (ErrText ''memory: sqlite store save: snapshot kind is required''), w)
      else case json_Marshal db snap w of
             Inl err \<Rightarrow> (Some (ErrWrap ''memory: sqlite store save: encode'' err), w)
           | Inr payload \<Rightarrow>
               let sk = sanitizeSQLiteKey key;
                   (now, w) = time_Now E w
               in case db_Exec db c upsertSnapshot
                      [SText sk, SText (kindString db (sn_Kind snap)), SBlob payload, SText (formatRFC3339Nano db now)] w of
                    (Some err, w) \<Rightarrow> (Some (ErrWrap ''memory: sqlite store save'' err), w)
                  | (None, w) \<Rightarrow> (None, w))"

definition SQLite_LoadKind :: "'s sqlDB \<Rightarrow> ctx \<Rightarrow> string \<Rightarrow> Kind \<Rightarrow> 's \<Rightarrow> (error + Snapshot) \<times> 's" where
  "SQLite_LoadKind db c key kind w =
     (let sk = sanitizeSQLiteKey key
      in case db_QueryBytes db c selectSnapshot [SText sk, SText (kindString db kind)] w of
           (Inl err, w) \<Rightarrow>
             if errors_Is err sql_ErrNoRows
             then (Inl (ErrWrapKind ''memory: sqlite store: no snapshot'' kind ErrNotExist), w)
             else (Inl (ErrWrap ''memory: sqlite store load'' err), w)
         | (Inr payload, w) \<Rightarrow> (case json_Unmarshal db payload w of
             (Inl err, w) \<Rightarrow> (Inl (ErrWrap ''memory: sqlite store load: decode'' err), w)
           | (Inr snap, w) \<Rightarrow> (Inr snap, w)))"

fun load_first :: "'s sqlDB \<Rightarrow> ctx \<Rightarrow> string \<Rightarrow> Kind list \<Rightarrow> 's \<Rightarrow> (error + Snapshot) \<times> 's" where
  "load_first db c key [] w = (Inl (ErrWrap ''memory: sqlite store: no snapshot for key'' ErrNotExist), w)"
| "load_first db c key (kind # kinds) w = (case SQLite_LoadKind db c key kind w of
       (Inr snap, w) \<Rightarrow> (Inr snap, w)
     | (Inl err, w) \<Rightarrow> if \<not> errors_Is err ErrNotExist then (Inl err, w) else load_first db c key kinds w)"

definition SQLite_Load :: "'s sqlDB \<Rightarrow> ctx \<Rightarrow> string \<Rightarrow> 's \<Rightarrow> (error + Snapshot) \<times> 's" where
  "SQLite_Load db c key w = load_first db c key allKinds w"

definition SQLite_Delete :: "'s sqlDB \<Rightarrow> ctx \<Rightarrow> string \<Rightarrow> 's \<Rightarrow> error option \<times> 's" where
  "SQLite_Delete db c key w =
     (let sk = sanitizeSQLiteKey key
      in case db_Exec db c deleteSnapshots [SText sk] w of
           (Some err, w) \<Rightarrow> (Some (ErrWrap ''memory: sqlite store delete'' err), w)
         | (None, w) \<Rightarrow> (None, w))"

fun scan_keys :: "(error + string) list \<Rightarrow> error option \<Rightarrow> string list \<Rightarrow> error + string list" where
  "scan_keys [] rowsErr out = (case rowsErr of Some err \<Rightarrow> Inl (ErrWrap ''memory: sqlite store list iter'' err) | None \<Rightarrow> Inr out)"
| "scan_keys (Inl err # rows) rowsErr out = Inl (ErrWrap ''memory: sqlite store list scan'' err)"
| "scan_keys (Inr k # rows) rowsErr out = scan_keys rows rowsErr (out @ [k])"

definition SQLite_List :: "'s sqlDB \<Rightarrow> ctx \<Rightarrow> 's \<Rightarrow> (error + string list) \<times> 's" where
  "SQLite_List db c w = (case db_QueryStrings db c selectKeys w of
       (Inl err, w) \<Rightarrow> (Inl (ErrWrap ''memory: sqlite store list'' err), w)
     | (Inr (rows, rowsErr), w) \<Rightarrow> (scan_keys rows rowsErr [], w))"

definition sqliteSnapshotStore :: "env \<Rightarrow> 'z world_scheme sqlDB \<Rightarrow> 'z world_scheme SnapshotStore" where
  "sqliteSnapshotStore E db = \<lparr>
     ss_Save = SQLite_Save E db,
     ss_Load = SQLite_Load db,
     ss_asKindLoader = Some (SQLite_LoadKind db)\<rparr>"


section \<open>What the code relies on\<close>

text \<open>
  The documented behaviour of a database that works, for the four statements on snapshots:
  \<open>table\<close> is the content of \<^verbatim>\<open>memory_snapshots\<close>. An upsert replaces the payload of
  its key and kind and nothing else; a select finds it; a delete removes every kind of a key;
  the list has the stored keys, each once, in order. Different kinds are different strings, which
  in Go holds by definition, a kind being its string; in the model it excludes the values
  \<open>KindOther s\<close> with \<open>s\<close> the string of a named kind, which stand for nothing in Go, and
  the sample database tells them apart by a prefix.
\<close>

type_synonym table = "(string \<times> string) \<rightharpoonup> string"

definition table_keys :: "table \<Rightarrow> string set" where
  "table_keys t = fst ` dom t"

definition sqlite_ok :: "'z world_scheme sqlDB \<Rightarrow> ('z world_scheme \<Rightarrow> table) \<Rightarrow> bool" where
  "sqlite_ok db table \<longleftrightarrow>
     (\<forall>c k kd p ts w. \<exists>w'. db_Exec db c upsertSnapshot [SText k, SText kd, SBlob p, SText ts] w = (None, w')
        \<and> table w' = (table w)((k, kd) \<mapsto> p))
   \<and> (\<forall>c k kd w. db_QueryBytes db c selectSnapshot [SText k, SText kd] w
        = (case table w (k, kd) of None \<Rightarrow> Inl sql_ErrNoRows | Some p \<Rightarrow> Inr p, w))
   \<and> (\<forall>c k w. \<exists>w'. db_Exec db c deleteSnapshots [SText k] w = (None, w')
        \<and> table w' = (\<lambda>(k', kd). if k' = k then None else table w (k', kd)))
   \<and> (\<forall>c w. \<exists>ks. db_QueryStrings db c selectKeys w = (Inr (map Inr ks, None), w)
        \<and> set ks = table_keys (table w) \<and> distinct ks \<and> sorted ks)
   \<and> (\<forall>w t. table (w\<lparr>tick := t\<rparr>) = table w)
   \<and> inj (kindString db)"

lemma sqlite_okD:
  assumes "sqlite_ok db table"
  shows "\<exists>w'. db_Exec db c upsertSnapshot [SText k, SText kd, SBlob p, SText ts] w = (None, w')
      \<and> table w' = (table w)((k, kd) \<mapsto> p)"
    and "db_QueryBytes db c selectSnapshot [SText k, SText kd] w
      = (case table w (k, kd) of None \<Rightarrow> Inl sql_ErrNoRows | Some p \<Rightarrow> Inr p, w)"
    and "\<exists>w'. db_Exec db c deleteSnapshots [SText k] w = (None, w')
      \<and> table w' = (\<lambda>(k', kd). if k' = k then None else table w (k', kd))"
    and "\<exists>ks. db_QueryStrings db c selectKeys w = (Inr (map Inr ks, None), w)
      \<and> set ks = table_keys (table w) \<and> distinct ks \<and> sorted ks"
    and "table (w\<lparr>tick := t\<rparr>) = table w" and "kindString db k1 = kindString db k2 \<longleftrightarrow> k1 = k2"
  using assms unfolding sqlite_ok_def by (blast, blast, blast, blast, blast, metis injD)


section \<open>Keys\<close>

lemma keyRune_char: "keyChar (keyRune r)"
  by (simp add: keyRune_def keyChar_def split: list.splits)

lemma keyChar_ASCII: "keyChar a \<Longrightarrow> isASCII a"
  by (auto simp: keyChar_def isASCII_def less_eq_char_def)

lemma runes_key: "\<forall>a \<in> set s. keyChar a \<Longrightarrow> map keyRune (runes s) = s"
proof (induction s)
  case (Cons a s)
  then have "runes (a # s) = [a] # runes s" by (simp add: runes_ASCII_Cons keyChar_ASCII)
  then show ?case using Cons by (simp add: keyRune_def)
qed simp


section \<open>Operations on a working database\<close>

text \<open>A save is an upsert under the sanitized key; a load decodes what is stored there.\<close>

lemma SQLite_Save_ok:
  assumes ok: "sqlite_ok db table" and "sn_Kind snap \<noteq> KindOther ''''" and m: "json_Marshal db snap w = Inr p"
  shows "\<exists>w'. SQLite_Save E db c key snap w = (None, w')
    \<and> table w' = (table w)((sanitizeSQLiteKey key, kindString db (sn_Kind snap)) \<mapsto> p)"
proof -
  obtain w' where "db_Exec db c upsertSnapshot [SText (sanitizeSQLiteKey key), SText (kindString db (sn_Kind snap)), SBlob p,
        SText (formatRFC3339Nano db (now_at E (tick w)))] (w\<lparr>tick := Suc (tick w)\<rparr>) = (None, w')"
      "table w' = (table (w\<lparr>tick := Suc (tick w)\<rparr>))((sanitizeSQLiteKey key, kindString db (sn_Kind snap)) \<mapsto> p)"
    using sqlite_okD(1) [OF ok] by blast
  then show ?thesis using assms(2) m sqlite_okD(5) [OF ok] by (simp add: SQLite_Save_def time_Now_def Let_def)
qed

lemma SQLite_LoadKind_ok:
  assumes "sqlite_ok db table"
  shows "SQLite_LoadKind db c key kind w = (case table w (sanitizeSQLiteKey key, kindString db kind) of
      None \<Rightarrow> (Inl (ErrWrapKind ''memory: sqlite store: no snapshot'' kind ErrNotExist), w)
    | Some p \<Rightarrow> (case json_Unmarshal db p w of
        (Inl err, w') \<Rightarrow> (Inl (ErrWrap ''memory: sqlite store load: decode'' err), w')
      | (Inr snap, w') \<Rightarrow> (Inr snap, w')))"
  using sqlite_okD(2) [OF assms, of c "sanitizeSQLiteKey key" "kindString db kind" w]
  by (cases "table w (sanitizeSQLiteKey key, kindString db kind)") (simp_all add: SQLite_LoadKind_def)


section \<open>Properties\<close>

text \<open>
  Sanitized keys are safe: a sanitized key is never empty, has only letters, digits, the
  dash and the underscore, and is left alone when sanitized again, as is every key of that
  form; it is never longer than the key, except for the empty one.
\<close>

theorem sanitized_key_safe:
  "sanitizeSQLiteKey s \<noteq> '''' \<and> list_all keyChar (sanitizeSQLiteKey s)
    \<and> sanitizeSQLiteKey (sanitizeSQLiteKey s) = sanitizeSQLiteKey s
    \<and> length (sanitizeSQLiteKey s) \<le> max 1 (length s)
    \<and> (sanitizeSQLiteKey s = s \<longleftrightarrow> s \<noteq> '''' \<and> list_all keyChar s)"
proof -
  have safe: "sanitizeSQLiteKey s \<noteq> ''''" "list_all keyChar (sanitizeSQLiteKey s)" for s
    by (simp_all add: sanitizeSQLiteKey_def Let_def list_all_iff keyRune_char) (simp add: keyChar_def)
  have id: "sanitizeSQLiteKey s = s" if "s \<noteq> ''''" "list_all keyChar s" for s
    using that runes_key [of s] by (auto simp: sanitizeSQLiteKey_def Let_def list_all_iff)
  have len: "length (runes s) \<le> length s" for s
  proof (induction s rule: runes.induct)
    case (1 s)
    then show ?case
      using runeWidth_pos [of s] runeWidth_le [of s] by (cases "s = []") (auto simp: runes_step)
  qed
  have "length (sanitizeSQLiteKey s) \<le> max 1 (length s)"
    using len [of s] by (auto simp: sanitizeSQLiteKey_def Let_def)
  then show ?thesis using safe [of s] id [OF safe [of s]] id [of s] by metis
qed

text \<open>
  C20. A saved snapshot is the one loaded: on a working database, a save succeeds; afterwards
  loading the same key and kind decodes the encoding of that snapshot, and every other row,
  of another kind or of a key that is sanitized differently, is loaded as before. Deleting a
  key forgets all its kinds and no other key.
\<close>

theorem sqlite_save_load:
  assumes ok: "sqlite_ok db table" and kind: "sn_Kind snap \<noteq> KindOther ''''" and m: "json_Marshal db snap w = Inr p"
  shows "\<exists>w1. SQLite_Save E db c key snap w = (None, w1)
    \<and> (\<forall>key'. sanitizeSQLiteKey key' = sanitizeSQLiteKey key \<longrightarrow>
         SQLite_LoadKind db c key' (sn_Kind snap) w1 = (case json_Unmarshal db p w1 of
             (Inl err, w') \<Rightarrow> (Inl (ErrWrap ''memory: sqlite store load: decode'' err), w')
           | (Inr snap', w') \<Rightarrow> (Inr snap', w')))
    \<and> (\<forall>key' k. sanitizeSQLiteKey key' \<noteq> sanitizeSQLiteKey key \<or> k \<noteq> sn_Kind snap \<longrightarrow>
         table w1 (sanitizeSQLiteKey key', kindString db k) = table w (sanitizeSQLiteKey key', kindString db k))
    \<and> (\<exists>w2. SQLite_Delete db c key w1 = (None, w2)
        \<and> (\<forall>k. SQLite_LoadKind db c key k w2 = (Inl (ErrWrapKind ''memory: sqlite store: no snapshot'' k ErrNotExist), w2))
        \<and> (\<forall>key' kd. key' \<noteq> sanitizeSQLiteKey key \<longrightarrow> table w2 (key', kd) = table w (key', kd)))"
proof -
  obtain w1 where s: "SQLite_Save E db c key snap w = (None, w1)"
      "table w1 = (table w)((sanitizeSQLiteKey key, kindString db (sn_Kind snap)) \<mapsto> p)"
    using SQLite_Save_ok [OF assms] by blast
  obtain w2 where d: "db_Exec db c deleteSnapshots [SText (sanitizeSQLiteKey key)] w1 = (None, w2)"
      "table w2 = (\<lambda>(k', kd). if k' = sanitizeSQLiteKey key then None else table w1 (k', kd))"
    using sqlite_okD(3) [OF ok] by blast
  have "SQLite_Delete db c key w1 = (None, w2)" using d(1) by (simp add: SQLite_Delete_def)
  moreover have "SQLite_LoadKind db c key k w2 = (Inl (ErrWrapKind ''memory: sqlite store: no snapshot'' k ErrNotExist), w2)" for k
    using d(2) by (simp add: SQLite_LoadKind_ok [OF ok])
  ultimately show ?thesis using s d(2) sqlite_okD(6) [OF ok]
    by (intro exI [of _ w1] conjI exI [of _ w2]) (auto simp: SQLite_LoadKind_ok [OF ok])
qed

text \<open>A database of lists, for evaluation; it knows the statements of the source.\<close>

record stored = sys +
  rows :: "((string \<times> string) \<times> string) list"
  versions :: "int list option"

definition noTable :: error where
  "noTable = ErrForeign ''no such table: memory_store_schema''"

definition listKind :: "Kind \<Rightarrow> string" where
  "listKind k = (case k of KindWorking \<Rightarrow> ''working'' | KindEpisodic \<Rightarrow> ''episodic'' | KindSemantic \<Rightarrow> ''semantic''
     | KindOther s \<Rightarrow> CHR ''?'' # s)"

definition listExec :: "string \<Rightarrow> sqlval list \<Rightarrow> stored \<Rightarrow> error option \<times> stored" where
  "listExec stmt args w = (case args of
       [SText k, SText kd, SBlob p, SText ts] \<Rightarrow>
         if stmt = upsertSnapshot then (None, w\<lparr>rows := mput (k, kd) p (rows w)\<rparr>) else (Some (ErrForeign ''sql''), w)
     | [SText k] \<Rightarrow>
         if stmt = deleteSnapshots then (None, w\<lparr>rows := filter (\<lambda>r. fst (fst r) \<noteq> k) (rows w)\<rparr>) else (Some (ErrForeign ''sql''), w)
     | _ \<Rightarrow> (Some (ErrForeign ''sql''), w))"

definition listTx :: "string \<Rightarrow> sqlval list \<Rightarrow> stored \<Rightarrow> error option \<times> stored" where
  "listTx stmt args w =
     (if stmt = createSchemaTable then
        (None, w\<lparr>versions := Some (case versions w of None \<Rightarrow> [] | Some vs \<Rightarrow> vs)\<rparr>)
      else if stmt = insertVersion then
        (case (args, versions w) of
           (SInt v # _, Some vs) \<Rightarrow> (None, w\<lparr>versions := Some (List.insert v vs)\<rparr>)
         | _ \<Rightarrow> (Some noTable, w))
      else (None, w))"

text \<open>A codec for empty snapshots.\<close>

definition listMarshal :: "Snapshot \<Rightarrow> stored \<Rightarrow> error + string" where
  "listMarshal s w = (if sn_Items s = [] \<and> sn_Version s = 1 then Inr (listKind (sn_Kind s)) else Inl (ErrForeign ''json''))"

definition listUnmarshal :: "string \<Rightarrow> stored \<Rightarrow> (error + Snapshot) \<times> stored" where
  "listUnmarshal b w = (case List.find (\<lambda>k. listKind k = b) allKinds of
       Some k \<Rightarrow> (Inr \<lparr>sn_Version = 1, sn_Kind = k, sn_Items = []\<rparr>, w)
     | None \<Rightarrow> (Inl (ErrForeign ''json''), w))"

definition listDB :: "stored sqlDB" where
  "listDB = \<lparr>
     sql_Open = (\<lambda>dsn w. (None, w)),
     db_SetMaxOpenConns = (\<lambda>n w. w),
     db_Close = (\<lambda>w. (None, w)),
     db_BeginTx = (\<lambda>c w. (None, w)),
     tx_Exec = (\<lambda>c. listTx),
     tx_Commit = (\<lambda>w. (None, w)),
     tx_Rollback = (\<lambda>w. (Some (ErrForeign ''sql: transaction has already been committed or rolled back''), w)),
     db_Exec = (\<lambda>c. listExec),
     db_QueryInts = (\<lambda>c q w. (case versions w of None \<Rightarrow> Inl noTable | Some vs \<Rightarrow> Inr (map Inr vs, None), w)),
     db_QueryStrings = (\<lambda>c q w. (Inr (map Inr (sort (remdups (map (fst \<circ> fst) (rows w)))), None), w)),
     db_QueryNullInt = (\<lambda>c q w. (case versions w of None \<Rightarrow> Inl noTable
        | Some vs \<Rightarrow> Inr (if vs = [] then None else Some (Max (set vs))), w)),
     db_QueryBytes = (\<lambda>c q args w. (case args of
          [SText k, SText kd] \<Rightarrow> (case mget (rows w) (k, kd) of None \<Rightarrow> Inl sql_ErrNoRows | Some p \<Rightarrow> Inr p)
        | _ \<Rightarrow> Inl (ErrForeign ''sql''), w)),
     json_Marshal = listMarshal,
     json_Unmarshal = listUnmarshal,
     err_Error = (\<lambda>e. case e of ErrForeign s \<Rightarrow> s | _ \<Rightarrow> ''''),
     formatRFC3339Nano = showInt,
     kindString = listKind\<rparr>"

lemma listDB_simps [simp]:
  "db_Exec listDB c = listExec" "tx_Exec listDB c = listTx" "json_Marshal listDB = listMarshal"
  "json_Unmarshal listDB = listUnmarshal" "kindString listDB = listKind" "db_BeginTx listDB c w = (None, w)"
  "tx_Commit listDB w = (None, w)" "snd (tx_Rollback listDB w) = w" "sql_Open listDB dsn w = (None, w)"
  "db_SetMaxOpenConns listDB n w = w" "snd (db_Close listDB w) = w"
  by (simp_all add: listDB_def)

lemma listDB_ok: "sqlite_ok listDB (\<lambda>w. mget (rows w))"
proof -
  have kinds: "inj listKind"
    by (rule injI) (auto simp: listKind_def split: Kind.splits)
  have del: "mget (filter (\<lambda>r. fst (fst r) \<noteq> k) m) = (\<lambda>(k', kd). if k' = k then None else mget m (k', kd))"
    for k and m :: "((string \<times> string) \<times> string) list"
    by (induction m) (auto simp: fun_eq_iff)
  have list: "set (sort (remdups (map (fst \<circ> fst) m))) = table_keys (mget m)" for m :: "((string \<times> string) \<times> string) list"
    by (simp add: table_keys_def dom_map_of_conv_image_fst image_image)
  have stmts: "upsertSnapshot \<noteq> deleteSnapshots" by (simp add: upsertSnapshot_def deleteSnapshots_def)
  show ?thesis unfolding sqlite_ok_def
  proof (intro conjI allI)
    fix c k w
    show "\<exists>w'. db_Exec listDB c deleteSnapshots [SText k] w = (None, w')
      \<and> mget (rows w') = (\<lambda>(k', kd). if k' = k then None else mget (rows w) (k', kd))"
      using del by (simp add: listExec_def)
  next
    fix c w
    show "\<exists>ks. db_QueryStrings listDB c selectKeys w = (Inr (map Inr ks, None), w)
      \<and> set ks = table_keys (mget (rows w)) \<and> distinct ks \<and> sorted ks"
      by (rule exI [of _ "sort (remdups (map (fst \<circ> fst) (rows w)))"]) (simp add: list [symmetric], simp add: listDB_def)
  qed (simp_all add: listExec_def kinds mget_mput_upd, simp add: listDB_def split: option.splits)
qed

definition emptyStored :: stored where
  "emptyStored = \<lparr>tick = 0, heap = [], events = [], wrk = sampleWorking\<lparr>wm_store := newScoredStore ''w'' sampleEmbedder\<rparr>,
     epi = sampleEpisodic\<lparr>em_store := newScoredStore ''e'' sampleEmbedder\<rparr>,
     sem = sampleSemantic\<lparr>sm_store := newScoredStore ''s'' sampleEmbedder\<rparr>, rows = [], versions = None\<rparr>"

theorem sqlite_save_load_witness:
  "\<exists>w1. SQLite_Save sampleEnv listDB sampleCtx ''a/b'' \<lparr>sn_Version = 1, sn_Kind = KindEpisodic, sn_Items = []\<rparr> emptyStored = (None, w1)
    \<and> fst (SQLite_LoadKind listDB sampleCtx ''a_b'' KindEpisodic w1)
        = Inr \<lparr>sn_Version = 1, sn_Kind = KindEpisodic, sn_Items = []\<rparr>"
proof -
  let ?s = "\<lparr>sn_Version = 1, sn_Kind = KindEpisodic, sn_Items = []\<rparr>"
  have m: "json_Marshal listDB ?s emptyStored = Inr ''episodic''" by (simp add: listMarshal_def listKind_def)
  have k: "sanitizeSQLiteKey ''a_b'' = sanitizeSQLiteKey ''a/b''" by code_simp
  have u: "json_Unmarshal listDB ''episodic'' w = (Inr ?s, w)" for w
    by (simp add: listUnmarshal_def listKind_def allKinds_def)
  show ?thesis
    using sqlite_save_load [OF listDB_ok _ m, of sampleEnv sampleCtx "''a/b''"] k u by auto
qed

text \<open>
  The documented behaviour of a working database for the statements of the schema:
  \<open>vers\<close> is the set of versions recorded in \<^verbatim>\<open>memory_store_schema\<close>, or
  \<open>None\<close> when there is no such table. What a transaction has done stands after its commit,
  also when a rollback follows. Only the versions are observed: that the table of snapshots
  and its index exist afterwards is not stated, beyond that their statements are executed
  without an error.
\<close>

definition schema_ok :: "'z world_scheme sqlDB \<Rightarrow> ('z world_scheme \<Rightarrow> int set option) \<Rightarrow> bool" where
  "schema_ok db vers \<longleftrightarrow>
     (\<forall>dsn w. \<exists>w'. sql_Open db dsn w = (None, w') \<and> vers w' = vers w)
   \<and> (\<forall>n w. vers (db_SetMaxOpenConns db n w) = vers w)
   \<and> (\<forall>w. vers (snd (db_Close db w)) = vers w)
   \<and> (\<forall>c w. \<exists>w'. db_BeginTx db c w = (None, w') \<and> vers w' = vers w)
   \<and> (\<forall>c w. \<exists>w'. tx_Exec db c createSchemaTable [] w = (None, w')
        \<and> vers w' = Some (case vers w of None \<Rightarrow> {} | Some V \<Rightarrow> V))
   \<and> (\<forall>c w. \<exists>w'. tx_Exec db c createSnapshotTable [] w = (None, w') \<and> vers w' = vers w)
   \<and> (\<forall>c w. \<exists>w'. tx_Exec db c createIndex [] w = (None, w') \<and> vers w' = vers w)
   \<and> (\<forall>c w v ts V. vers w = Some V \<longrightarrow>
        (\<exists>w'. tx_Exec db c insertVersion [SInt v, SText ts] w = (None, w') \<and> vers w' = Some (insert v V)))
   \<and> (\<forall>w. \<exists>w'. tx_Commit db w = (None, w') \<and> vers w' = vers w \<and> vers (snd (tx_Rollback db w')) = vers w')
   \<and> (\<forall>c w. \<exists>w'. vers w' = vers w \<and> (case vers w of
        None \<Rightarrow> \<exists>e. db_QueryInts db c selectVersions w = (Inl e, w') \<and> isNoSchemaTable db (Some e)
      | Some V \<Rightarrow> \<exists>vs. db_QueryInts db c selectVersions w = (Inr (map Inr vs, None), w') \<and> set vs = V))
   \<and> (\<forall>c w V. vers w = Some V \<longrightarrow> (\<exists>w'. vers w' = vers w
        \<and> db_QueryNullInt db c selectMaxVersion w = (Inr (if V = {} then None else Some (Max V)), w')))
   \<and> (\<forall>w t. vers (w\<lparr>tick := t\<rparr>) = vers w)"

lemma schema_okD:
  assumes "schema_ok db vers"
  shows "\<exists>w'. sql_Open db dsn w = (None, w') \<and> vers w' = vers w"
    and "vers (db_SetMaxOpenConns db n w) = vers w"
    and "vers (snd (db_Close db w)) = vers w"
    and "\<exists>w'. db_BeginTx db c w = (None, w') \<and> vers w' = vers w"
    and "\<exists>w'. tx_Exec db c createSchemaTable [] w = (None, w')
        \<and> vers w' = Some (case vers w of None \<Rightarrow> {} | Some V \<Rightarrow> V)"
    and "\<exists>w'. tx_Exec db c createSnapshotTable [] w = (None, w') \<and> vers w' = vers w"
    and "\<exists>w'. tx_Exec db c createIndex [] w = (None, w') \<and> vers w' = vers w"
    and "vers w = Some V \<Longrightarrow>
        \<exists>w'. tx_Exec db c insertVersion [SInt v, SText ts] w = (None, w') \<and> vers w' = Some (insert v V)"
    and "\<exists>w'. tx_Commit db w = (None, w') \<and> vers w' = vers w \<and> vers (snd (tx_Rollback db w')) = vers w'"
    and "\<exists>w'. vers w' = vers w \<and> (case vers w of
        None \<Rightarrow> \<exists>e. db_QueryInts db c selectVersions w = (Inl e, w') \<and> isNoSchemaTable db (Some e)
      | Some V \<Rightarrow> \<exists>vs. db_QueryInts db c selectVersions w = (Inr (map Inr vs, None), w') \<and> set vs = V)"
    and "vers w = Some V \<Longrightarrow> \<exists>w'. vers w' = vers w
        \<and> db_QueryNullInt db c selectMaxVersion w = (Inr (if V = {} then None else Some (Max V)), w')"
    and "vers (w\<lparr>tick := t\<rparr>) = vers w"
  by (insert assms [unfolded schema_ok_def]) (elim conjE, simp)+

abbreviation recorded :: "int set option \<Rightarrow> int set" where
  "recorded V \<equiv> (case V of None \<Rightarrow> {} | Some V \<Rightarrow> V)"

lemma scan_versions_ok: "scan_versions (map Inr vs) None out = (set vs \<union> out, None)"
  by (induction vs arbitrary: out) simp_all

lemma appliedVersions_ok:
  assumes "schema_ok db vers"
  shows "\<exists>w' err. appliedVersions db c w = ((recorded (vers w), err), w') \<and> vers w' = vers w
    \<and> (err \<noteq> None \<longrightarrow> isNoSchemaTable db err)"
proof (cases "vers w")
  case None
  then show ?thesis using schema_okD(10) [OF assms, of w c] by (auto simp: appliedVersions_def)
next
  case (Some V)
  then show ?thesis using schema_okD(10) [OF assms, of w c] by (auto simp: appliedVersions_def scan_versions_ok)
qed

lemma first_migration:
  assumes ok: "schema_ok db vers"
  shows "\<exists>w'. apply_migrations E db c applied migrations w = (None, w')
    \<and> vers w' = (if 1 \<in> applied then vers w else Some (insert 1 (recorded (vers w))))"
proof (cases "1 \<in> applied")
  case False
  obtain w1 where w1: "tx_Exec db c createSchemaTable [] w = (None, w1)" "vers w1 = Some (recorded (vers w))"
    using schema_okD(5) [OF ok] by blast
  obtain w2 where w2: "tx_Exec db c createSnapshotTable [] w1 = (None, w2)" "vers w2 = vers w1"
    using schema_okD(6) [OF ok] by blast
  obtain w3 where w3: "tx_Exec db c createIndex [] w2 = (None, w3)" "vers w3 = vers w2"
    using schema_okD(7) [OF ok] by blast
  have "vers (w3\<lparr>tick := Suc (tick w3)\<rparr>) = Some (recorded (vers w))"
    using w1 w2 w3 schema_okD(12) [OF ok] by simp
  then obtain w4 where "tx_Exec db c insertVersion [SInt 1, SText (formatRFC3339Nano db (now_at E (tick w3)))]
      (w3\<lparr>tick := Suc (tick w3)\<rparr>) = (None, w4)" "vers w4 = Some (insert 1 (recorded (vers w)))"
    using schema_okD(8) [OF ok] by blast
  then show ?thesis using False w1 w2 w3 by (simp add: migrations_def time_Now_def)
qed (simp add: migrations_def)

lemma migrate_ok:
  assumes ok: "schema_ok db vers"
  shows "\<exists>w'. migrate E db c w = (None, w') \<and> vers w' = Some (insert 1 (recorded (vers w)))"
proof -
  obtain w1 err where a: "appliedVersions db c w = ((recorded (vers w), err), w1)" "vers w1 = vers w"
      "err \<noteq> None \<longrightarrow> isNoSchemaTable db err"
    using appliedVersions_ok [OF ok] by blast
  obtain w2 where b: "db_BeginTx db c w1 = (None, w2)" "vers w2 = vers w1" using schema_okD(4) [OF ok] by blast
  obtain w3 where m: "apply_migrations E db c (recorded (vers w)) migrations w2 = (None, w3)"
      "vers w3 = (if 1 \<in> recorded (vers w) then vers w2 else Some (insert 1 (recorded (vers w2))))"
    using first_migration [OF ok] by blast
  have v: "vers w3 = Some (insert 1 (recorded (vers w)))"
    using m(2) a(2) b(2) by (auto split: option.splits if_splits)
  obtain w4 where "tx_Commit db w3 = (None, w4)" "vers w4 = vers w3" "vers (snd (tx_Rollback db w4)) = vers w4"
    using schema_okD(9) [OF ok] by blast
  then show ?thesis using a b m(1) v by (cases err) (simp_all add: migrate_def)
qed

text \<open>
  C36. Opening a store: on a working database whose recorded versions are finitely many, opening
  records version 1, whether or not the table existed. It succeeds exactly when no recorded
  version is newer than the code's, and otherwise reports the schema as ahead. Opening once
  more finds nothing left to do.
\<close>

theorem sqlite_open:
  assumes ok: "schema_ok db vers" and "dsn \<noteq> ''''" and fin: "finite (recorded (vers w))"
    and new: "NewSQLiteStore E db dsn w = (r, w')"
  shows "vers w' = Some (insert SchemaVersion (recorded (vers w)))
    \<and> (if \<forall>v \<in> recorded (vers w). v \<le> SchemaVersion then r = Inr db
       else \<exists>e. r = Inl e \<and> errors_Is e ErrSchemaVersionAhead)
    \<and> (\<exists>w''. migrate E db c w' = (None, w'') \<and> vers w'' = vers w')"
proof -
  obtain w1 where o: "sql_Open db dsn w = (None, w1)" "vers w1 = vers w" using schema_okD(1) [OF ok] by blast
  let ?w = "if strings_Contains dsn '':memory:'' \<or> strings_Contains dsn ''mode=memory'' then db_SetMaxOpenConns db 1 w1 else w1"
  have "vers ?w = vers w" using o(2) schema_okD(2) [OF ok] by simp
  then obtain w2 where m: "migrate E db backgroundCtx ?w = (None, w2)" "vers w2 = Some (insert 1 (recorded (vers w)))"
    using migrate_ok [OF ok] by metis
  let ?V = "insert 1 (recorded (vers w))"
  obtain w3 where q: "db_QueryNullInt db backgroundCtx selectMaxVersion w2 = (Inr (Some (Max ?V)), w3)" "vers w3 = vers w2"
    using schema_okD(11) [OF ok m(2), of backgroundCtx] by auto
  have r: "(r, w') = (if Max ?V > 1 then (Inl (ErrWrap ''db'' ErrSchemaVersionAhead), snd (db_Close db w3)) else (Inr db, w3))"
    using new assms(2) o(1) m(1) q(1) by (simp add: NewSQLiteStore_def currentVersion_def SchemaVersion_def Let_def)
  have mx: "Max ?V > 1 \<longleftrightarrow> \<not> (\<forall>v \<in> recorded (vers w). v \<le> 1)"
    using fin by (auto simp: Max_gr_iff not_le)
  have v: "vers w' = Some ?V" using r q(2) m(2) schema_okD(3) [OF ok] by (auto split: if_splits)
  obtain w'' where "migrate E db c w' = (None, w'')" "vers w'' = Some (insert 1 (recorded (vers w')))"
    using migrate_ok [OF ok] by blast
  then have "\<exists>w''. migrate E db c w' = (None, w'') \<and> vers w'' = vers w'" using v by simp
  then show ?thesis using r mx v by (auto simp: SchemaVersion_def split: if_splits)
qed

lemma listDB_schema: "schema_ok listDB (\<lambda>w. map_option set (versions w))"
  unfolding schema_ok_def
proof (intro conjI allI ballI impI)
  fix c and w :: stored
  show "\<exists>w'. map_option set (versions w') = map_option set (versions w) \<and> (case map_option set (versions w) of
        None \<Rightarrow> \<exists>e. db_QueryInts listDB c selectVersions w = (Inl e, w') \<and> isNoSchemaTable listDB (Some e)
      | Some V \<Rightarrow> \<exists>vs. db_QueryInts listDB c selectVersions w = (Inr (map Inr vs, None), w') \<and> set vs = V)"
    by (rule exI [of _ w], cases "versions w") (auto simp: listDB_def noTable_def isNoSchemaTable_def strings_Contains_iff)
next
  fix c and w :: stored
  have "createSnapshotTable \<noteq> createSchemaTable" "createSnapshotTable \<noteq> insertVersion"
      "createIndex \<noteq> createSchemaTable" "createIndex \<noteq> insertVersion"
    by (simp_all add: createSnapshotTable_def createIndex_def createSchemaTable_def insertVersion_def)
  then show "\<exists>w'. tx_Exec listDB c createSnapshotTable [] w = (None, w') \<and> map_option set (versions w') = map_option set (versions w)"
      "\<exists>w'. tx_Exec listDB c createIndex [] w = (None, w') \<and> map_option set (versions w') = map_option set (versions w)"
    by (simp_all add: listTx_def)
next
  fix c and w :: stored and v ts V
  assume "map_option set (versions w) = Some V"
  moreover have "insertVersion \<noteq> createSchemaTable" by (simp add: insertVersion_def createSchemaTable_def)
  ultimately show "\<exists>w'. tx_Exec listDB c insertVersion [SInt v, SText ts] w = (None, w')
      \<and> map_option set (versions w') = Some (insert v V)"
    by (auto simp: listTx_def)
next
  fix c and w :: stored and V
  assume "map_option set (versions w) = Some V"
  then show "\<exists>w'. map_option set (versions w') = map_option set (versions w)
      \<and> db_QueryNullInt listDB c selectMaxVersion w = (Inr (if V = {} then None else Some (Max V)), w')"
    by (intro exI [of _ w]) (auto simp: listDB_def split: if_splits)
qed (auto simp: listTx_def split: option.splits)

theorem sqlite_open_witness:
  "fst (NewSQLiteStore sampleEnv listDB ''mem.db'' emptyStored) = Inr listDB
    \<and> (\<exists>e. fst (NewSQLiteStore sampleEnv listDB ''mem.db'' (emptyStored\<lparr>versions := Some [2]\<rparr>)) = Inl e
         \<and> errors_Is e ErrSchemaVersionAhead)"
proof -
  have e: "versions emptyStored = None" by (simp add: emptyStored_def)
  note opened = sqlite_open [OF listDB_schema _ _ prod.collapse [symmetric], of "''mem.db''" _ sampleEnv]
  show ?thesis using opened [of emptyStored] opened [of "emptyStored\<lparr>versions := Some [2]\<rparr>"]
    by (simp add: e SchemaVersion_def)
qed


section \<open>Export, store, load\<close>

lemma save_all_ok:
  assumes ok: "sqlite_ok db table"
    and "\<forall>snap \<in> set snaps. sn_Kind snap \<noteq> KindOther '''' \<and> (\<forall>w. json_Marshal db snap w = Inr (enc snap))"
    and "distinct (map sn_Kind snaps)"
  shows "\<exists>w'. save_all (sqliteSnapshotStore E db) c key snaps w = (None, w')
    \<and> (\<forall>snap \<in> set snaps. table w' (sanitizeSQLiteKey key, kindString db (sn_Kind snap)) = Some (enc snap))
    \<and> (\<forall>k. k \<notin> sn_Kind ` set snaps \<longrightarrow>
         table w' (sanitizeSQLiteKey key, kindString db k) = table w (sanitizeSQLiteKey key, kindString db k))"
  using assms(2,3)
proof (induction snaps arbitrary: w)
  case (Cons snap snaps)
  obtain w1 where s: "SQLite_Save E db c key snap w = (None, w1)"
      "table w1 = (table w)((sanitizeSQLiteKey key, kindString db (sn_Kind snap)) \<mapsto> enc snap)"
    using SQLite_Save_ok [OF ok, of snap w "enc snap" E c key] Cons.prems(1) by auto
  obtain w2 where ih: "save_all (sqliteSnapshotStore E db) c key snaps w1 = (None, w2)"
      "\<forall>x \<in> set snaps. table w2 (sanitizeSQLiteKey key, kindString db (sn_Kind x)) = Some (enc x)"
      "\<forall>k. k \<notin> sn_Kind ` set snaps \<longrightarrow>
         table w2 (sanitizeSQLiteKey key, kindString db k) = table w1 (sanitizeSQLiteKey key, kindString db k)"
    using Cons.IH [of w1] Cons.prems by auto
  have "save_all (sqliteSnapshotStore E db) c key (snap # snaps) w = (None, w2)"
    using s(1) ih(1) by (simp add: sqliteSnapshotStore_def)
  moreover have "sn_Kind snap \<notin> sn_Kind ` set snaps" using Cons.prems(2) by simp
  ultimately show ?case using s(2) ih(2,3) sqlite_okD(6) [OF ok] by auto
qed simp

lemma load_loop_ok:
  assumes ok: "sqlite_ok db table"
    and "\<forall>k \<in> set ks. \<exists>p. table w (sanitizeSQLiteKey key, kindString db k) = Some p
      \<and> (\<forall>w. \<exists>w'. json_Unmarshal db p w = (Inr (D k), w') \<and> table w' = table w)"
  shows "\<exists>loaded w'. load_loop (sqliteSnapshotStore E db) c key ks out w = (Inr loaded, w')
    \<and> (\<forall>k. mget loaded k = (if k \<in> set ks then Some (D k) else mget out k))"
  using assms(2)
proof (induction ks arbitrary: out w)
  case (Cons k ks)
  then obtain p w1 where p: "table w (sanitizeSQLiteKey key, kindString db k) = Some p"
      "json_Unmarshal db p w = (Inr (D k), w1)" "table w1 = table w" by auto metis
  have "SQLite_LoadKind db c key k w = (Inr (D k), w1)" using p by (simp add: SQLite_LoadKind_ok [OF ok])
  then have step: "load_loop (sqliteSnapshotStore E db) c key (k # ks) out w
      = load_loop (sqliteSnapshotStore E db) c key ks (mput k (D k) out) w1"
    by (simp add: sqliteSnapshotStore_def)
  obtain loaded w' where "load_loop (sqliteSnapshotStore E db) c key ks (mput k (D k) out) w1 = (Inr loaded, w')"
      "\<forall>k'. mget loaded k' = (if k' \<in> set ks then Some (D k') else mget (mput k (D k) out) k')"
    using Cons.IH [of w1 "mput k (D k) out"] Cons.prems p(3) by auto
  then show ?case unfolding step by auto
qed simp

lemma export_tiers_mwf: "export_tiers m c ks out w = ((out', e), w') \<Longrightarrow> mwf out \<Longrightarrow> mwf out'"
  by (induction ks arbitrary: out w) (auto split: option.splits sum.splits prod.splits)

text \<open>
  C37. What is exported is what is imported: on a working database, with a codec that decodes
  what it encoded, exporting all tiers under a key stores their snapshots, and loading the key
  gives for every kind the decoded snapshot of that kind and nothing else, whatever the table
  held for the key before and in whatever order the snapshots were saved.
\<close>

theorem sqlite_export_load:
  assumes ok: "sqlite_ok db table" and key: "key \<noteq> ''''"
    and st: "o_SnapshotStore (m_opts m) = Some (sqliteSnapshotStore E db)"
    and ex: "export_tiers m c allKinds [] w = ((out, None), w1)"
    and all: "mkeys out = set allKinds" and kinds: "\<forall>(k, snap) \<in> set out. sn_Kind snap = k"
    and codec: "\<forall>(k, snap) \<in> set out. (\<forall>w. json_Marshal db snap w = Inr (enc snap))
      \<and> (\<forall>w. \<exists>w'. json_Unmarshal db (enc snap) w = (Inr (dec snap), w') \<and> table w' = table w)"
  shows "\<exists>w2 loaded w3. Manager_ExportAll E m c key w = ((out, None), w2)
    \<and> loadAllFromStore (sqliteSnapshotStore E db) c key w2 = (Inr loaded, w3)
    \<and> (\<forall>k. mget loaded k = map_option dec (mget out k))"
proof -
  have wf: "mwf out" by (rule export_tiers_mwf [OF ex]) simp
  let ?w = "w1\<lparr>tick := Suc (tick w1)\<rparr>" and ?ord = "shuffle (rank_at E (tick w1)) out"
  let ?snaps = "map snd ?ord" and ?st = "sqliteSnapshotStore E db"
  have mem: "(sn_Kind snap, snap) \<in> set out" if "snap \<in> set ?snaps" for snap using that kinds by auto
  have "map sn_Kind ?snaps = map fst ?ord" using kinds by auto
  then have d: "distinct (map sn_Kind ?snaps)" using wf by (metis mwf_def mwf_shuffle)
  have k: "\<forall>snap \<in> set ?snaps. sn_Kind snap \<noteq> KindOther '''' \<and> (\<forall>w. json_Marshal db snap w = Inr (enc snap))"
  proof
    fix snap
    assume s: "snap \<in> set ?snaps"
    have "sn_Kind snap \<in> set allKinds" using imageI [OF mem [OF s], of fst] unfolding all by simp
    then show "sn_Kind snap \<noteq> KindOther '''' \<and> (\<forall>w. json_Marshal db snap w = Inr (enc snap))"
      using bspec [OF codec mem [OF s]] by (auto simp: allKinds_def)
  qed
  obtain w2 where s: "save_all ?st c key ?snaps ?w = (None, w2)"
      "\<forall>snap \<in> set ?snaps. table w2 (sanitizeSQLiteKey key, kindString db (sn_Kind snap)) = Some (enc snap)"
    using save_all_ok [OF ok k d] by blast
  have e: "Manager_ExportAll E m c key w = ((out, None), w2)"
    using ex st key s(1) by (simp add: Manager_ExportAll_def go_range_def)
  have row: "\<exists>p. table w2 (sanitizeSQLiteKey key, kindString db k) = Some p
      \<and> (\<forall>w. \<exists>w'. json_Unmarshal db p w = (Inr (dec (the (mget out k))), w') \<and> table w' = table w)"
    if k: "k \<in> set allKinds" for k
  proof -
    obtain snap where g: "mget out k = Some snap" using k all mget_None_iff by (metis option.exhaust)
    then have i: "(k, snap) \<in> set out" by (rule mget_Some_in)
    have "snap \<in> set ?snaps" using imageI [OF i, of snd] by simp
    moreover have "sn_Kind snap = k" using bspec [OF kinds i] by simp
    ultimately have "table w2 (sanitizeSQLiteKey key, kindString db k) = Some (enc snap)" using s(2) by blast
    then show ?thesis using bspec [OF codec i] g by simp
  qed
  obtain loaded w3 where l: "load_loop ?st c key allKinds [] w2 = (Inr loaded, w3)"
      "\<forall>k. mget loaded k = (if k \<in> set allKinds then Some (dec (the (mget out k))) else None)"
    using load_loop_ok [OF ok, of allKinds w2 key "\<lambda>k. dec (the (mget out k))" E c "[]"] row by auto
  have "mget loaded k = map_option dec (mget out k)" for k
  proof (cases "mget out k")
    case None
    then have "k \<notin> set allKinds" using all mget_None_iff by metis
    then show ?thesis using l(2) None by simp
  next
    case (Some snap)
    then have "k \<in> set allKinds" using all mget_None_iff by (metis option.distinct(1))
    then show ?thesis using l(2) Some by simp
  qed
  then show ?thesis using e l(1) by (auto simp: loadAllFromStore_def)
qed

definition storedManager :: "stored Manager" where
  "storedManager = \<lparr>m_opts = (engineOptions sampleEnv)\<lparr>o_SnapshotStore := Some (sqliteSnapshotStore sampleEnv listDB)\<rparr>\<rparr>"

definition emptySnapshot :: "Kind \<Rightarrow> Snapshot" where
  "emptySnapshot k = \<lparr>sn_Version = 1, sn_Kind = k, sn_Items = []\<rparr>"

lemma stored_export:
  "\<exists>w1. export_tiers storedManager sampleCtx allKinds [] emptyStored
    = (([(KindWorking, emptySnapshot KindWorking), (KindEpisodic, emptySnapshot KindEpisodic),
         (KindSemantic, emptySnapshot KindSemantic)], None), w1)"
  by (simp add: storedManager_def allKinds_def exporterOf_def tierFor_def engineOptions_def tierWith_def zeroTier_def
      asLocalMemory_def workingMemory_def episodicMemory_def semanticMemory_def Working_Export_def Episodic_Export_def
      Semantic_Export_def exportFromStore_def snapshot_def emptyStored_def newScoredStore_def go_range_def
      emptySnapshot_def Let_def)

theorem sqlite_export_load_witness:
  "\<exists>out w2 loaded w3. Manager_ExportAll sampleEnv storedManager sampleCtx ''nightly'' emptyStored = ((out, None), w2)
    \<and> loadAllFromStore (sqliteSnapshotStore sampleEnv listDB) sampleCtx ''nightly'' w2 = (Inr loaded, w3)
    \<and> mget loaded KindSemantic = Some (emptySnapshot KindSemantic)"
proof -
  let ?out = "[(KindWorking, emptySnapshot KindWorking), (KindEpisodic, emptySnapshot KindEpisodic),
    (KindSemantic, emptySnapshot KindSemantic)]"
  obtain w1 where ex: "export_tiers storedManager sampleCtx allKinds [] emptyStored = ((?out, None), w1)"
    using stored_export by blast
  have st: "o_SnapshotStore (m_opts storedManager) = Some (sqliteSnapshotStore sampleEnv listDB)"
    by (simp add: storedManager_def)
  have k: "mkeys ?out = set allKinds" "\<forall>(k, snap) \<in> set ?out. sn_Kind snap = k"
    by (simp_all add: allKinds_def emptySnapshot_def)
  have c: "\<forall>(k, snap) \<in> set ?out. (\<forall>w. json_Marshal listDB snap w = Inr (listKind (sn_Kind snap)))
      \<and> (\<forall>w. \<exists>w'. json_Unmarshal listDB (listKind (sn_Kind snap)) w = (Inr (id snap), w') \<and> mget (rows w') = mget (rows w))"
    by (simp add: listMarshal_def listUnmarshal_def listKind_def allKinds_def emptySnapshot_def)
  show ?thesis
    using sqlite_export_load [OF listDB_ok _ st ex k c, of "''nightly''"] by auto
qed

end
