(* ===== verification/Spec2Isabelle.thy ===== *)
theory Spec2Isabelle
  imports Specification Isolation SQLiteStore
begin

text \<open>
  A verification development of the Go package \<^verbatim>\<open>src/memory\<close> of llm-agent-memory:
  a tiered memory for language-model agents. Every theory names the file it models; data
  types and functions keep the names of the source, with a prefix where several receivers
  have a method of the same name (\<open>Working_Add\<close> is \<^verbatim>\<open>(*WorkingMemory).Add\<close>).

  \<^bold>\<open>The program.\<close> Three engines (working, episodic and semantic memory) keep their items in a
  \<^verbatim>\<open>scoredStore\<close>: a map of items, a map of embedding vectors and a sequence number for
  generated identifiers. They add what differs: eviction over a capacity, recency, tag
  prefixes. \<^verbatim>\<open>Manager\<close> dispatches to the engines by kind and runs the operations over all
  tiers. Around it stand \<^verbatim>\<open>ScopedManager\<close> (isolation by user, project and session, read
  from the context and stamped into the metadata map of an item), \<^verbatim>\<open>ScopedLifecycleManager\<close>
  and \<^verbatim>\<open>Consolidator\<close> (page through all items, then promote, forget or count them), the
  sanitizer chain and the write policy (which decide what is stored), \<^verbatim>\<open>ParallelSearcher\<close>,
  \<^verbatim>\<open>UnifiedSearcher\<close> and \<^verbatim>\<open>RecallEngine\<close> (fan out over the tiers, merge, deduplicate,
  rank), and \<^verbatim>\<open>SQLiteStore\<close>, a snapshot store for export and import.

  \<^bold>\<open>The theories.\<close>
  \<^item> \<^verbatim>\<open>Prelude\<close>: Go maps as association lists, shuffles, sorting, and the comparator of a
    sort as the locale \<open>comparator\<close> (\<open>keyed_comparator\<close> when the order is total).
  \<^item> \<^verbatim>\<open>GoRuntime\<close>, \<^verbatim>\<open>Base64\<close>: what the sources use of the language and its library.
  \<^item> \<^verbatim>\<open>Contract\<close>: the data of \<^verbatim>\<open>types_alias.go\<close>, the error values, the world (clock, heap of
    metadata maps, event log) and the environment. \<^verbatim>\<open>Sample\<close>: a concrete environment.
  \<^item> \<^verbatim>\<open>ItemHelpers\<close>: \<^verbatim>\<open>memory_item_helpers.go\<close>, \<^verbatim>\<open>scope_local.go\<close>.
  \<^item> \<^verbatim>\<open>ScoredStore\<close>, \<^verbatim>\<open>Scoring\<close>: \<^verbatim>\<open>engine_scored_store.go\<close>. The invariant \<open>store_wf\<close> and its
    preservation, that vectors follow the contents of their items (\<open>coherent\<close>), distinctness of
    generated identifiers; the scoring functions and their bounds.
  \<^item> \<^verbatim>\<open>Listing\<close>: \<^verbatim>\<open>engine_list.go\<close>. Cursor round trip, a page as a segment of a fixed
    listing, completeness of following the cursors, the wrap-around of the page bounds.
  \<^item> \<^verbatim>\<open>Persistence\<close>: \<^verbatim>\<open>engine_persistence.go\<close>. Export and import round trip, the import modes,
    the stores reachable through all operations.
  \<^item> \<^verbatim>\<open>Ranking\<close>, \<^verbatim>\<open>Working\<close>, \<^verbatim>\<open>Episodic\<close>, \<^verbatim>\<open>Semantic\<close>: \<^verbatim>\<open>vector_backend.go\<close> and the three engines.
    Searches return the best items by the scores of the engines, in order; the capacity and the
    choice of the evicted item.
  \<^item> \<^verbatim>\<open>Observer\<close>, \<^verbatim>\<open>Manager\<close>: \<^verbatim>\<open>observer.go\<close>, \<^verbatim>\<open>manager.go\<close>. An interface is a record of functions on
    the state; an optional interface (\<^verbatim>\<open>Lister\<close>, \<^verbatim>\<open>Exporter\<close>, \<^verbatim>\<open>Importer\<close>) is an optional field.
  \<^item> \<^verbatim>\<open>Engines\<close>: the engines as \<^verbatim>\<open>Memory\<close> values and their contract as the locales
    \<open>memory_tier\<close> and \<open>listed_tier\<close>, interpreted for all three, and \<open>unbounded_tier\<close>, for the two
    without a capacity. An engine seen as a store within the state (\<open>stored_tier\<close>) keeps the first.
  \<^item> \<^verbatim>\<open>Scoped\<close>: \<^verbatim>\<open>scoped_manager_local.go\<close>, proved inside \<open>memory_tier\<close>. Isolation of scopes. The
    exact effect of an addition on the engines is \<open>added\<close>.
  \<^item> \<^verbatim>\<open>Paging\<close>: the paging loop over any source of pages (locale \<open>paged_source\<close>).
    \<^verbatim>\<open>ScopedLifecycle\<close>, \<^verbatim>\<open>Consolidator\<close>: \<^verbatim>\<open>scoped_lifecycle.go\<close>, \<^verbatim>\<open>consolidator.go\<close>. Which items are
    forgotten and promoted, how often an item is enumerated, what a consolidation does to the
    three engines (\<open>consolidated\<close>) and that it promotes at most once.
  \<^item> \<^verbatim>\<open>PolicyHook\<close>, \<^verbatim>\<open>WritePolicy\<close>: \<^verbatim>\<open>policy_hook.go\<close>, \<^verbatim>\<open>write_policy.go\<close>. What the chain and the policy
    enforce on stored items, over any sequence of calls of a guarded memory (\<open>guarded\<close>), and where
    the two agree.
  \<^item> \<^verbatim>\<open>ParallelSearch\<close>, \<^verbatim>\<open>UnifiedSearch\<close>, \<^verbatim>\<open>RecallEngine\<close>: the files of these names. The parallel
    search as a serial one in some order of the kinds (locale \<open>reading_search\<close>), the merge against its
    specification \<open>merge_of\<close>, the unified search as a special recall, provenance counts.
  \<^item> \<^verbatim>\<open>SQLiteStore\<close>: \<^verbatim>\<open>sqlite_store.go\<close>. Keys, migrations, save, load and delete, and the export
    of a manager loaded back.
  \<^item> \<^verbatim>\<open>Goroutines\<close>: any number of goroutines that call one working memory, interleaved at the
    locked sections of \<^verbatim>\<open>engine_scored_store.go\<close> and \<^verbatim>\<open>engine_working.go\<close>, as a step relation. The
    ranking of an eviction is a section of its own, without the lock. A panic ends the program,
    and so does an update that writes a metadata map which a ranking is reading. What every
    interleaving keeps, when no goroutine panics, how far the capacity can be exceeded, and the
    races of update and eviction as concrete runs; the sections of a call, run one after the
    other, are the sequential operation.
  \<^item> \<^verbatim>\<open>Sessions\<close>, \<^verbatim>\<open>Isolation\<close>: clients of one manager in several goroutines, over all three engines.
    A scoped call is a read, the check of the scope and an act, with other sessions in between.
    The steps of a session, run one after the other, are the operation of \<^verbatim>\<open>ScopedManager\<close>; an
    identifier that is used again between the check and the act is a race, given as a concrete schedule; as long
    as identifiers are left to the stores, the check still holds when the call acts.
  \<^item> \<^verbatim>\<open>System\<close>: the parts together, as the states reachable by any sequence of their
    operations; the properties of the whole are in this theory.
  \<^item> \<^verbatim>\<open>Specification\<close>: the manager as an abstract machine, one map of items per kind with the
    answers each request may get, and the refinement of it by the manager over the engines.

  \<^bold>\<open>How the code is modelled.\<close> Operations take the state and return it with their result;
  errors are values of a sum type, with the wrapping of \<^verbatim>\<open>fmt.Errorf\<close> kept so that
  \<^verbatim>\<open>errors.Is\<close> can be computed. Metadata maps are references into a heap, because items share
  them and several theorems depend on the aliasing. Reading the clock and ranging over a
  map advance a step counter; the environment gives the time and the iteration order of each
  step, so theorems hold for every order. The order in which goroutines run and in which
  their answers arrive are two more such orders. Operations are atomic in all theories but
  \<^verbatim>\<open>Goroutines\<close>, \<^verbatim>\<open>Sessions\<close> and \<^verbatim>\<open>Isolation\<close>, where each is split at the points at which the
  code releases the lock. A \<^verbatim>\<open>float64\<close> is a real number, an infinity
  or NaN: comparisons and special values are those of Go, rounding is not modelled.
  \<^verbatim>\<open>sort.Slice\<close> is a stable sort of a list in an arbitrary order. Lengths, page bounds and the
  counter of the generated identifiers wrap around at 64 bits, tier masks are 8-bit words;
  what relies on the counter not to wrap says so (\<open>seq_room\<close>).
  Kinds, verdicts, sources and strategies are strings in Go and datatypes here, whose last
  constructor (\<open>KindOther\<close>, \<open>VerdictOther\<close> and so on) carries any other string; its values with
  the string of a named constructor have no counterpart in Go.
  The function of an update is the caller's and may do anything to the item; the code does not
  check that it keeps the identifier, and would store the item under the old one. The
  theorems on reachable states, on the refinement and on concurrent stores are about updates
  that keep it (\<open>keepsID\<close>).
  The paging loop has no bound of its own: it is a partial function whose value is \<open>None\<close>
  when it does not end, and it is proved to end, after the least common multiple of the
  page counts of the three kinds. No other loop needs fuel.

  \<^bold>\<open>Parameters.\<close> Code outside the repository is an argument: the embedder, an installed vector
  backend, sanitizers, policies, the functions of the contract module, the JSON codecs and
  the SQL database (record \<open>sqlDB\<close>). What is relied on is a named hypothesis:
  \<open>codec_ok\<close> for the cursor codec, \<open>sqlite_ok\<close> and \<open>schema_ok\<close> for
  what the statements do to the two tables, with a database of lists that satisfies them.

  \<^bold>\<open>Not modelled.\<close> \<^verbatim>\<open>version.go\<close> is a version string. Lock and unlock are not steps: a section
  between them is atomic, and neither a missing unlock nor a deadlock can be expressed. Of the
  aborts of the runtime on a metadata map that is read and written at the same time, only the
  one between a ranking and an update is a step; the scope checks and the stamps of scoped
  calls access such maps without a lock as well. The calls interleaved are those on one
  item and imports, while searches, listings and the operations over all tiers run without
  interruption; cancellation of contexts, the SQL engine and the file system are left out. Error texts are kept up to their constant part and the SQL text up to
  white space.
\<close>


section \<open>Properties of the whole\<close>

text \<open>
  C1. Well-formedness of the system: in every state that a program over the three engines
  reaches, through the manager, the scoped manager, imports, a write policy, the recall
  engine, the consolidator and the scoped lifecycle, with updates that keep the identifier of
  their item, the stores of all three engines are well formed, and a read of any kind and
  identifier answers exactly when an item is stored there, with that identifier.
\<close>

theorem reachable_system_wf:
  assumes "sys_reach E w"
  shows "store_wf (wm_store (wrk w)) \<and> store_wf (em_store (epi w)) \<and> store_wf (sm_store (sem w))
    \<and> (\<forall>kind \<in> set allKinds. \<forall>c i. tier_view kind w i \<noteq> None
         \<longleftrightarrow> (\<exists>it. fst (Manager_Get (engineManager E) c kind i w) = Inr it \<and> ID it = i))"
proof -
  have inv: "sys_inv w" by (rule sys_reach_inv [OF assms])
  have "tier_view kind w i \<noteq> None \<longleftrightarrow> (\<exists>it. fst (Manager_Get (engineManager E) c kind i w) = Inr it \<and> ID it = i)"
    if "kind \<in> set allKinds" for kind c i
    by (rule engine_get_iff [OF inv that])
  then show ?thesis using inv by (simp add: sys_inv_def working_inv_def episodic_inv_def semantic_inv_def)
qed

theorem reachable_system_wf_witness:
  "store_wf (em_store (epi (snd (Manager_Add (engineManager sampleEnv) sampleCtx KindEpisodic (sampleItem ''k'' ''hello'') newSys))))"
  (is "store_wf (em_store (epi (snd ?A)))")
proof -
  have "sys_reach sampleEnv (snd ?A)" by (rule sys_reach.add [OF newSys_reach]) (rule prod.collapse [symmetric])
  from reachable_system_wf [OF this] show ?thesis by blast
qed

text \<open>
  C5. The maintenance operations return: in a reachable state whose listings can be paged (the
  cursors of the listed items encode and decode, and no listing comes near the range of the
  machine integers), consolidation, scoped consolidation, forgetting and statistics all end,
  however many pages there are and however often a listing is repeated.
\<close>

theorem maintenance_returns:
  assumes "sys_reach E w"
    and "\<forall>f \<in> {zeroFilter, scopedFilter E c}. \<forall>k \<in> set allKinds. codecs_ok E (tier_listing E k f w)
      \<and> length (tier_listing E k f w) < 2 ^ 62"
  shows "(\<exists>n err w'. Consolidate E (engineConsolidator E cfg) c co w = Some ((n, err), w'))
    \<and> (\<exists>n err w'. ConsolidateScoped E (engineLifecycle E cfg) c co w = Some ((n, err), w'))
    \<and> (\<forall>kind. \<exists>n err w'. ForgetScoped E (engineLifecycle E cfg) c kind fo w = Some ((n, err), w'))
    \<and> (\<exists>stats w'. StatsScoped E (engineLifecycle E cfg) c w = Some (Inr stats, w'))"
proof -
  have rdy: "list_ready E f 200 (\<lambda>k. tier_listing E k f w) w" if "f \<in> {zeroFilter, scopedFilter E c}" for f
    using sys_reach_inv [OF assms(1)] assms(2) that by (fastforce simp: list_ready_def)
  obtain out t where "listAllPaged E (engineConsolidator E cfg) c 200 w = Some (Inr out, w\<lparr>tick := t\<rparr>)"
    using listAllPaged_engines [OF rdy [of zeroFilter], of cfg c] by auto
  moreover obtain out' t' where "listAllScoped E (engineLifecycle E cfg) c 200 w = Some (Inr out', w\<lparr>tick := t'\<rparr>)"
    using listAllScoped_engines [OF rdy [of "scopedFilter E c"], of cfg] by auto
  moreover have "\<exists>n err w'. r = ((n, err), w')" for r :: "(int \<times> error option) \<times> sys" by (metis prod.exhaust)
  ultimately show ?thesis
    by (auto simp: Consolidate_def ConsolidateScoped_def ForgetScoped_def StatsScoped_def Let_def split_beta
        split: prod.split option.split)
qed

theorem maintenance_returns_witness:
  "\<exists>n err w'. Consolidate sampleEnv (engineConsolidator sampleEnv \<lparr>observer = None\<rparr>) sampleCtx promoteHalf
     (snd (Manager_Add (engineManager sampleEnv) sampleCtx KindEpisodic (sampleItem ''k'' ''hello'') newSys)) = Some ((n, err), w')"
  (is "\<exists>n err w'. Consolidate _ _ _ _ (snd ?A) = _")
proof -
  have reach: "sys_reach sampleEnv (snd ?A)" by (rule sys_reach.add [OF newSys_reach]) (rule prod.collapse [symmetric])
  have sm: "small (snd ?A)"
    by (simp add: small_def newSys_def newScoredStore_def Manager_Add_def engine_ops store_add_def assignID_def time_Now_def
        stampAdded_def queryEmbedding_def sampleEmbedder_def Let_def)
  note rdy = small_ready [OF sys_reach_inv [OF reach] sm]
  have "\<forall>f \<in> {zeroFilter, scopedFilter sampleEnv sampleCtx}. \<forall>k \<in> set allKinds. codecs_ok sampleEnv (tier_listing sampleEnv k f (snd ?A))
      \<and> length (tier_listing sampleEnv k f (snd ?A)) < 2 ^ 62"
    using rdy by (fastforce simp: twoSys_filter list_ready_def)
  from maintenance_returns [OF reach this] show ?thesis by blast
qed

text \<open>
  C18. No reachable state refuses work: whenever the embedder answers, an addition to the
  episodic or semantic memory goes through, the item is then read back under the returned
  identifier, can be removed, and is not found afterwards; removing it restores the tier, but
  for an item that the caller's own identifier replaced, and no other tier has changed.
\<close>

theorem additions_go_through:
  assumes "sys_reach E w" and kind: "kind = KindEpisodic \<or> kind = KindSemantic"
    and emb: "\<forall>t. \<forall>s \<in> {em_store (epi w), sm_store (sem w)}. \<exists>vs. embedder s t c [Content item] = Inr vs"
  shows "\<exists>i it w1 w2 w3. Manager_Add (engineManager E) c kind item w = (Inr i, w1)
    \<and> Manager_Get (engineManager E) c kind i w1 = (Inr it, w2)
    \<and> ID it = i \<and> Content it = Content item \<and> Tags it = Tags item
    \<and> Manager_Remove (engineManager E) c kind i w2 = (Inr (), w3)
    \<and> Manager_Get (engineManager E) c kind i w3 = (Inl ErrNotFound, w3)
    \<and> tier_view kind w3 = (tier_view kind w)(i := None)
    \<and> (\<forall>k. k \<noteq> kind \<longrightarrow> tier_view k w3 = tier_view k w)"
proof -
  have inv: "sys_inv w" "episodic_inv w" "semantic_inv w" using sys_reach_inv [OF assms(1)] by (simp_all add: sys_inv_def)
  from kind show ?thesis
  proof
    assume k: "kind = KindEpisodic"
    obtain i w1 where a: "mem_Add (episodicMemory E) c item w = (Inr i, w1)"
      using engine_add_succeeds(1) [of w c item E] emb by auto
    obtain it w2 w3 where s: "mem_Get (episodicMemory E) c i w1 = (Inr it, w2)" "ID it = i" "Content it = Content item"
        "Tags it = Tags item" "mem_Remove (episodicMemory E) c i w2 = (Inr (), w3)"
        "mem_Get (episodicMemory E) c i w3 = (Inl ErrNotFound, w3)" "episodic_view w3 = (episodic_view w)(i := None)"
        "(wrk w3, em_opts (epi w3), sem w3, events w3) = (wrk w, em_opts (epi w), sem w, events w)"
      using episodic_store.add_get_remove [OF inv(2) a] by blast
    have "\<forall>j. j \<noteq> KindEpisodic \<longrightarrow> tier_view j w3 = tier_view j w"
      using s(8) by (auto simp: tier_view_def working_view_def semantic_view_def split: Kind.splits)
    then show ?thesis using a s by (auto simp: k Manager_Add_def Manager_Get_def Manager_Remove_def)
  next
    assume k: "kind = KindSemantic"
    obtain i w1 where a: "mem_Add (semanticMemory E) c item w = (Inr i, w1)"
      using engine_add_succeeds(2) [of w c item E] emb by auto
    obtain it w2 w3 where s: "mem_Get (semanticMemory E) c i w1 = (Inr it, w2)" "ID it = i" "Content it = Content item"
        "Tags it = Tags item" "mem_Remove (semanticMemory E) c i w2 = (Inr (), w3)"
        "mem_Get (semanticMemory E) c i w3 = (Inl ErrNotFound, w3)" "semantic_view w3 = (semantic_view w)(i := None)"
        "(wrk w3, epi w3, sm_opts (sem w3), events w3) = (wrk w, epi w, sm_opts (sem w), events w)"
      using semantic_store.add_get_remove [OF inv(3) a] by blast
    have "\<forall>j. j \<noteq> KindSemantic \<longrightarrow> tier_view j w3 = tier_view j w"
      using s(8) by (auto simp: tier_view_def working_view_def episodic_view_def split: Kind.splits)
    then show ?thesis using a s by (auto simp: k Manager_Add_def Manager_Get_def Manager_Remove_def)
  qed
qed

theorem additions_go_through_witness:
  "\<exists>i w1. Manager_Add (engineManager sampleEnv) sampleCtx KindSemantic (sampleItem ''k'' ''hello'') newSys = (Inr i, w1)"
proof -
  have "\<forall>t. \<forall>s \<in> {em_store (epi newSys), sm_store (sem newSys)}. \<exists>vs. embedder s t sampleCtx [Content (sampleItem ''k'' ''hello'')] = Inr vs"
    by (simp add: newSys_def newScoredStore_def sampleEmbedder_def)
  from additions_go_through [OF newSys_reach _ this, of KindSemantic sampleEnv] show ?thesis by blast
qed

end
